(* ===== verification/Prelude.thy ===== *)
theory Prelude
  imports Main "HOL-Library.List_Lexorder" "HOL-Library.AList" "HOL-Library.Sublist"
begin

text \<open>
  Shared vocabulary of the development: Python text as lists of code points, f-strings as lists
  of parts, the exception taxonomy of \<^verbatim>\<open>src/groundtruth/errors.py\<close> as data, results that may
  be an exception, state-passing actions, and the list lemmas the components share.

  A Python \<open>str\<close> is a sequence of code points, so \<open>pystr\<close> is a list of \<open>int\<close>: \<open>len\<close> counts code
  points and byte counts go through UTF-8 (theory \<open>Text\<close>), as in the program.
  \<open>List_Lexorder\<close> orders \<open>pystr\<close> by code points, as Python's \<open>sorted\<close> does.
\<close>

named_theorems guard_simps \<open>unfolding of raising checks to the condition under which they pass\<close>
named_theorems store_simps \<open>lookup-after-write equations of the persistent stores\<close>
named_theorems path_simps \<open>equations of the path and file system functions\<close>

type_synonym uchar = int
type_synonym pystr = "uchar list"
type_synonym bytes = "int list"

definition lit :: "string \<Rightarrow> pystr" where
  "lit s = map of_char s"

lemma lit_Nil [simp]: "lit [] = []"
  by (simp add: lit_def)

lemma lit_Cons [simp]: "lit (c # cs) = of_char c # lit cs"
  by (simp add: lit_def)

section \<open>Messages: f-strings as lists of parts\<close>

text \<open>
  \<open>Repr s\<close> is the \<open>{s!r}\<close> of an f-string; it is kept unrendered, so that raising an exception needs
  no table of printable characters. \<open>Text.render\<close> turns a message into text.
\<close>

datatype part = Lit string | Txt pystr | Repr pystr | Num int

type_synonym message = "part list"

section \<open>Exceptions\<close>

text \<open>
  The classes raised or caught by the program: those of \<^verbatim>\<open>errors.py\<close> and of the modules that
  subclass them, then the built-in and third-party ones that the code names.
\<close>

datatype exc_class =
    GroundtruthError | TransientError | TerminalError
  | ModelServerConnectionError | ReadTimeoutError | TransientHTTPError
  | TerminalHTTPError | WriteValidationError | GitConflictError | DirtyWorkingTreeError
  | MalformedLLMOutputError
  | UnsafePathError | ValidationRejectionError
  | FrontmatterError | MissingFrontmatterError | MalformedFrontmatterError
  | SchemaError | SchemaNotFoundError | SchemaWriteRefusedError
  | GitError | GitNetworkError | GitPushError
  | JobStoreError | RegistryError | NoteRepositoryError | NoteNotFoundError
  | ScaffoldError | AuthConfigError
  | StageFailureError | ApiError
  | ConfigError | ValueError | PydanticValidationError | JSONDecodeError | UnicodeError
  | KeyError | IndexError | AttributeError | TypeError | RuntimeError | AssertionError | RegexError | YAMLError
  | OSError | ConnectionRefusedError | TimeoutError | OtherException

datatype exc_attr =
    NoAttr
  | StatusCode int                 \<comment> \<open>\<open>status_code\<close> of the HTTP errors\<close>
  | RuleAttr string pystr          \<comment> \<open>\<open>rule\<close> and \<open>note_path\<close> of a validation rejection\<close>
  | RollbackAttr bool              \<comment> \<open>\<open>rollback\<close> of a stage failure\<close>
  | HttpAttr int                   \<comment> \<open>\<open>status\<close> of an API error\<close>

record exn =
  ecls :: exc_class
  emsg :: message
  estage :: "string option"
  eattr :: exc_attr

definition exc :: "exc_class \<Rightarrow> message \<Rightarrow> exn" where
  "exc c m = \<lparr>ecls = c, emsg = m, estage = None, eattr = NoAttr\<rparr>"

definition exc_at :: "exc_class \<Rightarrow> message \<Rightarrow> string \<Rightarrow> exn" where
  "exc_at c m st = \<lparr>ecls = c, emsg = m, estage = Some st, eattr = NoAttr\<rparr>"

lemma exc_sel [simp]:
  "ecls (exc c m) = c" "emsg (exc c m) = m" "estage (exc c m) = None" "eattr (exc c m) = NoAttr"
  by (simp_all add: exc_def)

lemma exc_at_sel [simp]:
  "ecls (exc_at c m st) = c" "emsg (exc_at c m st) = m" "estage (exc_at c m st) = Some st"
  "eattr (exc_at c m st) = NoAttr"
  by (simp_all add: exc_at_def)

section \<open>Results that may be an exception\<close>

type_synonym 'a res = "exn + 'a"

definition bindR :: "'a res \<Rightarrow> ('a \<Rightarrow> 'b res) \<Rightarrow> 'b res" where
  "bindR r f = (case r of Inl e \<Rightarrow> Inl e | Inr x \<Rightarrow> f x)"

definition guardR :: "bool \<Rightarrow> exn \<Rightarrow> unit res" where
  "guardR b e = (if b then Inr () else Inl e)"

fun isOk :: "'a res \<Rightarrow> bool" where
  "isOk (Inr _) = True"
| "isOk (Inl _) = False"

lemma bindR_simps [simp]:
  "bindR (Inl e) f = Inl e"
  "bindR (Inr x) f = f x"
  by (simp_all add: bindR_def)

lemma bindR_eq_Inr [simp]:
  "bindR r f = Inr y \<longleftrightarrow> (\<exists>x. r = Inr x \<and> f x = Inr y)"
  by (cases r) auto

lemma bindR_eq_Inl:
  "bindR r f = Inl e \<longleftrightarrow> r = Inl e \<or> (\<exists>x. r = Inr x \<and> f x = Inl e)"
  by (cases r) auto

lemma guardR_simps [simp]:
  "guardR True e = Inr ()"
  "guardR False e = Inl e"
  by (simp_all add: guardR_def)

lemma guardR_eq_Inr [simp]: "guardR b e = Inr u \<longleftrightarrow> b"
  by (simp add: guardR_def)

lemma guardR_eq_Inl [simp]: "guardR b e = Inl e' \<longleftrightarrow> \<not> b \<and> e' = e"
  by (auto simp: guardR_def)

lemma isOk_iff: "isOk r \<longleftrightarrow> (\<exists>x. r = Inr x)"
  by (cases r) auto

text \<open>A loop that may raise: the first exception ends it.\<close>

fun forR :: "('a \<Rightarrow> unit res) \<Rightarrow> 'a list \<Rightarrow> unit res" where
  "forR f [] = Inr ()"
| "forR f (x # xs) = bindR (f x) (\<lambda>_. forR f xs)"

fun mapR :: "('a \<Rightarrow> 'b res) \<Rightarrow> 'a list \<Rightarrow> 'b list res" where
  "mapR f [] = Inr []"
| "mapR f (x # xs) = bindR (f x) (\<lambda>y. bindR (mapR f xs) (\<lambda>ys. Inr (y # ys)))"

lemma forR_ok_iff: "forR f xs = Inr () \<longleftrightarrow> (\<forall>x \<in> set xs. f x = Inr ())"
  by (induction xs) auto

lemma forR_InlD: "forR f xs = Inl e \<Longrightarrow> \<exists>x \<in> set xs. f x = Inl e"
  by (induction xs) (auto simp: bindR_eq_Inl)

lemma forR_append: "forR f (xs @ ys) = bindR (forR f xs) (\<lambda>_. forR f ys)"
proof (induction xs)
  case Nil
  then show ?case by simp
next
  case (Cons x xs)
  then show ?case by (cases "f x") simp_all
qed

lemma mapR_ok_iff: "mapR f xs = Inr ys \<longleftrightarrow> list_all2 (\<lambda>x y. f x = Inr y) xs ys"
  by (induction xs arbitrary: ys) (auto simp: list_all2_Cons1)

lemma mapR_length: "mapR f xs = Inr ys \<Longrightarrow> length ys = length xs"
  by (auto simp: mapR_ok_iff dest: list_all2_lengthD)

section \<open>State-passing actions\<close>

text \<open>An action runs on a state and ends with a value or an exception; the state of an exception
  is the state at the raise, as in Python, where effects before a raise stay.\<close>

type_synonym ('s, 'a) act = "'s \<Rightarrow> 'a res \<times> 's"

definition retA :: "'a \<Rightarrow> ('s, 'a) act" where
  "retA x s = (Inr x, s)"

definition raiseA :: "exn \<Rightarrow> ('s, 'a) act" where
  "raiseA e s = (Inl e, s)"

definition bindA :: "('s, 'a) act \<Rightarrow> ('a \<Rightarrow> ('s, 'b) act) \<Rightarrow> ('s, 'b) act" where
  "bindA m f s = (case m s of (Inl e, s') \<Rightarrow> (Inl e, s') | (Inr x, s') \<Rightarrow> f x s')"

definition tryA :: "('s, 'a) act \<Rightarrow> (exn \<Rightarrow> ('s, 'a) act) \<Rightarrow> ('s, 'a) act" where
  "tryA m h s = (case m s of (Inl e, s') \<Rightarrow> h e s' | (Inr x, s') \<Rightarrow> (Inr x, s'))"

lemma act_simps [simp]:
  "retA x s = (Inr x, s)"
  "raiseA e s = (Inl e, s)"
  by (simp_all add: retA_def raiseA_def)

lemma bindA_Inr: "m s = (Inr x, s') \<Longrightarrow> bindA m f s = f x s'"
  by (simp add: bindA_def)

lemma bindA_Inl: "m s = (Inl e, s') \<Longrightarrow> bindA m f s = (Inl e, s')"
  by (simp add: bindA_def)

lemma bindA_ok:
  "bindA m f s = (Inr y, t) \<longleftrightarrow> (\<exists>x s'. m s = (Inr x, s') \<and> f x s' = (Inr y, t))"
  by (auto simp: bindA_def split: prod.splits sum.splits)

lemma bindA_err:
  "bindA m f s = (Inl e, t) \<longleftrightarrow>
    m s = (Inl e, t) \<or> (\<exists>x s'. m s = (Inr x, s') \<and> f x s' = (Inl e, t))"
  by (auto simp: bindA_def split: prod.splits sum.splits)

section \<open>Lists\<close>

text \<open>Order-preserving removal of repeats: the \<open>seen\<close>-set loops of the program.\<close>

fun uniq_acc :: "'a list \<Rightarrow> 'a list \<Rightarrow> 'a list" where
  "uniq_acc seen [] = []"
| "uniq_acc seen (x # xs) =
    (if x \<in> set seen then uniq_acc seen xs else x # uniq_acc (x # seen) xs)"

definition uniq :: "'a list \<Rightarrow> 'a list" where
  "uniq xs = uniq_acc [] xs"

lemma set_uniq_acc: "set (uniq_acc seen xs) = set xs - set seen"
  by (induction xs arbitrary: seen) auto

lemma distinct_uniq_acc: "distinct (uniq_acc seen xs)"
  by (induction xs arbitrary: seen) (auto simp: set_uniq_acc)

lemma set_uniq [simp]: "set (uniq xs) = set xs"
  by (simp add: uniq_def set_uniq_acc)

lemma distinct_uniq [simp]: "distinct (uniq xs)"
  by (simp add: uniq_def distinct_uniq_acc)

lemma uniq_acc_distinct: "distinct xs \<Longrightarrow> set xs \<inter> set seen = {} \<Longrightarrow> uniq_acc seen xs = xs"
  by (induction xs arbitrary: seen) auto

lemma uniq_id: "distinct xs \<Longrightarrow> uniq xs = xs"
  by (simp add: uniq_def uniq_acc_distinct)

lemma uniq_idem [simp]: "uniq (uniq xs) = uniq xs"
  by (simp add: uniq_id)

lemma uniq_acc_append: "uniq_acc seen (xs @ ys) = uniq_acc seen xs @ uniq_acc (rev (uniq_acc seen xs) @ seen) ys"
proof (induction xs arbitrary: seen)
  case Nil
  then show ?case by simp
next
  case (Cons x xs)
  then show ?case by simp
qed

lemma uniq_prefix: "prefix (uniq xs) (uniq (xs @ ys))"
  by (simp add: uniq_def uniq_acc_append)

lemma uniq_append_distinct:
  "distinct xs \<Longrightarrow> uniq (xs @ ys) = xs @ uniq_acc (rev xs) ys"
  by (simp add: uniq_def uniq_acc_append uniq_acc_distinct)

text \<open>Association lists as dictionaries: the last write to a key wins, insertion order is kept.\<close>

definition dict_set :: "'k \<Rightarrow> 'v \<Rightarrow> ('k \<times> 'v) list \<Rightarrow> ('k \<times> 'v) list" where
  "dict_set k v d = AList.update k v d"

definition dict_del :: "'k \<Rightarrow> ('k \<times> 'v) list \<Rightarrow> ('k \<times> 'v) list" where
  "dict_del k d = AList.delete k d"

lemma map_of_dict_set [store_simps]: "map_of (dict_set k v d) = (map_of d)(k \<mapsto> v)"
  by (simp add: dict_set_def update_conv')

lemma map_of_dict_del [store_simps]: "map_of (dict_del k d) = (map_of d)(k := None)"
  by (simp add: dict_del_def delete_conv')

lemma distinct_dict_set: "distinct (map fst d) \<Longrightarrow> distinct (map fst (dict_set k v d))"
  by (simp add: dict_set_def distinct_update)

lemma distinct_dict_del: "distinct (map fst d) \<Longrightarrow> distinct (map fst (dict_del k d))"
  by (simp add: dict_del_def distinct_delete)

lemma fst_set_dict_set: "fst ` set (dict_set k v d) = insert k (fst ` set d)"
  using map_of_dict_set [of k v d] by (metis dom_fun_upd dom_map_of_conv_image_fst option.discI)

text \<open>The first element of an indexed search, Python's \<open>next(\<dots>, None)\<close>.\<close>

fun find_index :: "('a \<Rightarrow> bool) \<Rightarrow> 'a list \<Rightarrow> nat option" where
  "find_index P [] = None"
| "find_index P (x # xs) = (if P x then Some 0 else map_option Suc (find_index P xs))"

lemma find_index_Some:
  "find_index P xs = Some i \<Longrightarrow> i < length xs \<and> P (xs ! i) \<and> (\<forall>j < i. \<not> P (xs ! j))"
proof (induction xs arbitrary: i)
  case Nil
  then show ?case by simp
next
  case (Cons x xs)
  show ?case
  proof (cases "P x")
    case True
    with Cons.prems show ?thesis by simp
  next
    case False
    with Cons.prems obtain j where j: "find_index P xs = Some j" "i = Suc j" by auto
    from Cons.IH [OF j(1)] j(2) False show ?thesis by (auto simp: less_Suc_eq_0_disj)
  qed
qed

lemma find_index_None: "find_index P xs = None \<longleftrightarrow> (\<forall>x \<in> set xs. \<not> P x)"
  by (induction xs) auto

end
