(* ===== verification/Text.thy ===== *)
theory Text
  imports Prelude
begin

text \<open>
  The operations of Python's \<open>str\<close> and of UTF-8 that the program uses, on lists of code points.

  Tables of the Unicode database that a theory cannot hold (normal forms, categories, case
  mapping, \<open>str.isalnum\<close>) are the fields of a record \<open>ucd\<close>, an argument of the definitions that
  consult them.
\<close>

record ucd =
  nfc :: "pystr \<Rightarrow> pystr"            \<comment> \<open>\<open>unicodedata.normalize("NFC", s)\<close>\<close>
  nfkc :: "pystr \<Rightarrow> pystr"           \<comment> \<open>\<open>unicodedata.normalize("NFKC", s)\<close>\<close>
  category :: "uchar \<Rightarrow> string"      \<comment> \<open>\<open>unicodedata.category(ch)\<close>\<close>
  alnum :: "uchar \<Rightarrow> bool"           \<comment> \<open>\<open>ch.isalnum()\<close>\<close>
  lower :: "pystr \<Rightarrow> pystr"          \<comment> \<open>\<open>s.lower()\<close>\<close>
  casefold :: "pystr \<Rightarrow> pystr"       \<comment> \<open>\<open>s.casefold()\<close>\<close>

text \<open>The database restricted to ASCII: the concrete instance used by the witnesses.\<close>

definition ascii_lower1 :: "uchar \<Rightarrow> uchar" where
  "ascii_lower1 c = (if 65 \<le> c \<and> c \<le> 90 then c + 32 else c)"

definition ascii_alnum :: "uchar \<Rightarrow> bool" where
  "ascii_alnum c \<longleftrightarrow> 48 \<le> c \<and> c \<le> 57 \<or> 65 \<le> c \<and> c \<le> 90 \<or> 97 \<le> c \<and> c \<le> 122"

definition ascii_category :: "uchar \<Rightarrow> string" where
  "ascii_category c =
    (if 97 \<le> c \<and> c \<le> 122 then ''Ll'' else if 65 \<le> c \<and> c \<le> 90 then ''Lu''
     else if 48 \<le> c \<and> c \<le> 57 then ''Nd'' else if c = 32 then ''Zs''
     else if 33 \<le> c \<and> c \<le> 126 then ''Po'' else ''Cc'')"

definition ascii_ucd :: ucd where
  "ascii_ucd = \<lparr>nfc = id, nfkc = id, category = ascii_category, alnum = ascii_alnum,
     lower = map ascii_lower1, casefold = map ascii_lower1\<rparr>"

lemma ascii_ucd_sel [simp]:
  "nfc ascii_ucd = id" "nfkc ascii_ucd = id" "category ascii_ucd = ascii_category"
  "alnum ascii_ucd = ascii_alnum" "lower ascii_ucd = map ascii_lower1"
  "casefold ascii_ucd = map ascii_lower1"
  by (simp_all add: ascii_ucd_def)

section \<open>Splitting and joining\<close>

text \<open>\<open>s.split(d)\<close> for a one-character separator: never empty.\<close>

fun split_on :: "uchar \<Rightarrow> pystr \<Rightarrow> pystr list" where
  "split_on d [] = [[]]"
| "split_on d (c # cs) =
    (if c = d then [] # split_on d cs
     else (case split_on d cs of [] \<Rightarrow> [[c]] | x # xs \<Rightarrow> (c # x) # xs))"

text \<open>\<open>sep.join(xs)\<close>.\<close>

fun join :: "pystr \<Rightarrow> pystr list \<Rightarrow> pystr" where
  "join sep [] = []"
| "join sep [x] = x"
| "join sep (x # y # zs) = x @ sep @ join sep (y # zs)"

lemma split_on_nonempty [simp]: "split_on d s \<noteq> []"
  by (induction s) (auto split: list.splits)

lemma join_Cons: "xs \<noteq> [] \<Longrightarrow> join sep (x # xs) = x @ sep @ join sep xs"
  by (cases xs) auto

lemma join_split_on [simp]: "join [d] (split_on d s) = s"
proof (induction s)
  case Nil
  then show ?case by simp
next
  case (Cons c cs)
  show ?case
  proof (cases "split_on d cs")
    case Nil
    then show ?thesis by simp
  next
    case (Cons x xs)
    with Cons.IH show ?thesis by (cases xs) (auto simp: join_Cons)
  qed
qed

lemma split_on_no_sep: "x \<in> set (split_on d s) \<Longrightarrow> d \<notin> set x"
proof (induction s arbitrary: x)
  case Nil
  then show ?case by simp
next
  case (Cons c cs)
  then show ?case by (cases "split_on d cs") (auto split: if_splits)
qed

lemma split_on_absent: "d \<notin> set s \<Longrightarrow> split_on d s = [s]"
  by (induction s) auto

lemma split_on_append: "d \<notin> set x \<Longrightarrow> split_on d (x @ d # s) = x # split_on d s"
  by (induction x) auto

lemma split_on_join:
  "xs \<noteq> [] \<Longrightarrow> \<forall>x \<in> set xs. d \<notin> set x \<Longrightarrow> split_on d (join [d] xs) = xs"
proof (induction xs)
  case Nil
  then show ?case by simp
next
  case (Cons x xs)
  show ?case
  proof (cases xs)
    case Nil
    with Cons.prems show ?thesis by (simp add: split_on_absent)
  next
    case (Cons y ys)
    with Cons.IH Cons.prems show ?thesis by (simp add: split_on_append)
  qed
qed

lemma set_split_on: "x \<in> set (split_on d s) \<Longrightarrow> set x \<subseteq> set s"
proof (induction s arbitrary: x)
  case Nil
  then show ?case by simp
next
  case (Cons c cs)
  show ?case
  proof (cases "split_on d cs")
    case Nil
    then show ?thesis by simp
  next
    case (Cons y ys)
    have y: "set y \<subseteq> set cs" and ys: "\<And>z. z \<in> set ys \<Longrightarrow> set z \<subseteq> set cs"
      using Cons.IH local.Cons by auto
    from Cons.prems local.Cons show ?thesis
      using y ys by (auto split: if_splits)
  qed
qed

text \<open>The last and first fields: \<open>s.rsplit("/", 1)[-1]\<close> and \<open>s.split("/", 1)[0]\<close>.\<close>

definition last_field :: "uchar \<Rightarrow> pystr \<Rightarrow> pystr" where
  "last_field d s = last (split_on d s)"

definition first_field :: "uchar \<Rightarrow> pystr \<Rightarrow> pystr" where
  "first_field d s = hd (split_on d s)"

text \<open>\<open>s.partition(d)\<close>: text before the first separator, whether it was found, text after it.\<close>

fun partition_on :: "uchar \<Rightarrow> pystr \<Rightarrow> pystr \<times> bool \<times> pystr" where
  "partition_on d [] = ([], False, [])"
| "partition_on d (c # cs) =
    (if c = d then ([], True, cs)
     else (case partition_on d cs of (a, f, b) \<Rightarrow> (c # a, f, b)))"

lemma partition_on_True: "partition_on d s = (a, True, b) \<Longrightarrow> s = a @ d # b \<and> d \<notin> set a"
  by (induction s arbitrary: a) (auto split: if_splits prod.splits)

lemma partition_on_False: "partition_on d s = (a, False, b) \<Longrightarrow> a = s \<and> b = [] \<and> d \<notin> set s"
  by (induction s arbitrary: a b) (auto split: if_splits prod.splits)

section \<open>White space\<close>

text \<open>\<open>str.isspace\<close>, the set that \<open>strip()\<close>, \<open>split()\<close> and the regex \<open>\s\<close> use.\<close>

definition is_space :: "uchar \<Rightarrow> bool" where
  "is_space c \<longleftrightarrow> 9 \<le> c \<and> c \<le> 13 \<or> 28 \<le> c \<and> c \<le> 32 \<or> c = 133 \<or> c = 160 \<or> c = 5760
     \<or> 8192 \<le> c \<and> c \<le> 8202 \<or> c = 8232 \<or> c = 8233 \<or> c = 8239 \<or> c = 8287 \<or> c = 12288"

definition lstrip_by :: "(uchar \<Rightarrow> bool) \<Rightarrow> pystr \<Rightarrow> pystr" where
  "lstrip_by P s = dropWhile P s"

definition rstrip_by :: "(uchar \<Rightarrow> bool) \<Rightarrow> pystr \<Rightarrow> pystr" where
  "rstrip_by P s = rev (dropWhile P (rev s))"

definition strip_by :: "(uchar \<Rightarrow> bool) \<Rightarrow> pystr \<Rightarrow> pystr" where
  "strip_by P s = rstrip_by P (lstrip_by P s)"

definition strip :: "pystr \<Rightarrow> pystr" where
  "strip s = strip_by is_space s"

lemma rstrip_by_prefix: "prefix (rstrip_by P s) s"
proof -
  have "rev s = takeWhile P (rev s) @ dropWhile P (rev s)" by simp
  then have "s = rev (dropWhile P (rev s)) @ rev (takeWhile P (rev s))"
    by (metis rev_append rev_rev_ident)
  then show ?thesis unfolding rstrip_by_def by (metis prefixI)
qed

lemma rstrip_by_last: "rstrip_by P s \<noteq> [] \<Longrightarrow> \<not> P (last (rstrip_by P s))"
  by (metis (no_types, lifting) hd_dropWhile last_rev rev_is_Nil_conv rstrip_by_def)

lemma rstrip_by_Nil [simp]: "rstrip_by P [] = []"
  by (simp add: rstrip_by_def)

lemma rstrip_by_id: "s = [] \<or> \<not> P (last s) \<Longrightarrow> rstrip_by P s = s"
  by (cases s rule: rev_cases) (auto simp: rstrip_by_def)

lemma lstrip_by_id: "s = [] \<or> \<not> P (hd s) \<Longrightarrow> lstrip_by P s = s"
  by (cases s) (auto simp: lstrip_by_def)

lemma set_strip_by: "set (strip_by P s) \<subseteq> set s"
  by (auto simp: strip_by_def rstrip_by_def lstrip_by_def dest!: set_dropWhileD)

lemma strip_by_edges:
  "strip_by P s \<noteq> [] \<Longrightarrow> \<not> P (hd (strip_by P s)) \<and> \<not> P (last (strip_by P s))"
proof -
  assume ne: "strip_by P s \<noteq> []"
  let ?l = "lstrip_by P s"
  have pre: "prefix (rstrip_by P ?l) ?l" by (rule rstrip_by_prefix)
  from ne have "?l \<noteq> []" by (auto simp: strip_by_def)
  then have "\<not> P (hd ?l)" by (simp add: lstrip_by_def hd_dropWhile)
  moreover from pre ne have "hd (strip_by P s) = hd ?l"
    by (metis hd_append2 prefixE strip_by_def)
  ultimately show ?thesis
    using ne rstrip_by_last [of P ?l] by (simp add: strip_by_def)
qed

lemma strip_by_id: "s = [] \<or> \<not> P (hd s) \<and> \<not> P (last s) \<Longrightarrow> strip_by P s = s"
  by (auto simp: strip_by_def lstrip_by_id rstrip_by_id)

lemma strip_by_idem [simp]: "strip_by P (strip_by P s) = strip_by P s"
  using strip_by_edges [of P s] strip_by_id by blast

lemma strip_idem [simp]: "strip (strip s) = strip s"
  by (simp add: strip_def)

text \<open>\<open>s.split()\<close>: maximal runs of non-space characters.\<close>

fun words_acc :: "pystr \<Rightarrow> pystr \<Rightarrow> pystr list" where
  "words_acc cur [] = (if cur = [] then [] else [rev cur])"
| "words_acc cur (c # cs) =
    (if is_space c then (if cur = [] then words_acc [] cs else rev cur # words_acc [] cs)
     else words_acc (c # cur) cs)"

definition words :: "pystr \<Rightarrow> pystr list" where
  "words s = words_acc [] s"

lemma words_acc_no_space:
  "\<forall>c \<in> set cur. \<not> is_space c \<Longrightarrow> x \<in> set (words_acc cur s) \<Longrightarrow> \<forall>c \<in> set x. \<not> is_space c"
proof (induction s arbitrary: cur)
  case Nil
  then show ?case by (cases "cur = []") simp_all
next
  case (Cons c cs)
  show ?case
  proof (cases "is_space c")
    case True
    with Cons.prems Cons.IH [of "[]"] show ?thesis by (cases "cur = []") auto
  next
    case False
    with Cons.prems Cons.IH [of "c # cur"] show ?thesis by simp
  qed
qed

text \<open>\<open>s.splitlines()\<close>: every Unicode line boundary, \<open>\r\n\<close> as one, no empty last line.\<close>

definition is_linebreak :: "uchar \<Rightarrow> bool" where
  "is_linebreak c \<longleftrightarrow> 10 \<le> c \<and> c \<le> 13 \<or> 28 \<le> c \<and> c \<le> 30 \<or> c = 133 \<or> c = 8232 \<or> c = 8233"

fun splitlines_acc :: "pystr \<Rightarrow> pystr \<Rightarrow> pystr list" where
  "splitlines_acc cur [] = (if cur = [] then [] else [rev cur])"
| "splitlines_acc cur (c # cs) =
    (if c = 13 \<and> cs \<noteq> [] \<and> hd cs = 10 then rev cur # splitlines_acc [] (tl cs)
     else if is_linebreak c then rev cur # splitlines_acc [] cs
     else splitlines_acc (c # cur) cs)"

definition splitlines :: "pystr \<Rightarrow> pystr list" where
  "splitlines s = splitlines_acc [] s"

lemma splitlines_acc_no_break:
  "\<forall>c \<in> set cur. \<not> is_linebreak c \<Longrightarrow> x \<in> set (splitlines_acc cur s) \<Longrightarrow>
    \<forall>c \<in> set x. \<not> is_linebreak c"
proof (induction "length s" arbitrary: cur s rule: less_induct)
  case less
  show ?case
  proof (cases s)
    case Nil
    with less.prems show ?thesis by (cases "cur = []") simp_all
  next
    case (Cons c cs)
    consider (crlf) "c = 13 \<and> cs \<noteq> [] \<and> hd cs = 10"
      | (brk) "\<not> (c = 13 \<and> cs \<noteq> [] \<and> hd cs = 10)" "is_linebreak c"
      | (other) "\<not> (c = 13 \<and> cs \<noteq> [] \<and> hd cs = 10)" "\<not> is_linebreak c"
      by blast
    then show ?thesis
    proof cases
      case crlf
      with less.prems Cons less.hyps [of "tl cs" "[]"] show ?thesis by (cases cs) auto
    next
      case brk
      then have eq: "splitlines_acc cur s = rev cur # splitlines_acc [] cs" by (auto simp: Cons)
      have ih: "x \<in> set (splitlines_acc [] cs) \<Longrightarrow> \<forall>c \<in> set x. \<not> is_linebreak c"
        using less.hyps [of cs "[]"] by (simp add: Cons)
      from less.prems(2) have "x = rev cur \<or> x \<in> set (splitlines_acc [] cs)" by (simp add: eq)
      then show ?thesis using ih less.prems(1) by auto
    next
      case other
      then have eq: "splitlines_acc cur s = splitlines_acc (c # cur) cs" by (auto simp: Cons)
      show ?thesis
        using less.hyps [of cs "c # cur"] less.prems other(2) unfolding eq by (simp add: Cons)
    qed
  qed
qed

lemma splitlines_no_break: "x \<in> set (splitlines s) \<Longrightarrow> c \<in> set x \<Longrightarrow> \<not> is_linebreak c"
  unfolding splitlines_def using splitlines_acc_no_break [of "[]" x s] by auto

text \<open>Text-mode reading turns every \<open>\r\n\<close> and lone \<open>\r\<close> into \<open>\n\<close> (\<open>newline=None\<close>).\<close>

fun universal_newlines :: "pystr \<Rightarrow> pystr" where
  "universal_newlines [] = []"
| "universal_newlines (c # cs) =
    (if c = 13 then (if cs \<noteq> [] \<and> hd cs = 10 then universal_newlines cs
                     else 10 # universal_newlines cs)
     else c # universal_newlines cs)"

lemma universal_newlines_id: "13 \<notin> set s \<Longrightarrow> universal_newlines s = s"
  by (induction s) auto

lemma universal_newlines_no_cr: "13 \<notin> set (universal_newlines s)"
  by (induction s rule: universal_newlines.induct) auto

section \<open>Prefixes, suffixes, replacement\<close>

definition starts_with :: "pystr \<Rightarrow> pystr \<Rightarrow> bool" where
  "starts_with s p \<longleftrightarrow> take (length p) s = p"

definition ends_with :: "pystr \<Rightarrow> pystr \<Rightarrow> bool" where
  "ends_with s q \<longleftrightarrow> length q \<le> length s \<and> drop (length s - length q) s = q"

definition removeprefix :: "pystr \<Rightarrow> pystr \<Rightarrow> pystr" where
  "removeprefix s p = (if starts_with s p then drop (length p) s else s)"

definition removesuffix :: "pystr \<Rightarrow> pystr \<Rightarrow> pystr" where
  "removesuffix s q =
    (if q \<noteq> [] \<and> ends_with s q then take (length s - length q) s else s)"

lemma starts_with_iff: "starts_with s p \<longleftrightarrow> (\<exists>t. s = p @ t)"
  unfolding starts_with_def by (metis append_eq_conv_conj append_take_drop_id)

lemma ends_with_iff: "ends_with s q \<longleftrightarrow> (\<exists>t. s = t @ q)"
proof
  assume "ends_with s q"
  then show "\<exists>t. s = t @ q"
    unfolding ends_with_def by (metis append_take_drop_id)
next
  assume "\<exists>t. s = t @ q"
  then show "ends_with s q" by (auto simp: ends_with_def)
qed

lemma removesuffix_append [simp]: "removesuffix (s @ q) q = s"
  by (cases "q = []") (auto simp: removesuffix_def ends_with_iff)

lemma removeprefix_append [simp]: "removeprefix (p @ s) p = s"
  by (simp add: removeprefix_def starts_with_def)

fun contains_sub :: "pystr \<Rightarrow> pystr \<Rightarrow> bool" where
  "contains_sub [] p = (p = [])"
| "contains_sub (c # cs) p = (starts_with (c # cs) p \<or> contains_sub cs p)"

lemma contains_sub_iff: "contains_sub s p \<longleftrightarrow> (\<exists>a b. s = a @ p @ b)"
proof (induction s)
  case Nil
  then show ?case by simp
next
  case (Cons c cs)
  show ?case
  proof
    assume "contains_sub (c # cs) p"
    then consider t where "c # cs = [] @ p @ t" | a b where "c # cs = (c # a) @ p @ b"
      using Cons.IH by (auto simp: starts_with_iff)
    then show "\<exists>a b. c # cs = a @ p @ b" by cases blast+
  next
    assume "\<exists>a b. c # cs = a @ p @ b"
    then obtain a b where ab: "c # cs = a @ p @ b" by blast
    show "contains_sub (c # cs) p"
    proof (cases a)
      case Nil
      then have "starts_with (c # cs) p" unfolding starts_with_iff using ab by auto
      then show ?thesis by simp
    next
      case (Cons x xs)
      with ab Cons.IH show ?thesis by auto
    qed
  qed
qed

text \<open>\<open>s.replace(old, new)\<close> for a non-empty \<open>old\<close>: left to right, without overlaps.\<close>

function replace_all :: "pystr \<Rightarrow> pystr \<Rightarrow> pystr \<Rightarrow> pystr" where
  "replace_all [] old new = []"
| "replace_all (c # cs) old new =
    (if old \<noteq> [] \<and> starts_with (c # cs) old
     then new @ replace_all (drop (length old) (c # cs)) old new
     else c # replace_all cs old new)"
  by pat_completeness auto
termination
  by (relation "measure (\<lambda>(s, old, new). length s)") (auto simp: neq_Nil_conv)

lemma replace_all_absent: "\<not> contains_sub s old \<Longrightarrow> replace_all s old new = s"
  by (induction s) auto

section \<open>Numbers as text\<close>

fun nat_digits :: "nat \<Rightarrow> pystr" where
  "nat_digits n = (if n < 10 then [48 + int n] else nat_digits (n div 10) @ [48 + int (n mod 10)])"

declare nat_digits.simps [simp del]

definition str_int :: "int \<Rightarrow> pystr" where
  "str_int i = (if i < 0 then 45 # nat_digits (nat (- i)) else nat_digits (nat i))"

lemma nat_digits_range: "c \<in> set (nat_digits n) \<Longrightarrow> 48 \<le> c \<and> c \<le> 57"
proof (induction n rule: nat_digits.induct)
  case (1 n)
  then show ?case by (subst (asm) (2) nat_digits.simps) (auto split: if_splits)
qed

section \<open>\<open>repr\<close> and rendered messages\<close>

definition hex_char_of :: "int \<Rightarrow> uchar" where
  "hex_char_of d = (if d < 10 then 48 + d else 87 + d)"

fun hex_digits :: "nat \<Rightarrow> int \<Rightarrow> pystr" where
  "hex_digits 0 n = []"
| "hex_digits (Suc k) n = hex_digits k (n div 16) @ [hex_char_of (n mod 16)]"

definition printable :: "ucd \<Rightarrow> uchar \<Rightarrow> bool" where
  "printable u c \<longleftrightarrow> c = 32
    \<or> category u c \<notin> {''Cc'', ''Cf'', ''Cs'', ''Co'', ''Cn'', ''Zl'', ''Zp'', ''Zs''}"

definition repr_char :: "ucd \<Rightarrow> uchar \<Rightarrow> uchar \<Rightarrow> pystr" where
  "repr_char u q c =
    (if c = q \<or> c = 92 then [92, c]
     else if c = 9 then [92, 116] else if c = 10 then [92, 110] else if c = 13 then [92, 114]
     else if c < 32 \<or> c = 127 then [92, 120] @ hex_digits 2 c
     else if c < 127 \<or> printable u c then [c]
     else if c < 256 then [92, 120] @ hex_digits 2 c
     else if c < 65536 then [92, 117] @ hex_digits 4 c
     else [92, 85] @ hex_digits 8 c)"

definition py_repr :: "ucd \<Rightarrow> pystr \<Rightarrow> pystr" where
  "py_repr u s =
    (let q = (if 39 \<in> set s \<and> 34 \<notin> set s then 34 else 39)
     in q # concat (map (repr_char u q) s) @ [q])"

fun part_text :: "ucd \<Rightarrow> part \<Rightarrow> pystr" where
  "part_text u (Lit s) = lit s"
| "part_text u (Txt t) = t"
| "part_text u (Repr r) = py_repr u r"
| "part_text u (Num i) = str_int i"

definition render :: "ucd \<Rightarrow> message \<Rightarrow> pystr" where
  "render u m = concat (map (part_text u) m)"

end
