(* ===== verification/Json.thy ===== *)
theory Json
  imports Text
begin

text \<open>
  JSON values as the standard \<open>json\<close> module and an HTTP response hand them to the program, with the
  Python operations the program applies to a value whose shape it has not checked: subscripting,
  \<open>.get\<close>, iteration, truthiness and \<open>int()\<close>, each raising what Python raises. Also
  \<open>json.dumps\<close>. An object is the association list of a \<open>dict\<close> (no key twice).

  A float is kept as its \<open>repr\<close> and its truncation (\<open>None\<close> for NaN and the infinities): the
  program never computes with one.
\<close>

datatype json = JNull | JBool bool | JInt int | JFloat pystr "int option" | JStr pystr
  | JArr "json list" | JObj "(pystr \<times> json) list"

fun truthy :: "json \<Rightarrow> bool" where
  "truthy JNull = False"
| "truthy (JBool b) = b"
| "truthy (JInt i) = (i \<noteq> 0)"
| "truthy (JFloat t _) = (t \<notin> {lit ''0.0'', lit ''-0.0''})"
| "truthy (JStr s) = (s \<noteq> [])"
| "truthy (JArr xs) = (xs \<noteq> [])"
| "truthy (JObj d) = (d \<noteq> [])"

text \<open>\<open>j or d\<close>.\<close>

definition or_else :: "json \<Rightarrow> json \<Rightarrow> json" where
  "or_else j d = (if truthy j then j else d)"

text \<open>\<open>j[k]\<close> with a string and \<open>j[i]\<close> with an index.\<close>

fun get_item :: "pystr \<Rightarrow> json \<Rightarrow> json res" where
  "get_item k (JObj d) =
    (case map_of d k of Some v \<Rightarrow> Inr v | None \<Rightarrow> Inl (exc KeyError [Repr k]))"
| "get_item k _ = Inl (exc TypeError [Lit ''indices must be integers'', Repr k])"

fun get_index :: "nat \<Rightarrow> json \<Rightarrow> json res" where
  "get_index i (JArr xs) =
    (if i < length xs then Inr (xs ! i) else Inl (exc IndexError [Lit ''list index out of range'']))"
| "get_index i (JStr s) =
    (if i < length s then Inr (JStr [s ! i]) else Inl (exc IndexError [Lit ''string index out of range'']))"
| "get_index i (JObj d) = Inl (exc KeyError [Num (int i)])"
| "get_index i _ = Inl (exc TypeError [Lit ''object is not subscriptable''])"

text \<open>\<open>j.get(k, d)\<close>: only a \<open>dict\<close> has that method.\<close>

fun get_key :: "pystr \<Rightarrow> json \<Rightarrow> json \<Rightarrow> json res" where
  "get_key k d (JObj o') = Inr (case map_of o' k of Some v \<Rightarrow> v | None \<Rightarrow> d)"
| "get_key k d _ = Inl (exc AttributeError [Lit ''object has no attribute get''])"

text \<open>\<open>for x in j\<close>.\<close>

fun elements :: "json \<Rightarrow> json list res" where
  "elements (JArr xs) = Inr xs"
| "elements (JStr s) = Inr (map (\<lambda>c. JStr [c]) s)"
| "elements (JObj d) = Inr (map (JStr \<circ> fst) d)"
| "elements _ = Inl (exc TypeError [Lit ''object is not iterable''])"

text \<open>\<open>int(s)\<close> on ASCII text: blanks around, a sign, digits with single underscores between them.\<close>

fun int_digits :: "int \<Rightarrow> bool \<Rightarrow> pystr \<Rightarrow> int option" where
  "int_digits acc prev [] = (if prev then Some acc else None)"
| "int_digits acc prev (c # cs) =
    (if 48 \<le> c \<and> c \<le> 57 then int_digits (acc * 10 + (c - 48)) True cs
     else if c = 95 \<and> prev \<and> cs \<noteq> [] then int_digits acc False cs else None)"

definition int_of_text :: "pystr \<Rightarrow> int option" where
  "int_of_text s =
    (case strip s of
       [] \<Rightarrow> None
     | c # cs \<Rightarrow> if c = 45 then map_option uminus (int_digits 0 False cs)
                else if c = 43 then int_digits 0 False cs else int_digits 0 False (c # cs))"

fun to_int :: "json \<Rightarrow> int res" where
  "to_int (JBool b) = Inr (if b then 1 else 0)"
| "to_int (JInt i) = Inr i"
| "to_int (JFloat t n) =
    (case n of Some i \<Rightarrow> Inr i | None \<Rightarrow> Inl (exc OtherException [Lit ''cannot convert to integer: '', Txt t]))"
| "to_int (JStr s) =
    (case int_of_text s of Some i \<Rightarrow> Inr i | None \<Rightarrow> Inl (exc ValueError [Lit ''invalid literal: '', Repr s]))"
| "to_int _ = Inl (exc TypeError [Lit ''int() argument must be a string or a number''])"

section \<open>\<open>json.dumps\<close>\<close>

definition esc_u :: "int \<Rightarrow> pystr" where
  "esc_u c = [92, 117] @ hex_digits 4 c"

definition json_char :: "uchar \<Rightarrow> pystr" where
  "json_char c =
    (if c = 34 \<or> c = 92 then [92, c] else if c = 10 then [92, 110] else if c = 13 then [92, 114]
     else if c = 9 then [92, 116] else if c = 8 then [92, 98] else if c = 12 then [92, 102]
     else if 32 \<le> c \<and> c \<le> 126 then [c]
     else if c < 65536 then esc_u c
     else esc_u (55296 + (c - 65536) div 1024) @ esc_u (56320 + (c - 65536) mod 1024))"

definition json_string :: "pystr \<Rightarrow> pystr" where
  "json_string s = [34] @ concat (map json_char s) @ [34]"

fun json_dumps :: "json \<Rightarrow> pystr" where
  "json_dumps JNull = lit ''null''"
| "json_dumps (JBool b) = (if b then lit ''true'' else lit ''false'')"
| "json_dumps (JInt i) = str_int i"
| "json_dumps (JFloat t n) =
    (if n \<noteq> None then t else if t = lit ''nan'' then lit ''NaN''
     else if t = lit ''inf'' then lit ''Infinity'' else lit ''-Infinity'')"
| "json_dumps (JStr s) = json_string s"
| "json_dumps (JArr xs) = [91] @ join (lit '', '') (map json_dumps xs) @ [93]"
| "json_dumps (JObj d) =
    [123] @ join (lit '', '') (map (\<lambda>(k, v). json_string k @ lit '': '' @ json_dumps v) d) @ [125]"

section \<open>\<open>str\<close> and \<open>repr\<close> of a value\<close>

fun json_repr :: "ucd \<Rightarrow> json \<Rightarrow> pystr" where
  "json_repr u JNull = lit ''None''"
| "json_repr u (JBool b) = (if b then lit ''True'' else lit ''False'')"
| "json_repr u (JInt i) = str_int i"
| "json_repr u (JFloat t _) = t"
| "json_repr u (JStr s) = py_repr u s"
| "json_repr u (JArr xs) = [91] @ join (lit '', '') (map (json_repr u) xs) @ [93]"
| "json_repr u (JObj d) =
    [123] @ join (lit '', '') (map (\<lambda>(k, v). py_repr u k @ lit '': '' @ json_repr u v) d) @ [125]"

definition py_str :: "ucd \<Rightarrow> json \<Rightarrow> pystr" where
  "py_str u j = (case j of JStr s \<Rightarrow> s | _ \<Rightarrow> json_repr u j)"

section \<open>What the operations raise\<close>

lemma get_item_error: "get_item k j = Inl e \<Longrightarrow> ecls e \<in> {KeyError, TypeError}"
  by (cases j) (auto split: option.splits)

lemma get_index_error: "get_index i j = Inl e \<Longrightarrow> ecls e \<in> {KeyError, IndexError, TypeError}"
  by (cases j) (auto split: if_splits)

lemma get_key_error: "get_key k d j = Inl e \<Longrightarrow> ecls e = AttributeError"
  by (cases j) auto

lemma elements_error: "elements j = Inl e \<Longrightarrow> ecls e = TypeError"
  by (cases j) auto

lemma to_int_error: "to_int j = Inl e \<Longrightarrow> ecls e \<in> {TypeError, ValueError, OtherException}"
  by (cases j) (auto split: option.splits)

end
