(* ===== verification/Errors.thy ===== *)
theory Errors
  imports Prelude
begin

text \<open>
  The error taxonomy of \<^verbatim>\<open>src/groundtruth/errors.py\<close>: the class hierarchy as a parent function,
  \<open>isinstance\<close> along it, the two HTTP error constructors and the classifier \<open>is_transient\<close> that
  decides every retry of the program. The subclasses declared in other modules are placed under
  the parents they name there.
\<close>

fun parent :: "exc_class \<Rightarrow> exc_class option" where
  "parent TransientError = Some GroundtruthError"
| "parent TerminalError = Some GroundtruthError"
| "parent ModelServerConnectionError = Some TransientError"
| "parent ReadTimeoutError = Some TransientError"
| "parent TransientHTTPError = Some TransientError"
| "parent TerminalHTTPError = Some TerminalError"
| "parent WriteValidationError = Some TerminalError"
| "parent GitConflictError = Some TerminalError"
| "parent DirtyWorkingTreeError = Some TerminalError"
| "parent MalformedLLMOutputError = Some TerminalError"
| "parent UnsafePathError = Some WriteValidationError"
| "parent ValidationRejectionError = Some WriteValidationError"
| "parent FrontmatterError = Some TerminalError"
| "parent MissingFrontmatterError = Some FrontmatterError"
| "parent MalformedFrontmatterError = Some FrontmatterError"
| "parent SchemaError = Some TerminalError"
| "parent SchemaNotFoundError = Some SchemaError"
| "parent SchemaWriteRefusedError = Some TerminalError"
| "parent GitError = Some GroundtruthError"
| "parent GitNetworkError = Some TransientError"
| "parent GitPushError = Some GitError"
| "parent JobStoreError = Some GroundtruthError"
| "parent RegistryError = Some GroundtruthError"
| "parent NoteRepositoryError = Some GroundtruthError"
| "parent NoteNotFoundError = Some NoteRepositoryError"
| "parent ScaffoldError = Some GroundtruthError"
| "parent AuthConfigError = Some GroundtruthError"
| "parent ConfigError = Some ValueError"
| "parent PydanticValidationError = Some ValueError"
| "parent JSONDecodeError = Some ValueError"
| "parent UnicodeError = Some ValueError"
| "parent ConnectionRefusedError = Some OSError"
| "parent TimeoutError = Some OSError"
| "parent _ = None"

text \<open>The classes an instance belongs to; no chain of parents is longer than four.\<close>

fun ancestors :: "nat \<Rightarrow> exc_class \<Rightarrow> exc_class list" where
  "ancestors 0 c = []"
| "ancestors (Suc n) c = c # (case parent c of None \<Rightarrow> [] | Some d \<Rightarrow> ancestors n d)"

definition isinstance :: "exn \<Rightarrow> exc_class \<Rightarrow> bool" where
  "isinstance e c \<longleftrightarrow> c \<in> set (ancestors 4 (ecls e))"

lemma ancestors_enough: "ancestors (n + 4) c = ancestors 4 c"
  by (cases c) (simp_all add: numeral_eq_Suc)

lemma isinstance_cases [simp]:
  "isinstance e GroundtruthError \<longleftrightarrow>
    ecls e \<notin> {StageFailureError, ApiError, ConfigError, ValueError, PydanticValidationError,
      JSONDecodeError, UnicodeError, KeyError, IndexError, AttributeError, TypeError, RuntimeError, AssertionError, RegexError,
      YAMLError, OSError, ConnectionRefusedError, TimeoutError, OtherException}"
  "isinstance e TransientError \<longleftrightarrow>
    ecls e \<in> {TransientError, ModelServerConnectionError, ReadTimeoutError, TransientHTTPError,
      GitNetworkError}"
  "isinstance e ConnectionRefusedError \<longleftrightarrow> ecls e = ConnectionRefusedError"
  "isinstance e TimeoutError \<longleftrightarrow> ecls e = TimeoutError"
  "isinstance e UnsafePathError \<longleftrightarrow> ecls e = UnsafePathError"
  "isinstance e FrontmatterError \<longleftrightarrow>
    ecls e \<in> {FrontmatterError, MissingFrontmatterError, MalformedFrontmatterError}"
  "isinstance e GitError \<longleftrightarrow> ecls e \<in> {GitError, GitPushError}"
  "isinstance e SchemaError \<longleftrightarrow> ecls e \<in> {SchemaError, SchemaNotFoundError}"
  "isinstance e ValueError \<longleftrightarrow>
    ecls e \<in> {ValueError, ConfigError, PydanticValidationError, JSONDecodeError, UnicodeError}"
  by (cases "ecls e"; simp add: isinstance_def numeral_eq_Suc)+

text \<open>\<open>TRANSIENT_HTTP_STATUS\<close> and the two HTTP errors. Constructing a \<open>TransientHTTPError\<close> with
  another status raises \<open>ValueError\<close>.\<close>

definition transient_http_status :: "int list" where
  "transient_http_status = [429, 502, 503]"

definition http_message :: "int \<Rightarrow> message \<Rightarrow> message" where
  "http_message status msg = (if msg = [] then [Lit ''HTTP '', Num status] else msg)"

definition transient_http_error :: "int \<Rightarrow> message \<Rightarrow> string option \<Rightarrow> exn res" where
  "transient_http_error status msg stage =
    (if status \<notin> set transient_http_status
     then Inl (exc ValueError [Num status,
       Lit '' is not a transient status; use TerminalHTTPError (transient: [429, 502, 503])''])
     else Inr \<lparr>ecls = TransientHTTPError, emsg = http_message status msg, estage = stage,
       eattr = StatusCode status\<rparr>)"

definition terminal_http_error :: "int \<Rightarrow> message \<Rightarrow> string option \<Rightarrow> exn" where
  "terminal_http_error status msg stage =
    \<lparr>ecls = TerminalHTTPError, emsg = http_message status msg, estage = stage,
     eattr = StatusCode status\<rparr>"

definition is_transient :: "exn \<Rightarrow> bool" where
  "is_transient e =
    (if isinstance e GroundtruthError then isinstance e TransientError
     else isinstance e ConnectionRefusedError \<or> isinstance e TimeoutError)"

definition transient_classes :: "exc_class list" where
  "transient_classes = [TransientError, ModelServerConnectionError, ReadTimeoutError,
     TransientHTTPError, GitNetworkError, ConnectionRefusedError, TimeoutError]"

lemma is_transient_classes: "is_transient e \<longleftrightarrow> ecls e \<in> set transient_classes"
  by (cases "ecls e") (simp_all add: is_transient_def transient_classes_def)

lemma is_transient_simps [simp]:
  "ecls e = JobStoreError \<Longrightarrow> \<not> is_transient e"
  "ecls e = ValueError \<Longrightarrow> \<not> is_transient e"
  "ecls e = StageFailureError \<Longrightarrow> \<not> is_transient e"
  "ecls e = GitError \<Longrightarrow> \<not> is_transient e"
  by (simp_all add: is_transient_classes transient_classes_def)

end
