(* ===== verification/Regex.thy ===== *)
theory Regex
  imports Text
begin

text \<open>
  The part of Python's \<open>re\<close> that the program uses: a backtracking matcher over a zipper of the text
  (reversed text before the position, text after it). \<open>mt\<close> lists the ends of all matches at a
  position in the order in which \<open>re\<close> tries them, so the head of the list is the match \<open>re\<close>
  reports. \<open>rmatch\<close> is the declarative meaning of a pattern; \<open>mt_iff\<close> shows that \<open>mt\<close> finds exactly
  the matches it allows.

  \<open>w\<close> is the predicate of word characters (\<open>\w\<close>), which depends on the Unicode database.
\<close>

section \<open>Patterns\<close>

datatype citem = Rng int int | CWord | CNotWord | CSpace

datatype re =
    Eps
  | Cls bool "citem list"   \<comment> \<open>\<open>[...]\<close>, negated when the flag is set\<close>
  | Seq re re
  | Alt re re
  | Star bool re            \<comment> \<open>\<open>r*\<close>, or the lazy \<open>r*?\<close> when the flag is \<open>False\<close>\<close>
  | Grp nat re              \<comment> \<open>capturing group\<close>
  | Bos                     \<comment> \<open>\<open>\A\<close>, and \<open>^\<close> without MULTILINE\<close>
  | Bol                     \<comment> \<open>\<open>^\<close> with MULTILINE\<close>
  | Eos                     \<comment> \<open>\<open>\Z\<close>\<close>
  | Eol                     \<comment> \<open>\<open>$\<close> without MULTILINE: at the end, or before a final newline\<close>
  | Wb                      \<comment> \<open>\<open>\b\<close>\<close>

fun citem_ok :: "(uchar \<Rightarrow> bool) \<Rightarrow> uchar \<Rightarrow> citem \<Rightarrow> bool" where
  "citem_ok w c (Rng a b) = (a \<le> c \<and> c \<le> b)"
| "citem_ok w c CWord = w c"
| "citem_ok w c CNotWord = (\<not> w c)"
| "citem_ok w c CSpace = is_space c"

definition cls_ok :: "(uchar \<Rightarrow> bool) \<Rightarrow> bool \<Rightarrow> citem list \<Rightarrow> uchar \<Rightarrow> bool" where
  "cls_ok w neg ks c \<longleftrightarrow> list_ex (citem_ok w c) ks \<noteq> neg"

definition word_char :: "ucd \<Rightarrow> uchar \<Rightarrow> bool" where
  "word_char u c \<longleftrightarrow> alnum u c \<or> c = 95"

text \<open>Derived forms.\<close>

definition Chr :: "uchar \<Rightarrow> re" where
  "Chr c = Cls False [Rng c c]"

definition Dot :: re where            \<comment> \<open>\<open>.\<close>\<close>
  "Dot = Cls True [Rng 10 10]"

definition DotAll :: re where         \<comment> \<open>\<open>.\<close> with DOTALL\<close>
  "DotAll = Cls True []"

fun Str :: "pystr \<Rightarrow> re" where
  "Str [] = Eps"
| "Str (c # s) = Seq (Chr c) (Str s)"

definition Plus :: "re \<Rightarrow> re" where
  "Plus r = Seq r (Star True r)"

definition LazyPlus :: "re \<Rightarrow> re" where
  "LazyPlus r = Seq r (Star False r)"

definition Opt :: "re \<Rightarrow> re" where
  "Opt r = Alt r Eps"

fun Rep :: "nat \<Rightarrow> re \<Rightarrow> re" where
  "Rep 0 r = Eps"
| "Rep (Suc n) r = Seq r (Rep n r)"

definition RepMin :: "nat \<Rightarrow> re \<Rightarrow> re" where      \<comment> \<open>\<open>r{n,}\<close>\<close>
  "RepMin n r = Seq (Rep n r) (Star True r)"

fun UpTo :: "nat \<Rightarrow> re \<Rightarrow> re" where              \<comment> \<open>\<open>r{0,n}\<close>\<close>
  "UpTo 0 r = Eps"
| "UpTo (Suc n) r = Alt (Seq r (UpTo n r)) Eps"

fun SeqL :: "re list \<Rightarrow> re" where
  "SeqL [] = Eps"
| "SeqL [r] = r"
| "SeqL (r # s # rs) = Seq r (SeqL (s # rs))"

fun AltL :: "re list \<Rightarrow> re" where
  "AltL [] = Cls False []"
| "AltL [r] = r"
| "AltL (r # s # rs) = Alt r (AltL (s # rs))"

text \<open>One letter with IGNORECASE: both cases, and the non-ASCII characters that fold to it.\<close>

definition Ci :: "uchar \<Rightarrow> re" where
  "Ci c = Cls False ([Rng c c, Rng (c - 32) (c - 32)] @
     (if c = 107 then [Rng 8490 8490] else if c = 115 then [Rng 383 383]
      else if c = 105 then [Rng 304 304, Rng 305 305] else []))"

text \<open>A word with IGNORECASE; characters other than lower-case ASCII letters stand for themselves.\<close>

fun StrCi :: "pystr \<Rightarrow> re" where
  "StrCi [] = Eps"
| "StrCi (c # s) = Seq (if 97 \<le> c \<and> c \<le> 122 then Ci c else Chr c) (StrCi s)"

section \<open>The matcher\<close>

type_synonym zip = "pystr \<times> pystr"
type_synonym groups = "(nat \<times> pystr) list"
type_synonym mstate = "zip \<times> groups"

definition rest_len :: "mstate \<Rightarrow> nat" where
  "rest_len st = length (snd (fst st))"

text \<open>The repetition of \<open>*\<close>: an iteration that consumes nothing ends the loop; \<open>n\<close> bounds the number
  of iterations and is started at the length of the rest, which every iteration shortens.\<close>

fun iterate :: "(mstate \<Rightarrow> mstate list) \<Rightarrow> bool \<Rightarrow> nat \<Rightarrow> mstate \<Rightarrow> mstate list" where
  "iterate m greedy 0 st = [st]"
| "iterate m greedy (Suc n) st =
    (let more = concat (map (iterate m greedy n) (filter (\<lambda>t. rest_len t < rest_len st) (m st)))
     in if greedy then more @ [st] else st # more)"

definition add_group :: "nat \<Rightarrow> mstate \<Rightarrow> mstate \<Rightarrow> mstate" where
  "add_group n st t = (fst t, (n, take (rest_len st - rest_len t) (snd (fst st))) # snd t)"

lemma fst_add_group [simp]: "fst (add_group n st t) = fst t"
  by (simp add: add_group_def)

fun mt :: "(uchar \<Rightarrow> bool) \<Rightarrow> re \<Rightarrow> mstate \<Rightarrow> mstate list" where
  "mt w Eps st = [st]"
| "mt w (Cls neg ks) st =
    (case st of ((p, s), g) \<Rightarrow>
      (case s of [] \<Rightarrow> [] | c # t \<Rightarrow> if cls_ok w neg ks c then [((c # p, t), g)] else []))"
| "mt w (Seq a b) st = concat (map (mt w b) (mt w a st))"
| "mt w (Alt a b) st = mt w a st @ mt w b st"
| "mt w (Star greedy a) st = iterate (mt w a) greedy (rest_len st) st"
| "mt w (Grp n a) st = map (add_group n st) (mt w a st)"
| "mt w Bos st = (case st of ((p, s), g) \<Rightarrow> if p = [] then [st] else [])"
| "mt w Bol st = (case st of ((p, s), g) \<Rightarrow> if p = [] \<or> hd p = 10 then [st] else [])"
| "mt w Eos st = (case st of ((p, s), g) \<Rightarrow> if s = [] then [st] else [])"
| "mt w Eol st = (case st of ((p, s), g) \<Rightarrow> if s = [] \<or> s = [10] then [st] else [])"
| "mt w Wb st = (case st of ((p, s), g) \<Rightarrow>
    if (p \<noteq> [] \<and> w (hd p)) \<noteq> (s \<noteq> [] \<and> w (hd s)) then [st] else [])"

text \<open>A match: its text, its groups, and the zipper after it.\<close>

record matched =
  m_text :: pystr
  m_groups :: groups
  m_after :: zip

definition group :: "nat \<Rightarrow> matched \<Rightarrow> pystr option" where
  "group n m = map_of (m_groups m) n"

text \<open>\<open>match.group(n)\<close> where the group is known to take part, and \<open>match.group(n) or ""\<close>.\<close>

definition group_str :: "nat \<Rightarrow> matched \<Rightarrow> pystr" where
  "group_str n m = (case group n m of None \<Rightarrow> [] | Some s \<Rightarrow> s)"

definition match_at :: "(uchar \<Rightarrow> bool) \<Rightarrow> re \<Rightarrow> zip \<Rightarrow> matched option" where
  "match_at w r z =
    (case mt w r (z, []) of
       [] \<Rightarrow> None
     | (z', g) # _ \<Rightarrow>
         Some \<lparr>m_text = take (length (snd z) - length (snd z')) (snd z), m_groups = g, m_after = z'\<rparr>)"

definition re_match :: "(uchar \<Rightarrow> bool) \<Rightarrow> re \<Rightarrow> pystr \<Rightarrow> matched option" where
  "re_match w r s = match_at w r ([], s)"

fun search_from :: "(uchar \<Rightarrow> bool) \<Rightarrow> re \<Rightarrow> pystr \<Rightarrow> pystr \<Rightarrow> matched option" where
  "search_from w r p [] = match_at w r (p, [])"
| "search_from w r p (c # t) =
    (case match_at w r (p, c # t) of
       Some m \<Rightarrow> Some m
     | None \<Rightarrow> search_from w r (c # p) t)"

definition re_search :: "(uchar \<Rightarrow> bool) \<Rightarrow> re \<Rightarrow> pystr \<Rightarrow> matched option" where
  "re_search w r s = search_from w r [] s"

text \<open>The text as a sequence of single unmatched characters and matches, left to right without
  overlap: the scan behind \<open>sub\<close>, \<open>findall\<close>, \<open>finditer\<close> and \<open>split\<close>. Every pattern the program scans
  with consumes at least one character; an empty match is skipped here.\<close>

function scan :: "(uchar \<Rightarrow> bool) \<Rightarrow> re \<Rightarrow> zip \<Rightarrow> (uchar + matched) list" where
  "scan w r (p, s) =
    (case match_at w r (p, s) of
       Some m \<Rightarrow>
         (if length (snd (m_after m)) < length s then Inr m # scan w r (m_after m)
          else (case s of [] \<Rightarrow> [] | c # t \<Rightarrow> Inl c # scan w r (c # p, t)))
     | None \<Rightarrow> (case s of [] \<Rightarrow> [] | c # t \<Rightarrow> Inl c # scan w r (c # p, t)))"
  by pat_completeness auto
termination
  by (relation "measure (\<lambda>(w, r, z). length (snd z))") auto

declare scan.simps [simp del]

definition re_sub :: "(uchar \<Rightarrow> bool) \<Rightarrow> re \<Rightarrow> (matched \<Rightarrow> pystr) \<Rightarrow> pystr \<Rightarrow> pystr" where
  "re_sub w r f s = concat (map (case_sum (\<lambda>c. [c]) f) (scan w r ([], s)))"

definition re_finditer :: "(uchar \<Rightarrow> bool) \<Rightarrow> re \<Rightarrow> pystr \<Rightarrow> matched list" where
  "re_finditer w r s = concat (map (case_sum (\<lambda>c. []) (\<lambda>m. [m])) (scan w r ([], s)))"

section \<open>The declarative meaning\<close>

inductive rmatch :: "(uchar \<Rightarrow> bool) \<Rightarrow> re \<Rightarrow> zip \<Rightarrow> zip \<Rightarrow> bool" for w where
  Eps: "rmatch w Eps z z"
| Cls: "cls_ok w neg ks c \<Longrightarrow> rmatch w (Cls neg ks) (p, c # s) (c # p, s)"
| Seq: "rmatch w a z z' \<Longrightarrow> rmatch w b z' z'' \<Longrightarrow> rmatch w (Seq a b) z z''"
| AltL: "rmatch w a z z' \<Longrightarrow> rmatch w (Alt a b) z z'"
| AltR: "rmatch w b z z' \<Longrightarrow> rmatch w (Alt a b) z z'"
| StarNil: "rmatch w (Star g a) z z"
| StarStep: "rmatch w a z z' \<Longrightarrow> rmatch w (Star g a) z' z'' \<Longrightarrow> rmatch w (Star g a) z z''"
| Grp: "rmatch w a z z' \<Longrightarrow> rmatch w (Grp n a) z z'"
| Bos: "rmatch w Bos ([], s) ([], s)"
| Bol: "p = [] \<or> hd p = 10 \<Longrightarrow> rmatch w Bol (p, s) (p, s)"
| Eos: "rmatch w Eos (p, []) (p, [])"
| Eol: "s = [] \<or> s = [10] \<Longrightarrow> rmatch w Eol (p, s) (p, s)"
| Wb: "(p \<noteq> [] \<and> w (hd p)) \<noteq> (s \<noteq> [] \<and> w (hd s)) \<Longrightarrow> rmatch w Wb (p, s) (p, s)"

inductive_simps rmatch_Eps [simp]: "rmatch w Eps z z'"
inductive_simps rmatch_Cls: "rmatch w (Cls neg ks) z z'"
inductive_simps rmatch_Seq: "rmatch w (Seq a b) z z'"
inductive_simps rmatch_Alt: "rmatch w (Alt a b) z z'"
inductive_simps rmatch_Grp [simp]: "rmatch w (Grp n a) z z'"
inductive_simps rmatch_Bos: "rmatch w Bos z z'"
inductive_simps rmatch_Bol: "rmatch w Bol z z'"
inductive_simps rmatch_Eos: "rmatch w Eos z z'"
inductive_simps rmatch_Eol: "rmatch w Eol z z'"
inductive_simps rmatch_Wb: "rmatch w Wb z z'"
inductive_cases rmatch_StarE: "rmatch w (Star g a) z z'"

lemmas rmatch_simps = rmatch_Cls rmatch_Seq rmatch_Alt rmatch_Bos rmatch_Bol rmatch_Eos rmatch_Eol
  rmatch_Wb

text \<open>A match consumes a piece of the text and moves it to the left part of the zipper.\<close>

lemma rmatch_shift: "rmatch w r z z' \<Longrightarrow> \<exists>x. snd z = x @ snd z' \<and> fst z' = rev x @ fst z"
proof (induction rule: rmatch.induct)
  case (Seq a z z' b z'')
  then show ?case by (metis append.assoc rev_append)
next
  case (StarStep a z z' g z'')
  then show ?case by (metis append.assoc rev_append)
qed auto

lemma rmatch_length: "rmatch w r z z' \<Longrightarrow> length (snd z') \<le> length (snd z)"
  using rmatch_shift [of w r z z'] by auto

lemma rmatch_same: "rmatch w r z z' \<Longrightarrow> \<not> length (snd z') < length (snd z) \<Longrightarrow> z' = z"
  using rmatch_shift [of w r z z'] by (cases z; cases z') auto

section \<open>The matcher finds exactly the declared matches\<close>

lemma set_iterate_Suc:
  "set (iterate m g (Suc n) st) =
    insert st (\<Union>t \<in> {t \<in> set (m st). rest_len t < rest_len st}. set (iterate m g n t))"
  by (cases g) (simp_all add: Let_def del: split_paired_Ex split_paired_All)

lemma iterate_sound:
  assumes "\<And>st t. t \<in> set (m st) \<Longrightarrow> rmatch w a (fst st) (fst t)"
  shows "t \<in> set (iterate m g n st) \<Longrightarrow> rmatch w (Star g a) (fst st) (fst t)"
proof (induction n arbitrary: st)
  case 0
  then show ?case by (simp add: rmatch.StarNil)
next
  case (Suc n)
  from Suc.prems consider "t = st"
    | s' where "s' \<in> set (m st)" "t \<in> set (iterate m g n s')"
    unfolding set_iterate_Suc by blast
  then show ?case
  proof cases
    case 1
    then show ?thesis by (simp add: rmatch.StarNil)
  next
    case 2
    then show ?thesis using Suc.IH assms by (blast intro: rmatch.StarStep)
  qed
qed

lemma mt_sound: "t \<in> set (mt w r st) \<Longrightarrow> rmatch w r (fst st) (fst t)"
proof (induction r arbitrary: st t)
  case (Star g r)
  show ?case by (rule iterate_sound [OF Star.IH]) (use Star.prems in auto)
next
  case (Cls neg ks)
  then show ?case by (auto intro: rmatch.Cls split: prod.splits list.splits if_splits)
next
  case (Seq r1 r2)
  from Seq.prems obtain y where "y \<in> set (mt w r1 st)" "t \<in> set (mt w r2 y)" by auto
  with Seq.IH show ?case by (blast intro: rmatch.Seq)
next
  case (Alt r1 r2)
  from Alt.prems consider "t \<in> set (mt w r1 st)" | "t \<in> set (mt w r2 st)" by auto
  then show ?case
  proof cases
    case 1
    then show ?thesis by (intro rmatch.AltL Alt.IH(1))
  next
    case 2
    then show ?thesis by (intro rmatch.AltR Alt.IH(2))
  qed
next
  case (Grp n r)
  from Grp.prems have "t \<in> add_group n st ` set (mt w r st)" by (simp only: mt.simps set_map)
  then obtain y where "y \<in> set (mt w r st)" "fst t = fst y" by (elim imageE) (simp only: fst_add_group)
  with Grp.IH show ?case by (simp only: rmatch_Grp)
qed (auto intro: rmatch.intros split: prod.splits if_splits)

lemma star_progress:
  assumes "rmatch w r z z'" and "r = Star g a"
  shows "z' = z \<or> (\<exists>y. rmatch w a z y \<and> length (snd y) < length (snd z) \<and> rmatch w (Star g a) y z')"
  using assms
proof (induction rule: rmatch.induct)
  case (StarStep b z y h z'')
  then show ?case using rmatch_same by blast
qed auto

lemma iterate_complete:
  assumes "\<And>st z'. rmatch w a (fst st) z' \<Longrightarrow> \<exists>t \<in> set (m st). fst t = z'"
  shows "rmatch w (Star g a) (fst st) z' \<Longrightarrow> rest_len st \<le> n \<Longrightarrow>
    \<exists>t \<in> set (iterate m g n st). fst t = z'"
proof (induction n arbitrary: st)
  case 0
  then have "length (snd (fst st)) = 0" by (simp add: rest_len_def)
  with rmatch_length [OF 0(1)] rmatch_same [OF 0(1)] show ?case by simp
next
  case (Suc n)
  from star_progress [OF Suc.prems(1) refl] consider "z' = fst st"
    | y where "rmatch w a (fst st) y" "length (snd y) < rest_len st" "rmatch w (Star g a) y z'"
    by (auto simp: rest_len_def)
  then show ?case
  proof cases
    case 1
    then show ?thesis unfolding set_iterate_Suc by blast
  next
    case 2
    then obtain t where t: "t \<in> set (m st)" "fst t = y" using assms by blast
    with 2 Suc.prems(2) have "rest_len t \<le> n" "rest_len t < rest_len st"
      by (auto simp: rest_len_def)
    moreover obtain v where "v \<in> set (iterate m g n t)" "fst v = z'"
      using Suc.IH [of t] t 2 calculation(1) by auto
    ultimately show ?thesis using t unfolding set_iterate_Suc by blast
  qed
qed

lemma mt_complete: "rmatch w r (fst st) z' \<Longrightarrow> \<exists>t \<in> set (mt w r st). fst t = z'"
proof (induction r arbitrary: st z')
  case (Star g r)
  show ?case using iterate_complete [OF Star.IH Star.prems] by simp
next
  case (Seq r1 r2)
  then obtain y where y: "rmatch w r1 (fst st) y" "rmatch w r2 y z'" by (auto simp: rmatch_Seq)
  from Seq.IH(1) [OF y(1)] obtain t where t: "t \<in> set (mt w r1 st)" "fst t = y" by blast
  with Seq.IH(2) [of t z'] y(2) show ?case by auto
next
  case (Alt r1 r2)
  from Alt.prems consider "rmatch w r1 (fst st) z'" | "rmatch w r2 (fst st) z'"
    by (auto simp: rmatch_Alt)
  then show ?case by cases (use Alt.IH in \<open>simp only: mt.simps set_append; blast\<close>)+
next
  case (Grp n r)
  from Grp.prems have "rmatch w r (fst st) z'" by (simp only: rmatch_Grp)
  from Grp.IH [OF this] obtain t where "t \<in> set (mt w r st)" "fst t = z'" by blast
  then have "add_group n st t \<in> set (mt w (Grp n r) st)" "fst (add_group n st t) = z'"
    by (simp_all only: mt.simps set_map fst_add_group image_eqI)
  then show ?case by blast
next
  case (Cls neg ks)
  then show ?case by (cases st) (auto simp: rmatch_Cls)
qed (auto simp: rmatch_simps split: prod.splits)

lemma mt_iff: "(\<exists>g'. (z', g') \<in> set (mt w r (z, g))) \<longleftrightarrow> rmatch w r z z'"
  using mt_sound [of _ w r "(z, g)"] mt_complete [of w r "(z, g)" z'] by fastforce

lemma match_at_None: "match_at w r z = None \<longleftrightarrow> (\<nexists>z'. rmatch w r z z')"
proof -
  have "match_at w r z = None \<longleftrightarrow> mt w r (z, []) = []"
    by (auto simp: match_at_def split: list.splits)
  also have "\<dots> \<longleftrightarrow> (\<nexists>z' g'. (z', g') \<in> set (mt w r (z, [])))"
    by (cases "mt w r (z, [])") auto
  finally show ?thesis by (simp add: mt_iff)
qed

lemma match_at_Some:
  assumes "match_at w r z = Some m"
  shows "rmatch w r z (m_after m)" and "snd z = m_text m @ snd (m_after m)"
    and "fst (m_after m) = rev (m_text m) @ fst z"
proof -
  from assms obtain z' g ts where mt: "mt w r (z, []) = (z', g) # ts"
    and m: "m = \<lparr>m_text = take (length (snd z) - length (snd z')) (snd z), m_groups = g, m_after = z'\<rparr>"
    by (auto simp: match_at_def split: list.splits)
  have r: "rmatch w r z z'" using mt_sound [of "(z', g)" w r "(z, [])"] mt by simp
  then obtain x where "snd z = x @ snd z'" "fst z' = rev x @ fst z" using rmatch_shift by blast
  with r m show "rmatch w r z (m_after m)" and "snd z = m_text m @ snd (m_after m)"
    and "fst (m_after m) = rev (m_text m) @ fst z" by simp_all
qed

lemma re_match_None: "re_match w r s = None \<longleftrightarrow> (\<nexists>z'. rmatch w r ([], s) z')"
  by (simp add: re_match_def match_at_None)

lemma search_from_None:
  "search_from w r p s = None \<longleftrightarrow> (\<nexists>a b z'. s = a @ b \<and> rmatch w r (rev a @ p, b) z')"
proof (induction s arbitrary: p)
  case Nil
  then show ?case by (simp add: match_at_None)
next
  case (Cons c t)
  show ?case
  proof (cases "match_at w r (p, c # t)")
    case None
    then have none: "\<nexists>z'. rmatch w r (p, c # t) z'" by (simp only: match_at_None not_False_eq_True)
    have "(\<exists>a b z'. c # t = a @ b \<and> rmatch w r (rev a @ p, b) z') \<longleftrightarrow>
      (\<exists>a b z'. t = a @ b \<and> rmatch w r (rev a @ c # p, b) z')" (is "?L = ?R")
    proof
      assume ?L
      then obtain a b z' where *: "c # t = a @ b" "rmatch w r (rev a @ p, b) z'" by blast
      have "a \<noteq> []"
      proof
        assume "a = []"
        with * have "rmatch w r (p, c # t) z'" by simp
        with none show False by blast
      qed
      with *(1) obtain a' where "a = c # a'" by (cases a) auto
      with * have "t = a' @ b" "rmatch w r (rev a' @ c # p, b) z'" by simp_all
      then show ?R by blast
    next
      assume ?R
      then obtain a b z' where "t = a @ b" "rmatch w r (rev a @ c # p, b) z'" by blast
      then have "c # t = (c # a) @ b \<and> rmatch w r (rev (c # a) @ p, b) z'" by simp
      then show ?L by blast
    qed
    with None Cons.IH [of "c # p"] show ?thesis by simp
  next
    case (Some m)
    have "rmatch w r (rev [] @ p, c # t) (m_after m)" using match_at_Some(1) [OF Some] by simp
    then have "\<exists>a b z'. c # t = a @ b \<and> rmatch w r (rev a @ p, b) z'" by blast
    with Some show ?thesis by simp
  qed
qed

lemma re_search_None:
  "re_search w r s = None \<longleftrightarrow> (\<nexists>a b z'. s = a @ b \<and> rmatch w r (rev a, b) z')"
  by (simp add: re_search_def search_from_None)

section \<open>Scanning keeps the text\<close>

fun chunk_text :: "uchar + matched \<Rightarrow> pystr" where
  "chunk_text (Inl c) = [c]"
| "chunk_text (Inr m) = m_text m"

lemma scan_text: "concat (map chunk_text (scan w r z)) = snd z"
proof (induction w r z rule: scan.induct)
  case (1 w r p s)
  show ?case
  proof (cases "match_at w r (p, s)")
    case None
    with 1 show ?thesis by (subst scan.simps) (auto split: list.splits)
  next
    case (Some m)
    with 1 match_at_Some(2) [OF Some] show ?thesis
      by (subst scan.simps) (auto split: list.splits)
  qed
qed

lemma re_sub_id: "(\<And>m. Inr m \<in> set (scan w r ([], s)) \<Longrightarrow> f m = m_text m) \<Longrightarrow> re_sub w r f s = s"
proof -
  assume f: "\<And>m. Inr m \<in> set (scan w r ([], s)) \<Longrightarrow> f m = m_text m"
  have "map (case_sum (\<lambda>c. [c]) f) (scan w r ([], s)) = map chunk_text (scan w r ([], s))"
  proof (rule map_cong [OF refl])
    fix x assume x: "x \<in> set (scan w r ([], s))"
    show "case_sum (\<lambda>c. [c]) f x = chunk_text x"
    proof (cases x)
      case (Inl c)
      then show ?thesis by simp
    next
      case (Inr m)
      with x f show ?thesis by simp
    qed
  qed
  then show ?thesis by (simp only: re_sub_def scan_text snd_conv)
qed

lemma scan_no_match:
  "(\<nexists>a b z'. s = a @ b \<and> rmatch w r (rev a @ p, b) z') \<Longrightarrow> scan w r (p, s) = map Inl s"
proof (induction s arbitrary: p)
  case Nil
  then show ?case by (subst scan.simps) (simp add: match_at_None split: option.splits)
next
  case (Cons c t)
  then have "match_at w r (p, c # t) = None"
    by (simp add: match_at_None) (metis append_Nil rev.simps(1))
  moreover have "\<nexists>a b z'. t = a @ b \<and> rmatch w r (rev a @ c # p, b) z'"
    using Cons.prems by (metis append_Cons append_assoc append_Nil rev.simps(2))
  ultimately show ?case using Cons.IH by (subst scan.simps) simp
qed

lemma re_sub_no_match: "re_search w r s = None \<Longrightarrow> re_sub w r f s = s"
proof -
  assume "re_search w r s = None"
  then have "scan w r ([], s) = map Inl s"
    by (intro scan_no_match) (simp add: re_search_None)
  then show ?thesis by (intro re_sub_id) auto
qed

lemma scan_matches: "Inr m \<in> set (scan w r z) \<Longrightarrow> \<exists>z1 a. match_at w r z1 = Some m \<and> snd z = a @ snd z1 \<and> m_text m \<noteq> []"
proof (induction w r z rule: scan.induct)
  case (1 w r p s)
  show ?case
  proof (cases "match_at w r (p, s)")
    case None
    with "1.prems" obtain c t where ct: "s = c # t" "Inr m \<in> set (scan w r (c # p, t))"
      by (subst (asm) scan.simps) (auto split: list.splits)
    from "1.IH"(1) [OF None ct] show ?thesis by (metis append_Cons ct(1) snd_conv)
  next
    case (Some n)
    note tx = match_at_Some(2) [OF Some]
    show ?thesis
    proof (cases "length (snd (m_after n)) < length s")
      case True
      with "1.prems" Some have "m = n \<or> Inr m \<in> set (scan w r (m_after n))"
        by (subst (asm) scan.simps) auto
      then show ?thesis
      proof
        assume "m = n"
        with Some tx True show ?thesis by (intro exI [of _ "(p, s)"] exI [of _ "[]"]) auto
      next
        assume "Inr m \<in> set (scan w r (m_after n))"
        with "1.IH"(2) [OF Some True] tx show ?thesis by (metis append.assoc snd_conv)
      qed
    next
      case False
      with "1.prems" Some obtain c t where ct: "s = c # t" "Inr m \<in> set (scan w r (c # p, t))"
        by (subst (asm) scan.simps) (auto split: list.splits)
      from "1.IH"(3) [OF Some False ct] show ?thesis by (metis append_Cons ct(1) snd_conv)
    qed
  qed
qed

section \<open>Runs of one character class\<close>

lemma rmatch_Cls_iff:
  "rmatch w (Cls neg ks) (p, s) z' \<longleftrightarrow> (\<exists>c t. s = c # t \<and> cls_ok w neg ks c \<and> z' = (c # p, t))"
  by (auto simp: rmatch_Cls)

lemma rmatch_StarD:
  assumes "rmatch w r (p, s) z'" and "r = Star g (Cls neg ks)"
  shows "\<exists>x t. s = x @ t \<and> (\<forall>c \<in> set x. cls_ok w neg ks c) \<and> z' = (rev x @ p, t)"
  using assms
proof (induction r "(p, s)" z' arbitrary: p s rule: rmatch.induct)
  case (StarNil g' a)
  then show ?case by (intro exI [of _ "[]"] exI [of _ s]) auto
next
  case (StarStep a z' g' z'')
  then obtain c t where c: "s = c # t" "cls_ok w neg ks c" "z' = (c # p, t)"
    by (auto simp: rmatch_Cls)
  with StarStep obtain x t' where "t = x @ t'" "\<forall>c \<in> set x. cls_ok w neg ks c" "z'' = (rev x @ c # p, t')"
    by blast
  with c show ?case by (intro exI [of _ "c # x"] exI [of _ t']) auto
qed auto

lemma rmatch_StarI: "\<forall>c \<in> set x. cls_ok w neg ks c \<Longrightarrow> rmatch w (Star g (Cls neg ks)) (p, x @ t) (rev x @ p, t)"
proof (induction x arbitrary: p)
  case Nil
  then show ?case by (simp add: rmatch.StarNil)
next
  case (Cons c x)
  have "rmatch w (Cls neg ks) (p, (c # x) @ t) (c # p, x @ t)"
    using Cons.prems by (simp add: rmatch.Cls)
  moreover have "rmatch w (Star g (Cls neg ks)) (c # p, x @ t) (rev x @ c # p, t)"
    using Cons by simp
  ultimately show ?case by (simp add: rmatch.StarStep)
qed

lemma rmatch_Star_Cls:
  "rmatch w (Star g (Cls neg ks)) (p, s) z' \<longleftrightarrow>
    (\<exists>x t. s = x @ t \<and> (\<forall>c \<in> set x. cls_ok w neg ks c) \<and> z' = (rev x @ p, t))"
proof
  assume "rmatch w (Star g (Cls neg ks)) (p, s) z'"
  then show "\<exists>x t. s = x @ t \<and> (\<forall>c \<in> set x. cls_ok w neg ks c) \<and> z' = (rev x @ p, t)"
    by (rule rmatch_StarD) (rule refl)
next
  assume "\<exists>x t. s = x @ t \<and> (\<forall>c \<in> set x. cls_ok w neg ks c) \<and> z' = (rev x @ p, t)"
  then show "rmatch w (Star g (Cls neg ks)) (p, s) z'"
    by (elim exE conjE) (simp add: rmatch_StarI)
qed

lemma rmatch_Plus_Cls:
  "rmatch w (Plus (Cls neg ks)) (p, s) z' \<longleftrightarrow>
    (\<exists>x t. s = x @ t \<and> x \<noteq> [] \<and> (\<forall>c \<in> set x. cls_ok w neg ks c) \<and> z' = (rev x @ p, t))"
proof
  assume "rmatch w (Plus (Cls neg ks)) (p, s) z'"
  then obtain c x t where "s = c # x @ t" "cls_ok w neg ks c" "\<forall>c \<in> set x. cls_ok w neg ks c"
      "z' = (rev x @ c # p, t)"
    by (auto simp: Plus_def rmatch_Seq rmatch_Cls_iff rmatch_Star_Cls)
  then show "\<exists>x t. s = x @ t \<and> x \<noteq> [] \<and> (\<forall>c \<in> set x. cls_ok w neg ks c) \<and> z' = (rev x @ p, t)"
    by (intro exI [of _ "c # x"] exI [of _ t]) auto
next
  assume "\<exists>x t. s = x @ t \<and> x \<noteq> [] \<and> (\<forall>c \<in> set x. cls_ok w neg ks c) \<and> z' = (rev x @ p, t)"
  then obtain c x t where "s = c # x @ t" "cls_ok w neg ks c" "\<forall>c \<in> set x. cls_ok w neg ks c"
      "z' = (rev x @ c # p, t)"
    by (auto simp: neq_Nil_conv)
  then show "rmatch w (Plus (Cls neg ks)) (p, s) z'"
    by (fastforce simp: Plus_def rmatch_Seq rmatch_Cls_iff rmatch_Star_Cls)
qed

lemma rmatch_Rep_Cls:
  "rmatch w (Rep n (Cls neg ks)) (p, s) z' \<longleftrightarrow>
    (\<exists>x t. s = x @ t \<and> length x = n \<and> (\<forall>c \<in> set x. cls_ok w neg ks c) \<and> z' = (rev x @ p, t))"
proof (induction n arbitrary: p s)
  case 0
  then show ?case by auto
next
  case (Suc n)
  show ?case
  proof
    assume "rmatch w (Rep (Suc n) (Cls neg ks)) (p, s) z'"
    then obtain c x t where "s = c # x @ t" "length x = n" "cls_ok w neg ks c"
        "\<forall>c \<in> set x. cls_ok w neg ks c" "z' = (rev x @ c # p, t)"
      by (auto simp: rmatch_Seq rmatch_Cls_iff Suc.IH)
    then show "\<exists>x t. s = x @ t \<and> length x = Suc n \<and> (\<forall>c \<in> set x. cls_ok w neg ks c) \<and> z' = (rev x @ p, t)"
      by (intro exI [of _ "c # x"] exI [of _ t]) auto
  next
    assume "\<exists>x t. s = x @ t \<and> length x = Suc n \<and> (\<forall>c \<in> set x. cls_ok w neg ks c) \<and> z' = (rev x @ p, t)"
    then obtain c x t where "s = c # x @ t" "length x = n" "cls_ok w neg ks c"
        "\<forall>c \<in> set x. cls_ok w neg ks c" "z' = (rev x @ c # p, t)"
      by (auto simp: length_Suc_conv)
    then have "rmatch w (Cls neg ks) (p, s) (c # p, x @ t)"
      and "rmatch w (Rep n (Cls neg ks)) (c # p, x @ t) z'"
      unfolding Suc.IH rmatch_Cls_iff by blast+
    then show "rmatch w (Rep (Suc n) (Cls neg ks)) (p, s) z'"
      by (auto intro: rmatch.Seq)
  qed
qed

lemma rmatch_Str: "rmatch w (Str x) (p, s) z' \<longleftrightarrow> (\<exists>t. s = x @ t \<and> z' = (rev x @ p, t))"
  by (induction x arbitrary: p s) (auto simp: rmatch_Seq Chr_def rmatch_Cls_iff cls_ok_def)

section \<open>Languages of anchor-free patterns\<close>

text \<open>\<open>lang w r P\<close>: wherever it starts, \<open>r\<close> can consume exactly the texts that satisfy \<open>P\<close>.\<close>

definition lang :: "(uchar \<Rightarrow> bool) \<Rightarrow> re \<Rightarrow> (pystr \<Rightarrow> bool) \<Rightarrow> bool" where
  "lang w r P \<longleftrightarrow>
    (\<forall>p s q t. rmatch w r (p, s) (q, t) \<longleftrightarrow> (\<exists>x. s = x @ t \<and> P x \<and> q = rev x @ p))"

lemma langD: "lang w r P \<Longrightarrow> rmatch w r (p, s) (q, t) \<longleftrightarrow> (\<exists>x. s = x @ t \<and> P x \<and> q = rev x @ p)"
  unfolding lang_def by blast

lemma lang_cong: "lang w r P \<Longrightarrow> (\<And>x. P x \<longleftrightarrow> Q x) \<Longrightarrow> lang w r Q"
  by (simp add: lang_def)

lemma lang_Eps: "lang w Eps (\<lambda>x. x = [])"
  by (auto simp: lang_def)

lemma lang_Cls: "lang w (Cls neg ks) (\<lambda>x. \<exists>c. x = [c] \<and> cls_ok w neg ks c)"
  unfolding lang_def rmatch_Cls_iff by auto

lemma lang_Chr: "lang w (Chr c) (\<lambda>x. x = [c])"
  by (rule lang_cong [OF lang_Cls [of w False "[Rng c c]", folded Chr_def]]) (auto simp: cls_ok_def)

lemma lang_Str: "lang w (Str y) (\<lambda>x. x = y)"
  unfolding lang_def rmatch_Str by auto

lemma lang_Grp: "lang w r P \<Longrightarrow> lang w (Grp n r) P"
  by (simp add: lang_def)

lemma lang_Alt: "lang w a P \<Longrightarrow> lang w b Q \<Longrightarrow> lang w (Alt a b) (\<lambda>x. P x \<or> Q x)"
  unfolding lang_def rmatch_Alt by (simp only:) auto

lemma lang_Seq:
  assumes "lang w a P" and "lang w b Q"
  shows "lang w (Seq a b) (\<lambda>z. \<exists>x y. z = x @ y \<and> P x \<and> Q y)"
  unfolding lang_def
proof (intro allI)
  fix p s q t
  have "rmatch w (Seq a b) (p, s) (q, t) \<longleftrightarrow>
      (\<exists>p1 s1. rmatch w a (p, s) (p1, s1) \<and> rmatch w b (p1, s1) (q, t))"
    unfolding rmatch_Seq by (metis surj_pair)
  also have "\<dots> \<longleftrightarrow> (\<exists>x y. s = x @ y @ t \<and> P x \<and> Q y \<and> q = rev y @ rev x @ p)"
    unfolding langD [OF assms(1)] langD [OF assms(2)] by blast
  finally show "rmatch w (Seq a b) (p, s) (q, t) \<longleftrightarrow>
      (\<exists>z. s = z @ t \<and> (\<exists>x y. z = x @ y \<and> P x \<and> Q y) \<and> q = rev z @ p)"
    by (simp only: append.assoc rev_append) (metis append.assoc rev_append)
qed

lemma lang_Star_sound:
  assumes "rmatch w r (p, s) z'" and "r = Star g a" and "lang w a P"
  shows "\<exists>xs. s = concat xs @ snd z' \<and> list_all P xs \<and> fst z' = rev (concat xs) @ p"
  using assms
proof (induction r "(p, s)" z' arbitrary: p s rule: rmatch.induct)
  case (StarNil g' a')
  then show ?case by (intro exI [of _ "[]"]) simp
next
  case (StarStep a' z' g' z'')
  obtain q t where z': "z' = (q, t)" by (cases z')
  have "a' = a" using StarStep.prems by simp
  with StarStep(1) z' StarStep.prems(2) obtain x where x: "s = x @ t" "P x" "q = rev x @ p"
    by (auto simp: langD)
  from StarStep(4) [OF z'] StarStep.prems obtain xs where
    "t = concat xs @ snd z''" "list_all P xs" "fst z'' = rev (concat xs) @ q" by blast
  with x show ?case by (intro exI [of _ "x # xs"]) simp
qed simp_all

lemma lang_Star_complete:
  "lang w a P \<Longrightarrow> list_all P xs \<Longrightarrow> rmatch w (Star g a) (p, concat xs @ t) (rev (concat xs) @ p, t)"
proof (induction xs arbitrary: p)
  case Nil
  then show ?case by (simp add: rmatch.StarNil)
next
  case (Cons x xs)
  then have "rmatch w a (p, concat (x # xs) @ t) (rev x @ p, concat xs @ t)"
    by (simp add: langD)
  moreover have "rmatch w (Star g a) (rev x @ p, concat xs @ t) (rev (concat xs) @ rev x @ p, t)"
    using Cons by simp
  ultimately show ?case by (auto intro: rmatch.StarStep)
qed

lemma lang_Star: "lang w a P \<Longrightarrow> lang w (Star g a) (\<lambda>x. \<exists>xs. x = concat xs \<and> list_all P xs)"
  unfolding lang_def [of w "Star g a"] using lang_Star_sound lang_Star_complete by fastforce

lemma lang_Star_Cls:
  "lang w (Star g (Cls neg ks)) (list_all (cls_ok w neg ks))"
  unfolding lang_def rmatch_Star_Cls list_all_iff by auto

lemma lang_Plus_Cls: "lang w (Plus (Cls neg ks)) (\<lambda>x. x \<noteq> [] \<and> list_all (cls_ok w neg ks) x)"
  unfolding lang_def rmatch_Plus_Cls list_all_iff by auto

lemma lang_Rep_Cls: "lang w (Rep n (Cls neg ks)) (\<lambda>x. length x = n \<and> list_all (cls_ok w neg ks) x)"
  unfolding lang_def rmatch_Rep_Cls list_all_iff by auto

text \<open>A pattern anchored as \<open>^\<dots>$\<close>: \<open>$\<close> also matches before one final newline.\<close>

lemma re_match_anchored:
  assumes "lang w r P"
  shows "re_match w (Seq Bos (Seq r Eol)) s \<noteq> None \<longleftrightarrow> P s \<or> (\<exists>s'. s = s' @ [10] \<and> P s')"
proof -
  have "re_match w (Seq Bos (Seq r Eol)) s \<noteq> None \<longleftrightarrow>
      (\<exists>q t. rmatch w r ([], s) (q, t) \<and> (t = [] \<or> t = [10]))"
    unfolding re_match_None by (auto simp: rmatch_Seq rmatch_Bos rmatch_Eol)
  also have "\<dots> \<longleftrightarrow> (\<exists>x t. s = x @ t \<and> P x \<and> (t = [] \<or> t = [10]))"
    unfolding langD [OF assms] by blast
  also have "\<dots> \<longleftrightarrow> P s \<or> (\<exists>s'. s = s' @ [10] \<and> P s')"
    by (metis append_Nil2)
  finally show ?thesis .
qed

end
