(* ===== verification/Models.thy ===== *)
theory Models
  imports Errors Regex
begin

text \<open>
  The value objects of \<^verbatim>\<open>src/groundtruth/models\<close>: token counts, the job record with its state
  machine, note frontmatter with its validators, source records, vaults and query answers.
  Dates are day numbers, instants and durations are integers of the clock's resolution.
\<close>

type_synonym date = int
type_synonym instant = int
type_synonym path = "pystr list"   \<comment> \<open>an absolute path, component by component\<close>

section \<open>Token counts\<close>

record token_counts =
  prompt_tokens :: int
  completion_tokens :: int
  total_tokens :: int

definition zero_counts :: token_counts where
  "zero_counts = \<lparr>prompt_tokens = 0, completion_tokens = 0, total_tokens = 0\<rparr>"

definition add_counts :: "token_counts \<Rightarrow> token_counts \<Rightarrow> token_counts" where
  "add_counts a b =
    \<lparr>prompt_tokens = prompt_tokens a + prompt_tokens b,
     completion_tokens = completion_tokens a + completion_tokens b,
     total_tokens = total_tokens a + total_tokens b\<rparr>"

lemma add_counts_assoc: "add_counts (add_counts a b) c = add_counts a (add_counts b c)"
  by (simp add: add_counts_def)

lemma add_counts_commute: "add_counts a b = add_counts b a"
  by (simp add: add_counts_def)

lemma add_counts_zero [simp]: "add_counts a zero_counts = a" "add_counts zero_counts a = a"
  by (simp_all add: add_counts_def zero_counts_def)

section \<open>Jobs\<close>

datatype job_state = QUEUED | RUNNING | SUCCEEDED | FAILED

instantiation job_state :: linorder
begin

text \<open>The order of declaration.\<close>

fun job_state_rank :: "job_state \<Rightarrow> nat" where
  "job_state_rank QUEUED = 0"
| "job_state_rank RUNNING = 1"
| "job_state_rank SUCCEEDED = 2"
| "job_state_rank FAILED = 3"

definition less_eq_job_state :: "job_state \<Rightarrow> job_state \<Rightarrow> bool" where
  "less_eq_job_state a b \<longleftrightarrow> job_state_rank a \<le> job_state_rank b"

definition less_job_state :: "job_state \<Rightarrow> job_state \<Rightarrow> bool" where
  "less_job_state a b \<longleftrightarrow> job_state_rank a < job_state_rank b"

instance
proof
  fix x y z :: job_state
  show "x < y \<longleftrightarrow> x \<le> y \<and> \<not> y \<le> x"
    by (auto simp: less_job_state_def less_eq_job_state_def)
  show "x \<le> x"
    by (simp add: less_eq_job_state_def)
  show "x \<le> y \<Longrightarrow> y \<le> z \<Longrightarrow> x \<le> z"
    by (simp add: less_eq_job_state_def)
  show "x \<le> y \<Longrightarrow> y \<le> x \<Longrightarrow> x = y"
    by (cases x; cases y) (simp_all add: less_eq_job_state_def)
  show "x \<le> y \<or> y \<le> x"
    by (auto simp: less_eq_job_state_def)
qed

end

fun legal_job_transitions :: "job_state \<Rightarrow> job_state list" where
  "legal_job_transitions QUEUED = [RUNNING, FAILED]"
| "legal_job_transitions RUNNING = [SUCCEEDED, FAILED]"
| "legal_job_transitions SUCCEEDED = []"
| "legal_job_transitions FAILED = []"

definition terminal_job_states :: "job_state list" where
  "terminal_job_states = [SUCCEEDED, FAILED]"

abbreviation terminal :: "job_state \<Rightarrow> bool" where
  "terminal s \<equiv> s \<in> set terminal_job_states"

record job_record =
  job_id :: pystr
  job_vault :: pystr
  job_state :: job_state
  created_at :: "instant option"
  started_at :: "instant option"
  updated_at :: "instant option"
  stage_timings :: "(string \<times> int) list"
  token_usage :: "(string \<times> token_counts) list"
  notes_created :: "pystr list"
  notes_updated :: "pystr list"
  link_downgrades :: "(pystr \<times> pystr list) list"
  source_sha :: "pystr option"
  source_bytes :: "int option"
  commit_sha :: "pystr option"
  failure_stage :: "string option"
  error :: "message option"
  dedup_of :: "pystr option"
  attempts :: int
  attempt_errors :: "message list"

text \<open>\<open>JobRecord(id=\<dots>, vault=\<dots>)\<close>: every other field has its default.\<close>

definition new_job :: "pystr \<Rightarrow> pystr \<Rightarrow> job_record" where
  "new_job i v = \<lparr>job_id = i, job_vault = v, job_state = QUEUED, created_at = None,
     started_at = None, updated_at = None, stage_timings = [], token_usage = [],
     notes_created = [], notes_updated = [], link_downgrades = [], source_sha = None,
     source_bytes = None, commit_sha = None, failure_stage = None, error = None,
     dedup_of = None, attempts = 1, attempt_errors = []\<rparr>"

definition can_transition_to :: "job_record \<Rightarrow> job_state \<Rightarrow> bool" where
  "can_transition_to j s \<longleftrightarrow> s \<in> set (legal_job_transitions (job_state j))"

definition state_value :: "job_state \<Rightarrow> string" where
  "state_value s = (case s of QUEUED \<Rightarrow> ''queued'' | RUNNING \<Rightarrow> ''running''
     | SUCCEEDED \<Rightarrow> ''succeeded'' | FAILED \<Rightarrow> ''failed'')"

definition illegal_transition :: "job_state \<Rightarrow> job_state \<Rightarrow> exn" where
  "illegal_transition a b =
    exc ValueError [Lit ''illegal job transition: '', Lit (state_value a), Lit '' -> '', Lit (state_value b)]"

definition transitioned_to :: "job_record \<Rightarrow> job_state \<Rightarrow> job_record res" where
  "transitioned_to j s =
    (if \<not> can_transition_to j s then Inl (illegal_transition (job_state j) s)
     else Inr (j\<lparr>job_state := s\<rparr>))"

lemma new_job_sel [simp]:
  "job_id (new_job i v) = i" "job_vault (new_job i v) = v" "job_state (new_job i v) = QUEUED"
  "started_at (new_job i v) = None" "attempts (new_job i v) = 1" "attempt_errors (new_job i v) = []"
  by (simp_all add: new_job_def)

lemma can_transition_simps [simp]:
  "can_transition_to j QUEUED \<longleftrightarrow> False"
  "can_transition_to j RUNNING \<longleftrightarrow> job_state j = QUEUED"
  "can_transition_to j SUCCEEDED \<longleftrightarrow> job_state j = RUNNING"
  "can_transition_to j FAILED \<longleftrightarrow> job_state j = QUEUED \<or> job_state j = RUNNING"
  by (cases "job_state j"; simp add: can_transition_to_def)+

lemma terminal_simps [simp]:
  "terminal QUEUED \<longleftrightarrow> False" "terminal RUNNING \<longleftrightarrow> False"
  "terminal SUCCEEDED \<longleftrightarrow> True" "terminal FAILED \<longleftrightarrow> True"
  by (simp_all add: terminal_job_states_def)

lemma terminal_iff: "terminal s \<longleftrightarrow> legal_job_transitions s = []"
  by (cases s) simp_all

lemma not_terminal_iff: "\<not> terminal s \<longleftrightarrow> s = QUEUED \<or> s = RUNNING"
  by (cases s) simp_all

lemma can_transition_not_terminal: "can_transition_to j s \<Longrightarrow> \<not> terminal (job_state j)"
  by (cases "job_state j") (auto simp: can_transition_to_def)

lemma can_transition_rank: "can_transition_to j s \<Longrightarrow> job_state j < s"
  by (cases "job_state j") (auto simp: can_transition_to_def less_job_state_def)

lemma transitioned_to_eq_Inr [simp]:
  "transitioned_to j s = Inr j' \<longleftrightarrow> can_transition_to j s \<and> j' = j\<lparr>job_state := s\<rparr>"
  by (auto simp: transitioned_to_def)

lemma transitioned_to_ok: "can_transition_to j s \<Longrightarrow> transitioned_to j s = Inr (j\<lparr>job_state := s\<rparr>)"
  by simp

section \<open>Note frontmatter\<close>

definition lower_alnum :: "citem list" where
  "lower_alnum = [Rng 97 122, Rng 48 57]"

text \<open>\<open>_TAG_RE\<close>: \<open>^[a-z0-9]+(-[a-z0-9]+)*$\<close>.\<close>

definition tag_re :: re where
  "tag_re = SeqL [Bos, Plus (Cls False lower_alnum),
     Star True (Grp 1 (Seq (Chr 45) (Plus (Cls False lower_alnum)))), Eol]"

text \<open>\<open>_SHA256_RE\<close>: \<open>^[0-9a-f]{64}$\<close>.\<close>

definition sha256_re :: re where
  "sha256_re = SeqL [Bos, Rep 64 (Cls False [Rng 48 57, Rng 97 102]), Eol]"

text \<open>Neither pattern contains a word class, so any word predicate gives the same result.\<close>

definition tag_ok :: "pystr \<Rightarrow> bool" where
  "tag_ok t \<longleftrightarrow> re_match (\<lambda>_. False) tag_re t \<noteq> None"

definition sha256_ok :: "pystr \<Rightarrow> bool" where
  "sha256_ok s \<longleftrightarrow> re_match (\<lambda>_. False) sha256_re s \<noteq> None"

record frontmatter =
  title :: pystr
  tags :: "pystr list"
  sources :: "pystr list"
  created :: date
  updated :: date

definition tags_normalized :: "pystr list \<Rightarrow> pystr list res" where
  "tags_normalized ts =
    bindR (forR (\<lambda>t. guardR (tag_ok t) (exc ValueError [Lit ''tag '', Repr t,
       Lit '' is not normalized: expected lowercase words separated by single hyphens (no spaces, uppercase or underscores)''])) ts)
     (\<lambda>_. Inr ts)"

definition sources_are_sha256 :: "pystr list \<Rightarrow> pystr list res" where
  "sources_are_sha256 ss =
    bindR (forR (\<lambda>s. guardR (sha256_ok s) (exc ValueError [Lit ''source '', Repr s,
       Lit '' is not a lowercase hex SHA-256 digest''])) ss)
     (\<lambda>_. Inr ss)"

text \<open>The two field validators of \<open>NoteFrontmatter\<close>; pydantic reports a \<open>ValueError\<close> of a validator as
  a \<open>ValidationError\<close>.\<close>

definition as_validation_error :: "'a res \<Rightarrow> 'a res" where
  "as_validation_error r =
    (case r of Inl e \<Rightarrow> Inl (exc PydanticValidationError (emsg e)) | Inr x \<Rightarrow> Inr x)"

definition validate_frontmatter :: "frontmatter \<Rightarrow> frontmatter res" where
  "validate_frontmatter fm =
    as_validation_error
      (bindR (tags_normalized (tags fm)) (\<lambda>_.
       bindR (sources_are_sha256 (sources fm)) (\<lambda>_. Inr fm)))"

definition frontmatter_ok :: "frontmatter \<Rightarrow> bool" where
  "frontmatter_ok fm \<longleftrightarrow> list_all tag_ok (tags fm) \<and> list_all sha256_ok (sources fm)"

lemma as_validation_error_Inr [simp]: "as_validation_error r = Inr x \<longleftrightarrow> r = Inr x"
  by (auto simp: as_validation_error_def split: sum.splits)

lemma validate_frontmatter_ok: "validate_frontmatter fm = Inr fm' \<longleftrightarrow> frontmatter_ok fm \<and> fm' = fm"
proof -
  have "tags_normalized ts = Inr x \<longleftrightarrow> list_all tag_ok ts \<and> x = ts" for ts x
    by (auto simp: tags_normalized_def forR_ok_iff list_all_iff)
  moreover have "sources_are_sha256 ss = Inr x \<longleftrightarrow> list_all sha256_ok ss \<and> x = ss" for ss x
    by (auto simp: sources_are_sha256_def forR_ok_iff list_all_iff)
  ultimately show ?thesis by (auto simp: validate_frontmatter_def frontmatter_ok_def)
qed

record vault_note =
  note_path :: pystr
  note_frontmatter :: frontmatter
  note_body :: pystr

section \<open>Source records, vaults, answers\<close>

record source_record =
  src_sha256 :: pystr
  src_job_id :: pystr
  src_commit_sha :: pystr
  notes_touched :: "pystr list"
  ingested_at :: date
  source_label :: "pystr option"

definition mk_source_record :: "source_record \<Rightarrow> source_record res" where
  "mk_source_record r =
    as_validation_error (bindR (guardR (sha256_ok (src_sha256 r)) (exc ValueError
      [Lit ''sha256 '', Repr (src_sha256 r), Lit '' is not a lowercase hex SHA-256 digest'']))
      (\<lambda>_. Inr r))"

record vault =
  vault_name :: pystr
  repo_root :: path

text \<open>\<open>vault_dir\<close>: \<open>the repository root joined with the name\<close>; a registered name has no slash.\<close>

definition vault_dir :: "vault \<Rightarrow> path" where
  "vault_dir v = repo_root v @ [vault_name v]"

datatype refusal_reason = NoEvidence | BudgetExhausted

record citation =
  cit_vault :: pystr
  cit_path :: pystr

record answer =
  ans_text :: pystr
  ans_citations :: "citation list"
  ans_tokens :: "(string \<times> token_counts) list"

datatype recovery_outcome =
    AnswerResult answer
  | Refusal refusal_reason "(string \<times> token_counts) list"

section \<open>What the two patterns accept\<close>

text \<open>The documented shape of a tag: non-empty lower-case alphanumeric words joined by hyphens.\<close>

definition lower_alnum_char :: "uchar \<Rightarrow> bool" where
  "lower_alnum_char c \<longleftrightarrow> 97 \<le> c \<and> c \<le> 122 \<or> 48 \<le> c \<and> c \<le> 57"

definition tag_word :: "pystr \<Rightarrow> bool" where
  "tag_word y \<longleftrightarrow> y \<noteq> [] \<and> list_all lower_alnum_char y"

definition normalized_tag :: "pystr \<Rightarrow> bool" where
  "normalized_tag t \<longleftrightarrow> list_all tag_word (split_on 45 t)"

definition hex_char :: "uchar \<Rightarrow> bool" where
  "hex_char c \<longleftrightarrow> 48 \<le> c \<and> c \<le> 57 \<or> 97 \<le> c \<and> c \<le> 102"

definition hex_digest :: "pystr \<Rightarrow> bool" where
  "hex_digest s \<longleftrightarrow> length s = 64 \<and> list_all hex_char s"

lemma lang_tag_word: "lang w (Plus (Cls False lower_alnum)) tag_word"
  by (rule lang_cong [OF lang_Plus_Cls])
    (simp add: tag_word_def lower_alnum_def lower_alnum_char_def cls_ok_def list_all_iff)

lemma join_hyphen: "join [45] (x # ws) = x @ concat (map (\<lambda>y. 45 # y) ws)"
  by (induction ws arbitrary: x) auto

lemma hyphen_words: "list_all (\<lambda>z. \<exists>x y. z = x @ y \<and> x = [45] \<and> tag_word y) xs \<longleftrightarrow>
    (\<exists>ws. xs = map (\<lambda>y. 45 # y) ws \<and> list_all tag_word ws)"
proof (induction xs)
  case (Cons z xs)
  show ?case unfolding list.pred_inject(2) Cons.IH by (auto simp: Cons_eq_map_conv)
qed simp

lemma normalized_tag_join:
  "normalized_tag t \<longleftrightarrow> (\<exists>x ws. t = join [45] (x # ws) \<and> tag_word x \<and> list_all tag_word ws)"
proof
  assume n: "normalized_tag t"
  obtain x ws where xs: "split_on 45 t = x # ws" by (cases "split_on 45 t") auto
  then have "t = join [45] (x # ws)" using join_split_on [of 45 t] by simp
  with n xs show "\<exists>x ws. t = join [45] (x # ws) \<and> tag_word x \<and> list_all tag_word ws"
    unfolding normalized_tag_def by auto
next
  assume "\<exists>x ws. t = join [45] (x # ws) \<and> tag_word x \<and> list_all tag_word ws"
  then obtain x ws where t: "t = join [45] (x # ws)" and ok: "list_all tag_word (x # ws)" by auto
  have "\<forall>y \<in> set (x # ws). 45 \<notin> set y"
    using ok by (force simp: tag_word_def list_all_iff lower_alnum_char_def)
  then have "split_on 45 t = x # ws" unfolding t by (intro split_on_join) auto
  with ok show "normalized_tag t" by (simp add: normalized_tag_def)
qed

lemma lang_tag: "lang w (Seq (Plus (Cls False lower_alnum))
    (Star True (Grp 1 (Seq (Chr 45) (Plus (Cls False lower_alnum)))))) normalized_tag"
proof (rule lang_cong [OF lang_Seq [OF lang_tag_word
      lang_Star [OF lang_Grp [OF lang_Seq [OF lang_Chr lang_tag_word]]]]])
  fix t
  show "(\<exists>x y. t = x @ y \<and> tag_word x \<and>
      (\<exists>xs. y = concat xs \<and> list_all (\<lambda>z. \<exists>x y. z = x @ y \<and> x = [45] \<and> tag_word y) xs)) \<longleftrightarrow>
      normalized_tag t"
    unfolding normalized_tag_join hyphen_words join_hyphen by blast
qed

lemma re_match_Seq_assoc: "re_match w (Seq a (Seq b (Seq c d))) s = None \<longleftrightarrow>
    re_match w (Seq a (Seq (Seq b c) d)) s = None"
  unfolding re_match_None rmatch_Seq by blast

lemma tag_ok_iff: "tag_ok t \<longleftrightarrow> normalized_tag t \<or> (\<exists>t'. t = t' @ [10] \<and> normalized_tag t')"
  using re_match_anchored [OF lang_tag]
  by (simp add: tag_ok_def tag_re_def re_match_Seq_assoc)

lemma sha256_ok_iff: "sha256_ok s \<longleftrightarrow> hex_digest s \<or> (\<exists>s'. s = s' @ [10] \<and> hex_digest s')"
proof -
  have "lang (\<lambda>_. False) (Rep 64 (Cls False [Rng 48 57, Rng 97 102])) hex_digest"
    by (rule lang_cong [OF lang_Rep_Cls]) (simp add: hex_digest_def hex_char_def cls_ok_def list_all_iff)
  from re_match_anchored [OF this] show ?thesis
    by (simp add: sha256_ok_def sha256_re_def del: Rep.simps)
qed

section \<open>Property\<close>

text \<open>
  C40. Building a \<open>NoteFrontmatter\<close> succeeds, and returns the data unchanged, exactly when every tag is
  a run of non-empty lower-case alphanumeric words joined by single hyphens and every source is 64
  lower-case hex digits, either of them possibly followed by one newline (Python's \<open>$\<close>).
\<close>

theorem frontmatter_acceptance:
  "validate_frontmatter fm = Inr fm' \<longleftrightarrow>
    fm' = fm
    \<and> list_all (\<lambda>t. normalized_tag t \<or> (\<exists>t'. t = t' @ [10] \<and> normalized_tag t')) (tags fm)
    \<and> list_all (\<lambda>s. hex_digest s \<or> (\<exists>s'. s = s' @ [10] \<and> hex_digest s')) (sources fm)"
  by (auto simp: validate_frontmatter_ok frontmatter_ok_def tag_ok_iff sha256_ok_iff list_all_iff)

end
