(* ===== verification/Lifecycle.thy ===== *)
theory Lifecycle
  imports Models
begin

text \<open>
  What the rest of the program relies on in a job store: the interface \<open>job_table\<close> (read a record,
  write a record), the rule a write obeys, and the consequences every client uses: how one record
  may evolve, and how the clients force a job to \<open>FAILED\<close>.  \<open>JobStore\<close> provides the instance.
\<close>

section \<open>How a record evolves\<close>

text \<open>The record \<open>update\<close> writes: creation and start times come from the stored record, and the start
  is stamped by the first write of a running record.\<close>

definition stamp :: "instant \<Rightarrow> job_record \<Rightarrow> job_record \<Rightarrow> job_record" where
  "stamp now existing r =
    r\<lparr>created_at := created_at existing,
      started_at := (if started_at existing = None \<and> job_state r = RUNNING then Some now
                     else started_at existing),
      updated_at := Some now\<rparr>"

text \<open>The transitions a write lets through: the same state, or a legal one.\<close>

definition move_ok :: "job_record \<Rightarrow> job_record \<Rightarrow> bool" where
  "move_ok old new \<longleftrightarrow> job_state new = job_state old \<or> can_transition_to old (job_state new)"

text \<open>The state only moves forward, a terminal state is final, and the creation and start stamps of
  a record never change once set.\<close>

definition evolves :: "job_record \<Rightarrow> job_record \<Rightarrow> bool" where
  "evolves a b \<longleftrightarrow> job_state a \<le> job_state b \<and> (terminal (job_state a) \<longrightarrow> job_state b = job_state a)
    \<and> created_at b = created_at a \<and> (started_at a = None \<or> started_at b = started_at a)"

lemma stamp_sel [simp]:
  "job_id (stamp now x r) = job_id r" "job_vault (stamp now x r) = job_vault r"
  "job_state (stamp now x r) = job_state r"
  "created_at (stamp now x r) = created_at x" "updated_at (stamp now x r) = Some now"
  "failure_stage (stamp now x r) = failure_stage r" "error (stamp now x r) = error r"
  "attempts (stamp now x r) = attempts r" "attempt_errors (stamp now x r) = attempt_errors r"
  by (simp_all add: stamp_def)

lemma started_at_stamp [simp]: "started_at x \<noteq> None \<Longrightarrow> started_at (stamp now x r) = started_at x"
  by (simp add: stamp_def)

lemma evolves_refl [simp]: "evolves a a"
  by (simp add: evolves_def)

lemma evolves_trans: "evolves a b \<Longrightarrow> evolves b c \<Longrightarrow> evolves a c"
  unfolding evolves_def by (metis order_trans)

lemma evolves_stamp: "move_ok old r \<Longrightarrow> evolves old (stamp now old r)"
  using can_transition_not_terminal [of old "job_state r"] can_transition_rank [of old "job_state r"]
  by (cases "started_at old") (auto simp: evolves_def move_ok_def)

section \<open>Forcing a job to the failed state\<close>

text \<open>\<open>x if x.state is RUNNING else x.transitioned_to(RUNNING)\<close>, written in the queue, the retry
  wrapper and the services.\<close>

definition as_running :: "job_record \<Rightarrow> job_record res" where
  "as_running j = (if job_state j = RUNNING then Inr j else transitioned_to j RUNNING)"

text \<open>The failing write: set the fields, move to \<open>FAILED\<close>, update.\<close>

definition failing :: "(job_record \<Rightarrow> job_record) \<Rightarrow> job_record \<Rightarrow> job_record res" where
  "failing f j = bindR (as_running j) (\<lambda>b. transitioned_to (f b) FAILED)"

lemma as_running_ok: "as_running j = Inr b \<longleftrightarrow> \<not> terminal (job_state j) \<and> b = j\<lparr>job_state := RUNNING\<rparr>"
  by (cases "job_state j") (auto simp: as_running_def terminal_job_states_def)

lemma failing_ok:
  assumes "\<And>j. job_state (f j) = job_state j"
  shows "failing f j = Inr b \<longleftrightarrow>
    \<not> terminal (job_state j) \<and> b = (f (j\<lparr>job_state := RUNNING\<rparr>))\<lparr>job_state := FAILED\<rparr>"
  using assms by (auto simp: failing_def as_running_ok)

lemma failing_terminal:
  "terminal (job_state j) \<Longrightarrow> failing f j = Inl (illegal_transition (job_state j) RUNNING)"
  by (cases "job_state j") (auto simp: failing_def as_running_def transitioned_to_def terminal_job_states_def)

section \<open>The interface of a job store\<close>

text \<open>\<open>view\<close> is what a reader sees, \<open>put\<close> the update operation, \<open>wf\<close> the store's invariant.\<close>

locale job_table =
  fixes view :: "'s \<Rightarrow> pystr \<Rightarrow> job_record option"
    and put :: "instant \<Rightarrow> job_record \<Rightarrow> ('s, job_record) act"
    and wf :: "'s \<Rightarrow> bool"
  assumes put_ok: "wf s \<Longrightarrow> put now r s = (Inr r', s') \<Longrightarrow>
      wf s' \<and> (\<exists>old. view s (job_id r) = Some old \<and> move_ok old r \<and> r' = stamp now old r
        \<and> view s' = (view s)(job_id r \<mapsto> r'))"
    and put_err: "put now r s = (Inl e, s') \<Longrightarrow> s' = s"
begin

lemma put_wf: "wf s \<Longrightarrow> wf (snd (put now r s))"
  by (cases "put now r s"; cases "fst (put now r s)") (auto dest: put_ok put_err)

text \<open>Whatever the write, and whether or not it succeeds, no record vanishes or moves backwards.\<close>

lemma put_evolves:
  assumes "wf s" and "view s i = Some a"
  shows "\<exists>b. view (snd (put now r s)) i = Some b \<and> evolves a b"
proof (cases "put now r s")
  case (Pair x s')
  show ?thesis
  proof (cases x)
    case (Inl e)
    with Pair have "s' = s" by (auto dest: put_err)
    with Pair assms show ?thesis by simp
  next
    case (Inr r')
    with Pair assms put_ok obtain old where
      "view s (job_id r) = Some old" "move_ok old r" "r' = stamp now old r"
      "view s' = (view s)(job_id r \<mapsto> r')" by blast
    with assms Pair show ?thesis by (auto simp: evolves_stamp)
  qed
qed

text \<open>A failing write that succeeds leaves a \<open>FAILED\<close> record.\<close>

lemma put_failing:
  assumes "wf s" and "failing f j = Inr b" and "put now b s = (Inr r', s')"
  shows "view s' (job_id b) = Some r' \<and> job_state r' = FAILED \<and> failure_stage r' = failure_stage b
    \<and> error r' = error b"
proof -
  have "job_state b = FAILED" using assms(2) by (auto simp: failing_def)
  with put_ok [OF assms(1,3)] show ?thesis by auto
qed

end

end
