(* ===== verification/Redaction.thy ===== *)
theory Redaction
  imports Regex
begin

text \<open>
  Secret detection and redaction, \<^verbatim>\<open>src/groundtruth/redaction.py\<close>: the eight credential patterns,
  \<open>contains_secret\<close> and \<open>redact\<close>.
\<close>

definition placeholder :: pystr where
  "placeholder = lit ''[redacted]''"

definition caps_space :: re where
  "caps_space = Star True (Cls False [Rng 65 90, Rng 32 32])"

definition alnums :: "citem list" where
  "alnums = [Rng 65 90, Rng 97 122, Rng 48 57]"

definition pat_key_block :: re where
  "pat_key_block = SeqL [Str (lit ''-----BEGIN ''), caps_space, Str (lit ''PRIVATE KEY-----''),
     Star False DotAll, Str (lit ''-----END ''), caps_space, Str (lit ''PRIVATE KEY-----'')]"

definition pat_key_header :: re where
  "pat_key_header = SeqL [Str (lit ''-----BEGIN ''), caps_space, Str (lit ''PRIVATE KEY-----'')]"

definition pat_sk :: re where
  "pat_sk = SeqL [Wb, Str (lit ''sk-''), RepMin 16 (Cls False alnums)]"

definition pat_ghp :: re where
  "pat_ghp = SeqL [Wb, Str (lit ''ghp_''), RepMin 20 (Cls False alnums)]"

definition pat_github_pat :: re where
  "pat_github_pat = SeqL [Wb, Str (lit ''github_pat_''), RepMin 20 (Cls False (alnums @ [Rng 95 95]))]"

definition pat_akia :: re where
  "pat_akia = SeqL [Wb, Str (lit ''AKIA''), Rep 16 (Cls False [Rng 48 57, Rng 65 90]), Wb]"

definition pat_slack :: re where
  "pat_slack = SeqL [Wb, Str (lit ''xox''), Cls False (map (\<lambda>c. Rng c c) (lit ''baprs'')),
     Chr 45, RepMin 10 (Cls False (alnums @ [Rng 45 45]))]"

definition pat_bearer :: re where
  "pat_bearer = SeqL [Cls False [Rng 66 66, Rng 98 98], Str (lit ''earer''),
     Plus (Cls False [CSpace]),
     RepMin 20 (Cls False (alnums @ map (\<lambda>c. Rng c c) (lit ''._~+/-'')))]"

definition secret_patterns :: "re list" where
  "secret_patterns = [pat_key_block, pat_key_header, pat_sk, pat_ghp, pat_github_pat, pat_akia,
     pat_slack, pat_bearer]"

definition contains_secret :: "ucd \<Rightarrow> pystr \<Rightarrow> bool" where
  "contains_secret u text = list_ex (\<lambda>p. re_search (word_char u) p text \<noteq> None) secret_patterns"

definition redact :: "ucd \<Rightarrow> pystr \<Rightarrow> pystr" where
  "redact u text = foldl (\<lambda>t p. re_sub (word_char u) p (\<lambda>_. placeholder) t) text secret_patterns"

lemma foldl_sub_id:
  "list_all (\<lambda>p. re_search w p t = None) ps \<Longrightarrow> foldl (\<lambda>t p. re_sub w p f t) t ps = t"
  by (induction ps) (auto simp: re_sub_no_match)

lemma redact_clean: "\<not> contains_secret u t \<Longrightarrow> redact u t = t"
  unfolding redact_def contains_secret_def
  by (rule foldl_sub_id) (simp add: list_ex_iff list_all_iff)

lemma redact_append_id: "\<not> contains_secret u (redact u t) \<Longrightarrow> redact u (redact u t) = redact u t"
  by (rule redact_clean)

end
