(* ===== verification/JobStore.thy ===== *)
theory JobStore
  imports Lifecycle Redaction
begin

text \<open>
  \<^verbatim>\<open>src/groundtruth/storage/job_store.py\<close>: one file per job under the state directory.

  A directory is an association list from job ids to files in the order the directory lists them.
  A file is what reading it gives: the record that was written (JSON and pydantic read back what they
  wrote), or the exception that \<open>json.loads\<close>, the decoder or the model validation raises on it.
  The clock is an argument of the operations; it also stamps the modification times.
\<close>

section \<open>State\<close>

datatype job_file = Stored job_record | Unreadable exn

record job_dir =
  job_files :: "(pystr \<times> job_file \<times> instant) list"
  quarantined :: "(pystr \<times> job_file) list"
  reasons :: "(pystr \<times> message) list"

text \<open>The configuration: retention in clock units, and the JSON text of a record (pydantic's
  \<open>model_dump\<close> followed by \<open>json.dumps\<close>), which is what is searched for secrets.\<close>

record store_cfg =
  retention :: int
  dump :: "job_record \<Rightarrow> pystr"
  cfg_ucd :: ucd

text \<open>\<open>_ID_RE\<close>: \<open>^[A-Za-z0-9._-]+$\<close>.\<close>

definition id_re :: re where
  "id_re = SeqL [Bos, Plus (Cls False [Rng 65 90, Rng 97 122, Rng 48 57, Rng 46 46, Rng 95 95, Rng 45 45]), Eol]"

definition id_ok :: "pystr \<Rightarrow> bool" where
  "id_ok i \<longleftrightarrow> re_match (\<lambda>_. False) id_re i \<noteq> None"

definition id_char :: "uchar \<Rightarrow> bool" where
  "id_char c \<longleftrightarrow> 65 \<le> c \<and> c \<le> 90 \<or> 97 \<le> c \<and> c \<le> 122 \<or> 48 \<le> c \<and> c \<le> 57 \<or> c = 46 \<or> c = 95 \<or> c = 45"

lemma id_ok_iff: "id_ok i \<longleftrightarrow>
    (\<exists>j. j \<noteq> [] \<and> list_all id_char j \<and> (i = j \<or> i = j @ [10]))"
proof -
  have "lang (\<lambda>_. False) (Plus (Cls False [Rng 65 90, Rng 97 122, Rng 48 57, Rng 46 46, Rng 95 95, Rng 45 45]))
      (\<lambda>j. j \<noteq> [] \<and> list_all id_char j)"
    by (rule lang_cong [OF lang_Plus_Cls])
      (auto simp: id_char_def cls_ok_def list_all_iff)
  from re_match_anchored [OF this] show ?thesis
    unfolding id_ok_def id_re_def SeqL.simps by blast
qed

text \<open>An accepted id has no path separator: the file stays in the jobs directory.\<close>

lemma id_ok_no_slash: "id_ok i \<Longrightarrow> 47 \<notin> set i"
  unfolding id_ok_iff by (force simp: list_all_iff id_char_def)

definition activity_key :: "job_record \<Rightarrow> instant option" where
  "activity_key r = (case updated_at r of Some t \<Rightarrow> Some t | None \<Rightarrow> created_at r)"

text \<open>\<open>_EPOCH\<close>, the least instant, is below every stamp.\<close>

definition activity_le :: "job_record \<Rightarrow> job_record \<Rightarrow> bool" where
  "activity_le a b \<longleftrightarrow> (case activity_key a of None \<Rightarrow> True
     | Some s \<Rightarrow> (case activity_key b of None \<Rightarrow> False | Some t \<Rightarrow> s \<le> t))"

section \<open>Operations\<close>

definition check_id :: "pystr \<Rightarrow> unit res" where
  "check_id i = guardR (id_ok i) (exc JobStoreError [Lit ''unsafe job id '', Repr i])"

definition assert_no_secrets :: "store_cfg \<Rightarrow> job_record \<Rightarrow> unit res" where
  "assert_no_secrets cfg r = guardR (\<not> contains_secret (cfg_ucd cfg) (dump cfg r))
    (exc JobStoreError [Lit ''job record appears to contain a secret; secrets are environment variables only''])"

definition write_job :: "store_cfg \<Rightarrow> instant \<Rightarrow> job_record \<Rightarrow> (job_dir, unit) act" where
  "write_job cfg now r d =
    (case bindR (assert_no_secrets cfg r) (\<lambda>_. check_id (job_id r)) of
       Inl e \<Rightarrow> (Inl e, d)
     | Inr _ \<Rightarrow> (Inr (), d\<lparr>job_files := dict_set (job_id r) (Stored r, now) (job_files d)\<rparr>))"

definition load_job :: "job_dir \<Rightarrow> pystr \<Rightarrow> job_record option res" where
  "load_job d i =
    bindR (check_id i) (\<lambda>_.
      case map_of (job_files d) i of
        None \<Rightarrow> Inr None
      | Some (Stored r, _) \<Rightarrow> Inr (Some r)
      | Some (Unreadable e, _) \<Rightarrow> Inl e)"

definition quarantine :: "pystr \<Rightarrow> message \<Rightarrow> (job_dir, unit) act" where
  "quarantine i reason d =
    (case check_id i of
       Inl e \<Rightarrow> (Inl e, d)
     | Inr _ \<Rightarrow>
        (case map_of (job_files d) i of
           None \<Rightarrow> (Inl (exc OSError [Lit ''No such file'']), d)
         | Some (f, _) \<Rightarrow> (Inr (),
             d\<lparr>job_files := dict_del i (job_files d),
               quarantined := dict_set i f (quarantined d),
               reasons := (if reason = [] then reasons d else dict_set i reason (reasons d))\<rparr>)))"

definition create_job :: "store_cfg \<Rightarrow> instant \<Rightarrow> job_record \<Rightarrow> (job_dir, job_record) act" where
  "create_job cfg now r d =
    (case check_id (job_id r) of
       Inl e \<Rightarrow> (Inl e, d)
     | Inr _ \<Rightarrow>
        if map_of (job_files d) (job_id r) \<noteq> None
        then (Inl (exc JobStoreError [Lit ''job '', Repr (job_id r), Lit '' already exists'']), d)
        else let r' = r\<lparr>created_at := Some now, updated_at := Some now\<rparr>
             in bindA (write_job cfg now r') (\<lambda>_. retA r') d)"

definition update_job :: "store_cfg \<Rightarrow> instant \<Rightarrow> job_record \<Rightarrow> (job_dir, job_record) act" where
  "update_job cfg now r d =
    (case load_job d (job_id r) of
       Inl e \<Rightarrow> (Inl e, d)
     | Inr None \<Rightarrow> (Inl (exc JobStoreError [Lit ''no such job '', Repr (job_id r)]), d)
     | Inr (Some existing) \<Rightarrow>
        if job_state r \<noteq> job_state existing \<and> \<not> can_transition_to existing (job_state r)
        then (Inl (illegal_transition (job_state existing) (job_state r)), d)
        else let r' = stamp now existing r in bindA (write_job cfg now r') (\<lambda>_. retA r') d)"

definition list_ids :: "job_dir \<Rightarrow> pystr list" where
  "list_ids d = sort (map fst (job_files d))"

text \<open>A Python slice \<open>xs[:n]\<close>.\<close>

definition slice_to :: "int \<Rightarrow> 'a list \<Rightarrow> 'a list" where
  "slice_to n xs = (if 0 \<le> n then take (nat n) xs else take (length xs - nat (- n)) xs)"

fun readable :: "job_file list \<Rightarrow> job_record list res" where
  "readable [] = Inr []"
| "readable (Stored r # fs) = bindR (readable fs) (\<lambda>rs. Inr (r # rs))"
| "readable (Unreadable e # fs) =
    (if isinstance e OSError \<or> isinstance e ValueError then readable fs else Inl e)"

text \<open>\<open>records.sort(key=\<dots>, reverse=True)\<close> is stable: equal keys keep their order.\<close>

fun insert_recent :: "job_record \<Rightarrow> job_record list \<Rightarrow> job_record list" where
  "insert_recent r [] = [r]"
| "insert_recent r (x # xs) = (if activity_le x r then r # x # xs else x # insert_recent r xs)"

definition sort_recent :: "job_record list \<Rightarrow> job_record list" where
  "sort_recent rs = foldr insert_recent rs []"

definition list_recent :: "job_dir \<Rightarrow> int \<Rightarrow> job_record list res" where
  "list_recent d limit =
    bindR (readable (map (fst \<circ> snd) (job_files d))) (\<lambda>rs. Inr (slice_to limit (sort_recent rs)))"

text \<open>The sweep visits the files in the order of their names, \<open>.json\<close> included.\<close>

definition file_names :: "job_dir \<Rightarrow> pystr list" where
  "file_names d = sort_key (\<lambda>i. i @ lit ''.json'') (map fst (job_files d))"

definition mtime :: "job_dir \<Rightarrow> pystr \<Rightarrow> instant" where
  "mtime d i = (case map_of (job_files d) i of Some (_, t) \<Rightarrow> t | None \<Rightarrow> 0)"

fun sweep_loop :: "instant \<Rightarrow> pystr list \<Rightarrow> (job_dir, pystr list) act" where
  "sweep_loop cutoff [] d = (Inr [], d)"
| "sweep_loop cutoff (i # is) d =
    (case load_job d i of
       Inl e \<Rightarrow> if isinstance e ValueError then sweep_loop cutoff is d else (Inl e, d)
     | Inr None \<Rightarrow> sweep_loop cutoff is d
     | Inr (Some r) \<Rightarrow>
        if \<not> terminal (job_state r) then sweep_loop cutoff is d
        else if mtime d i < cutoff
        then bindA (sweep_loop cutoff is) (\<lambda>rest. retA (job_id r # rest))
               (d\<lparr>job_files := dict_del i (job_files d)\<rparr>)
        else sweep_loop cutoff is d)"

definition sweep :: "store_cfg \<Rightarrow> instant \<Rightarrow> (job_dir, pystr list) act" where
  "sweep cfg now d = sweep_loop (now - retention cfg) (file_names d) d"

section \<open>Invariant and functional behaviour\<close>

text \<open>What the operations keep: one file per id, ids are safe, a record sits under its own id, and
  what makes a file unreadable is a \<open>ValueError\<close> (a JSON, decoding or validation error).\<close>

definition file_ok :: "pystr \<Rightarrow> job_file \<Rightarrow> bool" where
  "file_ok i f \<longleftrightarrow> id_ok i \<and> (case f of Stored r \<Rightarrow> job_id r = i | Unreadable e \<Rightarrow> isinstance e ValueError)"

definition store_wf :: "job_dir \<Rightarrow> bool" where
  "store_wf d \<longleftrightarrow> distinct (map fst (job_files d)) \<and> list_all (\<lambda>(i, f, _). file_ok i f) (job_files d)"

text \<open>The record a reader sees under an id, if any.\<close>

definition record_of :: "job_dir \<Rightarrow> pystr \<Rightarrow> job_record option" where
  "record_of d i = (case load_job d i of Inr (Some r) \<Rightarrow> Some r | _ \<Rightarrow> None)"

lemma check_id_simps [guard_simps]:
  "check_id i = Inr u \<longleftrightarrow> id_ok i"
  "check_id i = Inl e \<longleftrightarrow> \<not> id_ok i \<and> e = exc JobStoreError [Lit ''unsafe job id '', Repr i]"
  by (auto simp: check_id_def)

lemma map_of_file_ok: "store_wf d \<Longrightarrow> map_of (job_files d) i = Some (f, t) \<Longrightarrow> file_ok i f"
  by (auto simp: store_wf_def list_all_iff dest!: map_of_SomeD)

lemma load_job_Some [guard_simps]:
  "load_job d i = Inr (Some r) \<longleftrightarrow> id_ok i \<and> (\<exists>t. map_of (job_files d) i = Some (Stored r, t))"
  by (auto simp: load_job_def guard_simps split: option.splits job_file.splits)

lemma load_job_None [guard_simps]:
  "load_job d i = Inr None \<longleftrightarrow> id_ok i \<and> map_of (job_files d) i = None"
  by (auto simp: load_job_def guard_simps split: option.splits job_file.splits)

lemma record_of_eq [guard_simps]:
  "record_of d i = Some r \<longleftrightarrow> id_ok i \<and> (\<exists>t. map_of (job_files d) i = Some (Stored r, t))"
  by (auto simp: record_of_def guard_simps[symmetric] split: sum.splits option.splits)

lemma record_of_id: "store_wf d \<Longrightarrow> record_of d i = Some r \<Longrightarrow> job_id r = i"
  by (auto simp: guard_simps file_ok_def dest!: map_of_file_ok)

text \<open>A write: nothing happens on an error; otherwise the file is the new record and the others stay.\<close>

definition storable :: "store_cfg \<Rightarrow> job_record \<Rightarrow> bool" where
  "storable cfg r \<longleftrightarrow> id_ok (job_id r) \<and> \<not> contains_secret (cfg_ucd cfg) (dump cfg r)"

lemma write_job_Inr: "write_job cfg now r d = (Inr u, d') \<longleftrightarrow>
    storable cfg r \<and> d' = d\<lparr>job_files := dict_set (job_id r) (Stored r, now) (job_files d)\<rparr>"
  by (auto simp: write_job_def storable_def assert_no_secrets_def check_id_def guardR_def)

lemma write_job_Inl: "write_job cfg now r d = (Inl e, d') \<Longrightarrow> \<not> storable cfg r \<and> d' = d"
  by (auto simp: write_job_def storable_def assert_no_secrets_def check_id_def guardR_def
      split: if_splits)

lemma write_wf:
  assumes "store_wf d" and "job_id r = i" and "id_ok i"
  shows "store_wf (d\<lparr>job_files := dict_set i (Stored r, t) (job_files d)\<rparr>)"
proof -
  let ?d = "dict_set i (Stored r, t) (job_files d)"
  have dist: "distinct (map fst ?d)" using assms by (simp add: store_wf_def distinct_dict_set)
  have "file_ok j f" if "(j, f, t') \<in> set ?d" for j f t'
  proof -
    from that dist have "map_of ?d j = Some (f, t')" by simp
    then show ?thesis using assms map_of_file_ok [OF assms(1)]
      by (auto simp: store_simps file_ok_def split: if_splits)
  qed
  with dist show ?thesis by (auto simp: store_wf_def list_all_iff)
qed

lemma delete_wf: "store_wf d \<Longrightarrow> store_wf (d\<lparr>job_files := dict_del i (job_files d)\<rparr>)"
  by (auto simp: store_wf_def distinct_dict_del list_all_iff)
    (auto simp: dict_del_def AList.delete_eq)

lemma record_of_write:
  "id_ok i \<Longrightarrow> record_of (d\<lparr>job_files := dict_set i (Stored r, t) (job_files d)\<rparr>) = (record_of d)(i \<mapsto> r)"
  by (rule ext) (auto simp: record_of_def load_job_def store_simps check_id_def guardR_def)

lemma update_job_Inr:
  "update_job cfg now r d = (Inr r', d') \<longleftrightarrow>
    (\<exists>old. record_of d (job_id r) = Some old \<and> move_ok old r \<and> r' = stamp now old r
      \<and> storable cfg r' \<and> d' = d\<lparr>job_files := dict_set (job_id r) (Stored r', now) (job_files d)\<rparr>)"
proof (cases "load_job d (job_id r)")
  case (Inl e)
  then have "record_of d (job_id r) = None" by (simp add: record_of_def)
  with Inl show ?thesis by (simp add: update_job_def)
next
  case (Inr a)
  show ?thesis
  proof (cases a)
    case None
    with Inr have "record_of d (job_id r) = None" by (simp add: record_of_def)
    with Inr None show ?thesis by (simp add: update_job_def)
  next
    case (Some old)
    with Inr have "record_of d (job_id r) = Some old" by (simp add: record_of_def)
    with Inr Some show ?thesis
      by (auto simp: update_job_def Let_def bindA_ok write_job_Inr move_ok_def)
  qed
qed

lemma update_job_Inl: "update_job cfg now r d = (Inl e, d') \<Longrightarrow> d' = d"
  by (auto simp: update_job_def Let_def bindA_err split: sum.splits option.splits if_splits
      dest!: write_job_Inl)

lemma create_job_Inr:
  "create_job cfg now r d = (Inr r', d') \<longleftrightarrow>
    map_of (job_files d) (job_id r) = None
    \<and> r' = r\<lparr>created_at := Some now, updated_at := Some now\<rparr>
    \<and> storable cfg r' \<and> d' = d\<lparr>job_files := dict_set (job_id r) (Stored r', now) (job_files d)\<rparr>"
  by (auto simp: create_job_def Let_def bindA_ok write_job_Inr guard_simps storable_def
      simp del: not_None_eq split: sum.splits)

lemma create_job_Inl: "create_job cfg now r d = (Inl e, d') \<Longrightarrow> d' = d"
  by (auto simp: create_job_def Let_def bindA_err split: sum.splits if_splits dest!: write_job_Inl)


section \<open>The store is a job table\<close>

interpretation js: job_table record_of "update_job cfg" store_wf for cfg
proof
  fix s s' :: job_dir and now r r'
  assume wf: "store_wf s" and u: "update_job cfg now r s = (Inr r', s')"
  then obtain old where old: "record_of s (job_id r) = Some old" "move_ok old r" "r' = stamp now old r"
      "storable cfg r'" "s' = s\<lparr>job_files := dict_set (job_id r) (Stored r', now) (job_files s)\<rparr>"
    unfolding update_job_Inr by blast
  then have "id_ok (job_id r')" "job_id r' = job_id r" by (simp_all add: storable_def)
  with old wf show "store_wf s' \<and> (\<exists>old. record_of s (job_id r) = Some old \<and> move_ok old r
      \<and> r' = stamp now old r \<and> record_of s' = (record_of s)(job_id r \<mapsto> r'))"
    using write_wf [of s r' "job_id r" now] record_of_write [of "job_id r" r' now s] by auto
next
  show "\<And>now r s e s'. update_job cfg now r s = (Inl e, s') \<Longrightarrow> s' = s"
    by (rule update_job_Inl)
qed

section \<open>The sweep\<close>

text \<open>What a sweep with a given cutoff removes: a readable terminal record, last modified before.\<close>

definition expired :: "instant \<Rightarrow> job_dir \<Rightarrow> pystr \<Rightarrow> bool" where
  "expired cutoff d i \<longleftrightarrow>
    (case record_of d i of Some r \<Rightarrow> terminal (job_state r) \<and> mtime d i < cutoff | None \<Rightarrow> False)"

definition without :: "(pystr \<Rightarrow> bool) \<Rightarrow> job_dir \<Rightarrow> job_dir" where
  "without P d = d\<lparr>job_files := filter (\<lambda>(i, _). \<not> P i) (job_files d)\<rparr>"

lemma without_del: "d\<lparr>job_files := dict_del i (job_files d)\<rparr> = without (\<lambda>j. j = i) d"
  unfolding without_def dict_del_def AList.delete_eq
  by (rule arg_cong [where f = "\<lambda>x. d\<lparr>job_files := x\<rparr>"], rule filter_cong) auto

lemma without_without: "without P (without Q d) = without (\<lambda>i. P i \<or> Q i) d"
proof -
  have "filter (\<lambda>(i, _). \<not> P i) (filter (\<lambda>(i, _). \<not> Q i) xs) = filter (\<lambda>(i, _). \<not> (P i \<or> Q i)) xs"
    for xs :: "(pystr \<times> job_file \<times> instant) list"
    unfolding filter_filter by (rule filter_cong) auto
  then show ?thesis by (simp add: without_def)
qed

lemma map_of_filter_key: "map_of (filter (\<lambda>(k, _). Q k) xs) i = (if Q i then map_of xs i else None)"
  by (induction xs) auto

lemma map_of_without: "map_of (job_files (without P d)) i = (if P i then None else map_of (job_files d) i)"
  by (simp add: without_def map_of_filter_key)

lemma load_without: "\<not> P i \<Longrightarrow> load_job (without P d) i = load_job d i"
  by (simp add: load_job_def map_of_without)

lemma expired_without: "expired c (without P d) i \<longleftrightarrow> \<not> P i \<and> expired c d i"
proof (cases "P i")
  case True
  then show ?thesis
    by (auto simp: expired_def record_of_def load_job_def map_of_without split: sum.splits option.splits)
next
  case False
  then have "mtime (without P d) i = mtime d i" by (simp add: mtime_def map_of_without)
  with False show ?thesis by (simp add: expired_def record_of_def load_without split: option.split)
qed

lemma without_wf: "store_wf d \<Longrightarrow> store_wf (without P d)"
  by (auto simp: store_wf_def without_def list_all_iff distinct_map_filter)

lemma sweep_loop_spec:
  "store_wf d \<Longrightarrow> distinct is \<Longrightarrow> \<forall>i \<in> set is. id_ok i \<Longrightarrow>
    sweep_loop c is d = (Inr (filter (expired c d) is), without (\<lambda>i. i \<in> set is \<and> expired c d i) d)"
proof (induction "is" arbitrary: d)
  case Nil
  then show ?case by (simp add: without_def)
next
  case (Cons i "is")
  then have i: "id_ok i" "i \<notin> set is" "distinct is" "\<forall>i \<in> set is. id_ok i" by auto
  note IH = Cons.IH [OF _ i(3,4)]
  show ?case
  proof (cases "expired c d i")
    case True
    then obtain r where r: "record_of d i = Some r" "terminal (job_state r)" "mtime d i < c"
      by (auto simp: expired_def split: option.splits)
    then have l: "load_job d i = Inr (Some r)" by (auto simp: record_of_def split: sum.splits option.splits)
    let ?d = "without (\<lambda>j. j = i) d"
    have f: "filter (expired c ?d) is = filter (expired c d) is"
      using i(2) by (auto simp: expired_without intro: filter_cong)
    have w: "without (\<lambda>j. j \<in> set is \<and> expired c ?d j) ?d
        = without (\<lambda>j. j \<in> set (i # is) \<and> expired c d j) d"
      using True i(2) unfolding without_without expired_without by (auto intro!: arg_cong2 [where f = without])
    from IH [OF without_wf [OF Cons.prems(1)], of "\<lambda>j. j = i"]
    have "sweep_loop c is ?d = (Inr (filter (expired c d) is), without (\<lambda>j. j \<in> set (i # is) \<and> expired c d j) d)"
      unfolding f w .
    with l r True record_of_id [OF Cons.prems(1) r(1)] show ?thesis
      by (simp add: without_del bindA_def)
  next
    case False
    have e: "isinstance e ValueError" if l: "load_job d i = Inl e" for e
    proof -
      obtain t where "map_of (job_files d) i = Some (Unreadable e, t)"
        using l i(1) by (auto simp: load_job_def check_id_def split: option.splits job_file.splits)
      from map_of_file_ok [OF Cons.prems(1) this] show ?thesis unfolding file_ok_def by simp
    qed
    have "sweep_loop c (i # is) d = sweep_loop c is d"
      using False e by (auto simp: expired_def record_of_def split: sum.splits option.splits)
    moreover have "without (\<lambda>j. j \<in> set (i # is) \<and> expired c d j) d
        = without (\<lambda>j. j \<in> set is \<and> expired c d j) d"
      using False by (auto intro!: arg_cong2 [where f = without])
    ultimately show ?thesis using IH [OF Cons.prems(1)] False by simp
  qed
qed

lemma set_file_names [simp]: "set (file_names d) = fst ` set (job_files d)"
  by (simp add: file_names_def)

lemma sweep_spec:
  assumes "store_wf d"
  shows "sweep cfg now d =
    (Inr (filter (expired (now - retention cfg) d) (file_names d)),
     without (expired (now - retention cfg) d) d)"
proof -
  have "distinct (file_names d)" using assms by (simp add: file_names_def store_wf_def)
  moreover have "\<forall>i \<in> set (file_names d). id_ok i"
    using assms by (auto simp: store_wf_def list_all_iff file_ok_def)
  ultimately have "sweep cfg now d = (Inr (filter (expired (now - retention cfg) d) (file_names d)),
      without (\<lambda>i. i \<in> set (file_names d) \<and> expired (now - retention cfg) d i) d)"
    unfolding sweep_def by (rule sweep_loop_spec [OF assms])
  moreover have "without (\<lambda>i. i \<in> set (file_names d) \<and> expired c d i) d = without (expired c d) d" for c
    unfolding without_def set_file_names
    by (rule arg_cong [where f = "\<lambda>x. d\<lparr>job_files := x\<rparr>"], rule filter_cong) force+
  ultimately show ?thesis by simp
qed


section \<open>Histories\<close>

text \<open>Every way the program changes the directory, and the state after a sequence of them, failed
  ones included.\<close>

datatype store_op =
    OpCreate instant job_record
  | OpUpdate instant job_record
  | OpSweep instant
  | OpQuarantine pystr message

fun run_op :: "store_cfg \<Rightarrow> store_op \<Rightarrow> job_dir \<Rightarrow> job_dir" where
  "run_op cfg (OpCreate now r) d = snd (create_job cfg now r d)"
| "run_op cfg (OpUpdate now r) d = snd (update_job cfg now r d)"
| "run_op cfg (OpSweep now) d = snd (sweep cfg now d)"
| "run_op cfg (OpQuarantine i m) d = snd (quarantine i m d)"

fun run_ops :: "store_cfg \<Rightarrow> store_op list \<Rightarrow> job_dir \<Rightarrow> job_dir" where
  "run_ops cfg [] d = d"
| "run_ops cfg (x # xs) d = run_ops cfg xs (run_op cfg x d)"

text \<open>The operation cannot delete the file of job \<open>i\<close>.\<close>

fun keeps :: "pystr \<Rightarrow> store_op \<Rightarrow> bool" where
  "keeps i (OpSweep _) = False"
| "keeps i (OpQuarantine j _) = (j \<noteq> i)"
| "keeps i _ = True"

lemma create_job_cases:
  obtains "snd (create_job cfg now r d) = d"
  | r' where "map_of (job_files d) (job_id r) = None" "job_id r' = job_id r" "id_ok (job_id r')"
      "snd (create_job cfg now r d) = d\<lparr>job_files := dict_set (job_id r) (Stored r', now) (job_files d)\<rparr>"
proof (cases "create_job cfg now r d")
  case (Pair x d')
  show ?thesis
  proof (cases x)
    case (Inl e)
    with Pair that(1) show ?thesis by (auto dest: create_job_Inl)
  next
    case (Inr r')
    with Pair have "create_job cfg now r d = (Inr r', d')" by simp
    then show ?thesis unfolding create_job_Inr
      using that(2) [of r'] Pair by (auto simp: storable_def simp del: not_None_eq)
  qed
qed

lemma quarantine_view:
  "record_of (snd (quarantine i m d)) = record_of d \<or>
    record_of (snd (quarantine i m d)) = (record_of d)(i := None)"
proof -
  have "record_of d' = (record_of d)(i := None)" if "job_files d' = dict_del i (job_files d)" for d' :: job_dir
    by (rule ext) (simp add: record_of_def load_job_def that store_simps check_id_def guardR_def
        split: sum.split)
  then show ?thesis unfolding quarantine_def by (simp split: sum.split option.split)
qed

lemma quarantine_wf: "store_wf d \<Longrightarrow> store_wf (snd (quarantine i m d))"
  unfolding quarantine_def using delete_wf [of d i]
  by (auto simp: store_wf_def split: sum.split option.split)

lemma run_op_wf: "store_wf d \<Longrightarrow> store_wf (run_op cfg x d)"
proof (cases x)
  case (OpCreate now r)
  assume "store_wf d"
  with OpCreate show ?thesis
    by (cases rule: create_job_cases [of cfg now r d]) (simp_all add: write_wf)
qed (simp_all add: js.put_wf sweep_spec without_wf quarantine_wf)

lemma run_op_keeps:
  assumes "store_wf d" and "record_of d i = Some a" and "keeps i x"
  shows "\<exists>b. record_of (run_op cfg x d) i = Some b \<and> evolves a b"
proof (cases x)
  case (OpCreate now r)
  show ?thesis
  proof (cases rule: create_job_cases [of cfg now r d])
    case 1
    with OpCreate assms show ?thesis by simp
  next
    case (2 r')
    then have "i \<noteq> job_id r'" using assms(2) by (auto simp: guard_simps)
    with 2 OpCreate assms show ?thesis by (simp add: record_of_write)
  qed
next
  case (OpUpdate now r)
  with js.put_evolves [OF assms(1,2)] show ?thesis by simp
next
  case (OpQuarantine j m)
  with quarantine_view [of j m d] assms show ?thesis by auto
qed (use assms in simp_all)

section \<open>Properties\<close>

text \<open>
  However long the sequence of creations, updates and quarantines of other jobs that follows,
  failed operations included, a job's record stays readable, its state only moves forward along the
  legal transitions, a terminal state never changes again, the creation time never changes, and the
  start time never changes once it is stamped.
\<close>

lemma job_history:
  assumes "store_wf d" and "record_of d i = Some a" and "list_all (keeps i) xs"
  shows "\<exists>b. record_of (run_ops cfg xs d) i = Some b \<and> evolves a b"
  using assms
proof (induction xs arbitrary: d a)
  case Nil
  then show ?case by simp
next
  case (Cons x xs)
  then obtain b where "record_of (run_op cfg x d) i = Some b" "evolves a b"
    using run_op_keeps [of d i a x cfg] by auto
  moreover have "store_wf (run_op cfg x d)" using Cons.prems(1) by (rule run_op_wf)
  ultimately show ?case using Cons evolves_trans [of a b] by fastforce
qed

definition demo_cfg :: store_cfg where
  "demo_cfg = \<lparr>retention = 7, dump = job_id, cfg_ucd = ascii_ucd\<rparr>"

definition demo_job :: job_record where
  "demo_job = new_job (lit ''a1'') (lit ''notes'')"

definition demo_dir :: job_dir where
  "demo_dir = \<lparr>job_files = [(lit ''a1'', Stored demo_job, 3)], quarantined = [], reasons = []\<rparr>"

lemma demo_wf: "store_wf demo_dir"
  by code_simp

lemma job_history_witness:
  "\<exists>b. record_of (run_ops demo_cfg [OpUpdate 5 (demo_job\<lparr>job_state := RUNNING\<rparr>),
       OpUpdate 6 (demo_job\<lparr>job_state := SUCCEEDED\<rparr>), OpUpdate 7 demo_job] demo_dir) (lit ''a1'') = Some b
     \<and> evolves demo_job b"
  by (rule job_history [OF demo_wf]) code_simp+

text \<open>
  In a well-formed directory the sweep never raises; it removes, and returns in file-name order,
  exactly the readable records in a terminal state that were last modified before the retention
  cutoff. Every other file, in particular every queued or running job however old, is untouched.
\<close>

lemma sweep_removes_exactly_expired:
  assumes "store_wf d"
  shows "sweep cfg now d =
    (Inr (filter (expired (now - retention cfg) d) (file_names d)),
     d\<lparr>job_files := filter (\<lambda>(i, _). \<not> expired (now - retention cfg) d i) (job_files d)\<rparr>)"
  by (simp add: sweep_spec [OF assms] without_def)

lemma sweep_removes_exactly_expired_witness:
  "sweep demo_cfg 100 (demo_dir\<lparr>job_files := (lit ''b'', Stored ((new_job (lit ''b'') [])\<lparr>job_state := FAILED\<rparr>), 4)
      # job_files demo_dir\<rparr>) = (Inr [lit ''b''], demo_dir)"
  by (subst sweep_removes_exactly_expired; code_simp)

end
