(* ===== verification/Retry.thy ===== *)
theory Retry
  imports JobStore
begin

text \<open>
  \<^verbatim>\<open>src/groundtruth/jobs/retry.py\<close>: transient failures are retried with exponential backoff,
  everything else surfaces at once.  An attempt is an action on a state of any type, given its number;
  the delays slept between attempts are collected in the result.
\<close>

section \<open>The loop\<close>

definition default_max_retries :: nat where
  "default_max_retries = 2"

record 'a retry_result =
  rr_value :: "'a option"
  rr_succeeded :: bool
  rr_attempts :: nat
  rr_errors :: "message list"
  rr_final :: "exn option"
  rr_sleeps :: "int list"

fun retry_loop :: "(nat \<Rightarrow> ('s, 'a) act) \<Rightarrow> nat \<Rightarrow> int \<Rightarrow> nat list \<Rightarrow> message list \<Rightarrow> int list
    \<Rightarrow> ('s, 'a retry_result) act" where
  "retry_loop attempt mx base [] errs sl s = (Inl (exc AssertionError [Lit ''unreachable'']), s)"
| "retry_loop attempt mx base (n # ns) errs sl s =
    (case attempt n s of
       (Inl e, s') \<Rightarrow>
         let errs' = errs @ [emsg e] in
         if is_transient e \<and> n \<le> mx
         then retry_loop attempt mx base ns errs' (sl @ [base * 2 ^ (n - 1)]) s'
         else (Inr \<lparr>rr_value = None, rr_succeeded = False, rr_attempts = n, rr_errors = errs',
                    rr_final = Some e, rr_sleeps = sl\<rparr>, s')
     | (Inr v, s') \<Rightarrow>
         (Inr \<lparr>rr_value = Some v, rr_succeeded = True, rr_attempts = n, rr_errors = errs,
               rr_final = None, rr_sleeps = sl\<rparr>, s'))"

definition run_with_retry :: "(nat \<Rightarrow> ('s, 'a) act) \<Rightarrow> nat \<Rightarrow> int \<Rightarrow> ('s, 'a retry_result) act" where
  "run_with_retry attempt mx base s = retry_loop attempt mx base [1..<mx + 2] [] [] s"

section \<open>The wrapper around a runner\<close>

definition annotate :: "nat \<Rightarrow> message list \<Rightarrow> job_record \<Rightarrow> job_record" where
  "annotate n errs r = r\<lparr>attempts := int n, attempt_errors := errs\<rparr>"

definition exhausted :: "nat \<Rightarrow> message list \<Rightarrow> message \<Rightarrow> job_record \<Rightarrow> job_record" where
  "exhausted n errs m r = (annotate n errs r)\<lparr>failure_stage := Some ''retry-exhausted'', error := Some m\<rparr>"

definition final_message :: "'a retry_result \<Rightarrow> message" where
  "final_message rr = (case rr_final rr of Some e \<Rightarrow> emsg e | None \<Rightarrow> [Lit ''None''])"

definition retrying_runner :: "store_cfg \<Rightarrow> instant \<Rightarrow> (pystr \<Rightarrow> (job_dir, job_record) act)
    \<Rightarrow> nat \<Rightarrow> int \<Rightarrow> pystr \<Rightarrow> (job_dir, job_record) act" where
  "retrying_runner cfg now inner mx base i =
    bindA (run_with_retry (\<lambda>_. inner i) mx base) (\<lambda>rr.
      case (rr_succeeded rr, rr_value rr) of
        (True, Some v) \<Rightarrow> update_job cfg now (annotate (rr_attempts rr) (rr_errors rr) v)
      | _ \<Rightarrow> (\<lambda>d.
          case load_job d i of
            Inl e \<Rightarrow> (Inl e, d)
          | Inr c \<Rightarrow>
              let current = (case c of Some r \<Rightarrow> r | None \<Rightarrow> new_job i []) in
              (case failing (exhausted (rr_attempts rr) (rr_errors rr) (final_message rr)) current of
                 Inl e \<Rightarrow> (Inl e, d)
               | Inr failed \<Rightarrow> update_job cfg now failed d)))"

section \<open>What the loop does\<close>

text \<open>The state after \<open>k\<close> attempts and the outcome of attempt \<open>k + 1\<close>, whatever the outcomes are.\<close>

fun after :: "(nat \<Rightarrow> ('s, 'a) act) \<Rightarrow> nat \<Rightarrow> 's \<Rightarrow> 's" where
  "after attempt 0 s = s"
| "after attempt (Suc k) s = snd (attempt (Suc k) (after attempt k s))"

definition outcome :: "(nat \<Rightarrow> ('s, 'a) act) \<Rightarrow> nat \<Rightarrow> 's \<Rightarrow> 'a res" where
  "outcome attempt k s = fst (attempt (Suc k) (after attempt k s))"

definition is_transient_failure :: "'a res \<Rightarrow> bool" where
  "is_transient_failure r = (case r of Inl e \<Rightarrow> is_transient e | Inr _ \<Rightarrow> False)"

fun err_msg :: "'a res \<Rightarrow> message" where
  "err_msg (Inl e) = emsg e"
| "err_msg (Inr _) = []"

text \<open>The attempt that ends the loop: the first that is not a transient failure, or the last one.\<close>

fun stop_at :: "(nat \<Rightarrow> ('s, 'a) act) \<Rightarrow> nat \<Rightarrow> nat \<Rightarrow> 's \<Rightarrow> nat" where
  "stop_at attempt k 0 s = k"
| "stop_at attempt k (Suc m) s =
    (if is_transient_failure (outcome attempt k s) then stop_at attempt (Suc k) m s else k)"

lemma stop_at_le: "stop_at attempt k m s \<le> k + m"
  by (induction m arbitrary: k) (auto split: if_splits, metis add_Suc)

lemma stop_at_ge: "k \<le> stop_at attempt k m s"
  by (induction m arbitrary: k) (auto intro: Suc_leD)

lemma stop_at_before: "k \<le> j \<Longrightarrow> j < stop_at attempt k m s \<Longrightarrow> is_transient_failure (outcome attempt j s)"
proof (induction m arbitrary: k)
  case (Suc m)
  from Suc.prems Suc.IH [of "Suc k"] show ?case by (cases "j = k") (simp_all split: if_splits)
qed simp

lemma stop_at_end: "stop_at attempt k m s < k + m \<Longrightarrow>
    \<not> is_transient_failure (outcome attempt (stop_at attempt k m s) s)"
proof (induction m arbitrary: k)
  case (Suc m)
  from Suc.IH [of "Suc k"] Suc.prems show ?case by (cases "is_transient_failure (outcome attempt k s)") simp_all
qed simp

definition retry_outcome :: "(nat \<Rightarrow> ('s, 'a) act) \<Rightarrow> int \<Rightarrow> nat \<Rightarrow> 's \<Rightarrow> 'a retry_result" where
  "retry_outcome attempt base k s =
    (case outcome attempt k s of
       Inr v \<Rightarrow> \<lparr>rr_value = Some v, rr_succeeded = True, rr_attempts = Suc k,
         rr_errors = map (\<lambda>j. err_msg (outcome attempt j s)) [0..<k], rr_final = None,
         rr_sleeps = map (\<lambda>j. base * 2 ^ j) [0..<k]\<rparr>
     | Inl e \<Rightarrow> \<lparr>rr_value = None, rr_succeeded = False, rr_attempts = Suc k,
         rr_errors = map (\<lambda>j. err_msg (outcome attempt j s)) [0..<Suc k], rr_final = Some e,
         rr_sleeps = map (\<lambda>j. base * 2 ^ j) [0..<k]\<rparr>)"

lemma retry_loop_spec:
  assumes "mx = k + m"
  shows "retry_loop attempt mx base [Suc k..<mx + 2]
      (map (\<lambda>j. err_msg (outcome attempt j s)) [0..<k]) (map (\<lambda>j. base * 2 ^ j) [0..<k]) (after attempt k s)
    = (Inr (retry_outcome attempt base (stop_at attempt k m s) s),
       after attempt (Suc (stop_at attempt k m s)) s)"
  using assms
proof (induction m arbitrary: k)
  case 0
  then have r: "[Suc k..<mx + 2] = [Suc k]" by simp
  show ?case
    using 0 unfolding r
    by (cases "attempt (Suc k) (after attempt k s)"; cases "fst (attempt (Suc k) (after attempt k s))")
      (simp_all add: retry_outcome_def outcome_def Let_def)
next
  case (Suc m)
  then have r: "[Suc k..<mx + 2] = Suc k # [Suc (Suc k)..<mx + 2]" by (simp add: upt_rec)
  obtain x s' where a: "attempt (Suc k) (after attempt k s) = (x, s')" by fastforce
  then have o: "outcome attempt k s = x" "after attempt (Suc k) s = s'" by (simp_all add: outcome_def)
  show ?case
  proof (cases "is_transient_failure x")
    case True
    then obtain e where e: "x = Inl e" "is_transient e" by (auto simp: is_transient_failure_def split: sum.splits)
    from Suc.IH [of "Suc k"] Suc.prems show ?thesis
      unfolding r using a e o True by (simp add: Let_def)
  next
    case False
    then show ?thesis
      unfolding r using a o Suc.prems
      by (cases x) (simp_all add: Let_def retry_outcome_def is_transient_failure_def)
  qed
qed

lemma run_with_retry_spec:
  "run_with_retry attempt mx base s =
    (Inr (retry_outcome attempt base (stop_at attempt 0 mx s) s),
     after attempt (Suc (stop_at attempt 0 mx s)) s)"
  using retry_loop_spec [of mx 0 mx attempt base s] by (simp add: run_with_retry_def)


section \<open>Properties\<close>

text \<open>
  C26. \<open>run_with_retry\<close> always returns. It stops at attempt \<open>k + 1\<close>, where \<open>k \<le> max_retries\<close>: all
  attempts before it failed transiently, and it either succeeded, failed terminally, or was the last
  one allowed. It made exactly the attempts \<open>1..k+1\<close>, slept \<open>base\<close>, \<open>2 base\<close>, \<open>4 base\<close>, ... between
  them (nothing after the last one), and reports that attempt's outcome and every error in order.
\<close>

theorem run_with_retry_policy:
  "\<exists>k \<le> mx. run_with_retry attempt mx base s = (Inr (retry_outcome attempt base k s), after attempt (Suc k) s)
     \<and> list_all (\<lambda>j. is_transient_failure (outcome attempt j s)) [0..<k]
     \<and> (k = mx \<or> \<not> is_transient_failure (outcome attempt k s))
     \<and> length (rr_sleeps (retry_outcome attempt base k s)) = k"
proof (intro exI conjI)
  let ?k = "stop_at attempt 0 mx s"
  show "?k \<le> mx" using stop_at_le [of attempt 0 mx s] by simp
  show "run_with_retry attempt mx base s = (Inr (retry_outcome attempt base ?k s), after attempt (Suc ?k) s)"
    by (rule run_with_retry_spec)
  show "list_all (\<lambda>j. is_transient_failure (outcome attempt j s)) [0..<?k]"
    using stop_at_before [of 0 _ attempt mx s] by (simp add: list_all_iff)
  show "?k = mx \<or> \<not> is_transient_failure (outcome attempt ?k s)"
    using stop_at_end [of attempt 0 mx s] stop_at_le [of attempt 0 mx s] by linarith
  show "length (rr_sleeps (retry_outcome attempt base ?k s)) = ?k"
    by (simp add: retry_outcome_def split: sum.splits)
qed

lemma attempts_annotate [simp]:
  "attempts (annotate n es r) = int n" "attempt_errors (annotate n es r) = es"
  "job_state (annotate n es r) = job_state r" "job_id (annotate n es r) = job_id r"
  by (simp_all add: annotate_def)

lemma exhausted_sel [simp]:
  "attempts (exhausted n es m r) = int n" "attempt_errors (exhausted n es m r) = es"
  "job_state (exhausted n es m r) = job_state r" "job_id (exhausted n es m r) = job_id r"
  "failure_stage (exhausted n es m r) = Some ''retry-exhausted''" "error (exhausted n es m r) = Some m"
  by (simp_all add: exhausted_def)

lemma retry_outcome_sel:
  "rr_attempts (retry_outcome attempt base k s) = Suc k"
  "outcome attempt k s = Inl e \<Longrightarrow> length (rr_errors (retry_outcome attempt base k s)) = Suc k"
  "outcome attempt k s = Inr v \<Longrightarrow> length (rr_errors (retry_outcome attempt base k s)) = k"
  by (simp_all add: retry_outcome_def split: sum.splits)

text \<open>The wrapper when the last attempt failed: the job is read back and forced to \<open>FAILED\<close>.\<close>

lemma retrying_runner_failed:
  assumes rr: "run_with_retry (\<lambda>_. inner i) mx base d = (Inr rr, d1)" and "\<not> rr_succeeded rr"
    and "store_wf d1" and "record_of d1 i = Some c" and "\<not> terminal (job_state c)"
    and "storable cfg (stamp now c ((exhausted (rr_attempts rr) (rr_errors rr) (final_message rr)
           (c\<lparr>job_state := RUNNING\<rparr>))\<lparr>job_state := FAILED\<rparr>))"
  obtains r d2 where "retrying_runner cfg now inner mx base i d = (Inr r, d2)"
    "job_state r = FAILED" "failure_stage r = Some ''retry-exhausted''"
    "attempts r = int (rr_attempts rr)" "attempt_errors r = rr_errors rr" "record_of d2 i = Some r"
    "store_wf d2"
proof -
  let ?f = "exhausted (rr_attempts rr) (rr_errors rr) (final_message rr)"
  let ?b = "(?f (c\<lparr>job_state := RUNNING\<rparr>))\<lparr>job_state := FAILED\<rparr>"
  let ?r = "stamp now c ?b"
  have load: "load_job d1 i = Inr (Some c)"
    using assms(4) by (auto simp: record_of_def split: sum.splits option.splits)
  have i: "job_id c = i" using assms(3,4) by (rule record_of_id)
  have "failing ?f c = Inr ?b" using assms(5) by (simp add: failing_ok)
  moreover have "move_ok c ?b" using assms(5) by (auto simp: move_ok_def not_terminal_iff)
  ultimately have run: "retrying_runner cfg now inner mx base i d =
      (Inr ?r, d1\<lparr>job_files := dict_set i (Stored ?r, now) (job_files d1)\<rparr>)"
    using assms(2,4,6) load i
    by (simp add: retrying_runner_def bindA_def rr Let_def update_job_Inr split: prod.split)
  have idi: "id_ok i" using assms(4) by (simp add: record_of_eq)
  have v: "record_of (d1\<lparr>job_files := dict_set i (Stored ?r, now) (job_files d1)\<rparr>) i = Some ?r"
    unfolding record_of_write [OF idi] by simp
  have wf: "store_wf (d1\<lparr>job_files := dict_set i (Stored ?r, now) (job_files d1)\<rparr>)"
    by (rule write_wf [OF assms(3) _ idi]) (simp add: i)
  show ?thesis by (rule that [OF run _ _ _ _ v wf]) simp_all
qed


lemma after_const:
  "(\<And>d. snd (inner d) = d) \<Longrightarrow> after (\<lambda>_. inner) k s = s"
  by (induction k) simp_all

text \<open>
  A job whose every attempt fails transiently is attempted exactly \<open>max_retries + 1\<close> times and
  then recorded as \<open>FAILED\<close> at the stage \<open>retry-exhausted\<close>, with the number of attempts and one
  error message per attempt in order; readers of the store then see that record. (The attempts must
  leave the store well-formed and the job readable and not yet terminal, and the record must be
  storable, that is, hold no secret.)
\<close>

lemma retries_exhausted:
  assumes "\<forall>k \<le> mx. is_transient_failure (outcome (\<lambda>_. inner i) k d)"
    and d1: "d1 = after (\<lambda>_. inner i) (Suc mx) d"
    and "store_wf d1" and "record_of d1 i = Some c" and "\<not> terminal (job_state c)"
    and "\<And>n es m. storable cfg (stamp now c ((exhausted n es m (c\<lparr>job_state := RUNNING\<rparr>))\<lparr>job_state := FAILED\<rparr>))"
  shows "\<exists>r d2. retrying_runner cfg now inner mx base i d = (Inr r, d2)
    \<and> job_state r = FAILED \<and> failure_stage r = Some ''retry-exhausted''
    \<and> attempts r = int mx + 1
    \<and> attempt_errors r = map (\<lambda>k. err_msg (outcome (\<lambda>_. inner i) k d)) [0..<mx + 1]
    \<and> record_of d2 i = Some r"
proof -
  let ?a = "\<lambda>_::nat. inner i"
  have stop: "stop_at ?a 0 mx d = mx"
    using stop_at_end [of ?a 0 mx d] stop_at_le [of ?a 0 mx d] assms(1) by force
  obtain e where e: "outcome ?a mx d = Inl e"
  proof -
    have "is_transient_failure (outcome ?a mx d)" using assms(1) by blast
    then show ?thesis using that by (simp add: is_transient_failure_def split: sum.splits)
  qed
  have rr: "run_with_retry ?a mx base d = (Inr (retry_outcome ?a base mx d), d1)"
    using run_with_retry_spec [of ?a mx base d] stop d1 by simp
  have sel: "\<not> rr_succeeded (retry_outcome ?a base mx d)" "rr_attempts (retry_outcome ?a base mx d) = Suc mx"
      "rr_errors (retry_outcome ?a base mx d) = map (\<lambda>k. err_msg (outcome ?a k d)) [0..<mx + 1]"
    using e by (simp_all add: retry_outcome_def)
  from retrying_runner_failed [where inner = inner, OF rr sel(1) assms(3,4,5,6)] obtain r d2 where
    "retrying_runner cfg now inner mx base i d = (Inr r, d2)" "job_state r = FAILED"
    "failure_stage r = Some ''retry-exhausted''" "attempts r = int (Suc mx)"
    "attempt_errors r = map (\<lambda>k. err_msg (outcome ?a k d)) [0..<mx + 1]" "record_of d2 i = Some r"
    unfolding sel(2,3) by metis
  then show ?thesis by (intro exI [of _ r] exI [of _ d2]) simp
qed

definition demo_timeout :: "pystr \<Rightarrow> (job_dir, job_record) act" where
  "demo_timeout i d = (Inl (exc ReadTimeoutError [Lit ''timed out'']), d)"

lemma demo_timeout_outcome: "outcome (\<lambda>_. demo_timeout i) k d = Inl (exc ReadTimeoutError [Lit ''timed out''])"
  by (simp add: outcome_def demo_timeout_def)

lemma demo_timeout_after: "after (\<lambda>_. demo_timeout i) k d = d"
  by (rule after_const) (simp add: demo_timeout_def)

lemma retries_exhausted_witness:
  "\<exists>r d2. retrying_runner demo_cfg 9 demo_timeout 2 1 (lit ''a1'') demo_dir = (Inr r, d2)
    \<and> job_state r = FAILED \<and> failure_stage r = Some ''retry-exhausted''
    \<and> attempts r = int 2 + 1
    \<and> attempt_errors r = map (\<lambda>k. err_msg (outcome (\<lambda>_. demo_timeout (lit ''a1'')) k demo_dir)) [0..<2 + 1]
    \<and> record_of d2 (lit ''a1'') = Some r"
proof (rule retries_exhausted)
  show "\<forall>k \<le> 2. is_transient_failure (outcome (\<lambda>_. demo_timeout (lit ''a1'')) k demo_dir)"
    by (simp add: demo_timeout_outcome is_transient_failure_def is_transient_classes transient_classes_def)
  show "demo_dir = after (\<lambda>_. demo_timeout (lit ''a1'')) (Suc 2) demo_dir"
    by (simp add: demo_timeout_after)
  show "store_wf demo_dir" by (rule demo_wf)
  show "record_of demo_dir (lit ''a1'') = Some demo_job" by code_simp
  show "\<not> terminal (job_state demo_job)" by code_simp
  have "id_ok (lit ''a1'')" "\<not> contains_secret ascii_ucd (lit ''a1'')" by code_simp+
  then show "storable demo_cfg (stamp 9 demo_job ((exhausted n es m
      (demo_job\<lparr>job_state := RUNNING\<rparr>))\<lparr>job_state := FAILED\<rparr>))" for n es m
    by (simp add: storable_def demo_cfg_def demo_job_def)
qed

theorem run_with_retry_policy_witness:
  "run_with_retry (\<lambda>_. demo_timeout []) 2 1 demo_dir =
    (Inr (retry_outcome (\<lambda>_. demo_timeout []) 1 2 demo_dir), demo_dir)"
proof -
  from run_with_retry_policy [of 2 "\<lambda>_. demo_timeout []" 1 demo_dir] obtain k where
    "k \<le> 2" "run_with_retry (\<lambda>_. demo_timeout []) 2 1 demo_dir =
      (Inr (retry_outcome (\<lambda>_. demo_timeout []) 1 k demo_dir), after (\<lambda>_. demo_timeout []) (Suc k) demo_dir)"
    "k = 2 \<or> \<not> is_transient_failure (outcome (\<lambda>_. demo_timeout []) k demo_dir)" by blast
  then show ?thesis
    by (simp add: demo_timeout_outcome demo_timeout_after is_transient_failure_def is_transient_classes
        transient_classes_def del: after.simps)
qed

end
