(* ===== verification/Llm.thy ===== *)
theory Llm
  imports Json Retry
begin

text \<open>
  The chat-completions client (\<^verbatim>\<open>src/groundtruth/llm/client.py\<close>) and the part of
  \<^verbatim>\<open>src/groundtruth/config/schema.py\<close> it reads. The HTTP transport is not in the repository: it
  is the field \<open>cl_post\<close>, a function on a world of any type that answers with a timeout, a
  transport error, or a status and a body. \<open>json.loads\<close> of a tool call's argument text is
  \<open>cl_loads\<close> (\<open>None\<close> where it raises \<open>JSONDecodeError\<close>). Sleeping is a world transformer.
\<close>

section \<open>Configuration and values\<close>

record model_config =
  mc_base_url :: pystr
  mc_model :: pystr
  mc_api_key_env :: pystr
  mc_reasoning_effort :: "pystr option"
  mc_params :: "(pystr \<times> json) list"

definition resolve_api_key :: "(pystr \<times> pystr) list \<Rightarrow> model_config \<Rightarrow> pystr option" where
  "resolve_api_key env m = map_of env (mc_api_key_env m)"

record llm_usage =
  u_prompt :: int
  u_completion :: int
  u_total :: int

definition add_usage :: "llm_usage \<Rightarrow> llm_usage \<Rightarrow> llm_usage" where
  "add_usage a b = \<lparr>u_prompt = u_prompt a + u_prompt b, u_completion = u_completion a + u_completion b,
     u_total = u_total a + u_total b\<rparr>"

definition zero_usage :: llm_usage where
  "zero_usage = \<lparr>u_prompt = 0, u_completion = 0, u_total = 0\<rparr>"

definition counts_of_usage :: "llm_usage \<Rightarrow> token_counts" where
  "counts_of_usage u =
    \<lparr>prompt_tokens = u_prompt u, completion_tokens = u_completion u, total_tokens = u_total u\<rparr>"

text \<open>The fields keep whatever JSON the server sent: the client does not check their types.\<close>

record tool_call =
  tc_id :: json
  tc_name :: json
  tc_arguments :: json

record llm_response =
  lr_role :: pystr
  lr_model :: pystr
  lr_text :: json
  lr_tool_calls :: "tool_call list"
  lr_usage :: llm_usage

section \<open>The transport\<close>

record request =
  rq_url :: pystr
  rq_payload :: "(pystr \<times> json) list"
  rq_headers :: "(pystr \<times> pystr) list"

text \<open>\<open>NotJson\<close> and \<open>Undecodable\<close> are the bodies on which \<open>response.json()\<close> raises.\<close>

datatype reply_body = Body json | NotJson | Undecodable

datatype reply = TimedOut | Unreachable | Reply int reply_body

fun body_json :: "reply_body \<Rightarrow> json res" where
  "body_json (Body j) = Inr j"
| "body_json NotJson = Inl (exc JSONDecodeError [Lit ''Expecting value''])"
| "body_json Undecodable = Inl (exc UnicodeError [Lit ''invalid start byte''])"

record 's llm_client =
  cl_models :: "(pystr \<times> model_config) list"
  cl_environ :: "(pystr \<times> pystr) list"
  cl_max_retries :: nat
  cl_backoff :: int
  cl_post :: "request \<Rightarrow> 's \<Rightarrow> reply \<times> 's"
  cl_sleep :: "int \<Rightarrow> 's \<Rightarrow> 's"
  cl_loads :: "pystr \<Rightarrow> json option"

definition default_role :: pystr where
  "default_role = lit ''default''"

definition new_client :: "'s llm_client \<Rightarrow> 's llm_client res" where
  "new_client c =
    bindR (guardR (map_of (cl_models c) default_role \<noteq> None)
      (exc ValueError [Lit ''models must contain a default role''])) (\<lambda>_. Inr c)"

definition model_for :: "'s llm_client \<Rightarrow> pystr \<Rightarrow> model_config res" where
  "model_for c role =
    (case map_of (cl_models c) default_role of
       None \<Rightarrow> Inl (exc KeyError [Repr default_role])
     | Some d \<Rightarrow> Inr (case map_of (cl_models c) role of Some m \<Rightarrow> m | None \<Rightarrow> d))"

section \<open>The payload\<close>

definition reserved_payload_keys :: "pystr list" where
  "reserved_payload_keys = map lit [''model'', ''messages'', ''tools'', ''stream'']"

definition payload_of :: "model_config \<Rightarrow> json list \<Rightarrow> json list \<Rightarrow> (pystr \<times> json) list" where
  "payload_of m msgs tools =
    (let p0 = [(lit ''model'', JStr (mc_model m)), (lit ''messages'', JArr msgs)];
         p1 = fold (\<lambda>(k, v) p. if k \<notin> set reserved_payload_keys then dict_set k v p else p)
                (mc_params m) p0;
         p2 = (case mc_reasoning_effort m of
                 Some e \<Rightarrow> dict_set (lit ''reasoning_effort'') (JStr e) p1 | None \<Rightarrow> p1)
     in if tools \<noteq> [] then dict_set (lit ''tools'') (JArr tools) p2 else p2)"

section \<open>One request\<close>

definition llm_stage :: string where
  "llm_stage = ''llm''"

definition raise_for_status :: "int \<Rightarrow> unit res" where
  "raise_for_status status =
    (if status < 400 then Inr ()
     else if status \<in> set transient_http_status
     then bindR (transient_http_error status [] (Some llm_stage)) Inl
     else Inl (terminal_http_error status [Lit ''LLM returned HTTP '', Num status] (Some llm_stage)))"

definition malformed_output :: "message \<Rightarrow> exn" where
  "malformed_output m = exc_at MalformedLLMOutputError m llm_stage"

text \<open>\<open>except cs\<close>: the exceptions of the listed classes become malformed output.\<close>

definition or_malformed :: "exc_class list \<Rightarrow> string \<Rightarrow> 'a res \<Rightarrow> 'a res" where
  "or_malformed cs what r =
    (case r of
       Inl e \<Rightarrow> Inl (if list_ex (isinstance e) cs then malformed_output (Lit what # emsg e) else e)
     | Inr x \<Rightarrow> Inr x)"

definition response_message :: "reply_body \<Rightarrow> (json \<times> json) res" where
  "response_message b =
    bindR (body_json b) (\<lambda>body.
    bindR (get_item (lit ''choices'') body) (\<lambda>choices.
    bindR (get_index 0 choices) (\<lambda>choice.
    bindR (get_item (lit ''message'') choice) (\<lambda>m. Inr (body, m)))))"

fun load_json :: "(pystr \<Rightarrow> json option) \<Rightarrow> json \<Rightarrow> json res" where
  "load_json loads (JStr s) =
    (case loads s of Some j \<Rightarrow> Inr j | None \<Rightarrow> Inl (exc JSONDecodeError [Lit ''Expecting value'']))"
| "load_json loads _ = Inl (exc TypeError [Lit ''the JSON object must be str, bytes or bytearray''])"

definition call_arguments :: "(pystr \<Rightarrow> json option) \<Rightarrow> json \<Rightarrow> (json \<times> json) res" where
  "call_arguments loads raw =
    bindR (get_item (lit ''function'') raw) (\<lambda>fn.
    bindR (get_key (lit ''arguments'') JNull fn) (\<lambda>args.
    bindR (if truthy args then load_json loads args else Inr (JObj [])) (\<lambda>j. Inr (fn, j))))"

definition parse_call :: "(pystr \<Rightarrow> json option) \<Rightarrow> json \<Rightarrow> tool_call res" where
  "parse_call loads raw =
    bindR (or_malformed [KeyError, TypeError, JSONDecodeError] ''LLM tool call is not well-formed: ''
             (call_arguments loads raw)) (\<lambda>(fn, args).
    bindR (get_key (lit ''id'') (JStr []) raw) (\<lambda>i.
    bindR (get_item (lit ''name'') fn) (\<lambda>n.
    Inr \<lparr>tc_id = i, tc_name = n, tc_arguments = args\<rparr>)))"

definition parse_usage :: "json \<Rightarrow> llm_usage res" where
  "parse_usage body =
    bindR (get_key (lit ''usage'') JNull body) (\<lambda>u0. let u = or_else u0 (JObj []) in
    bindR (bindR (get_key (lit ''prompt_tokens'') (JInt 0) u) to_int) (\<lambda>p.
    bindR (bindR (get_key (lit ''completion_tokens'') (JInt 0) u) to_int) (\<lambda>c.
    bindR (bindR (get_key (lit ''total_tokens'') (JInt 0) u) to_int) (\<lambda>t.
    Inr \<lparr>u_prompt = p, u_completion = c, u_total = t\<rparr>))))"

definition parse_response ::
  "(pystr \<Rightarrow> json option) \<Rightarrow> pystr \<Rightarrow> model_config \<Rightarrow> reply_body \<Rightarrow> llm_response res" where
  "parse_response loads role m b =
    bindR (or_malformed [JSONDecodeError, KeyError, IndexError, TypeError]
             ''LLM response missing choices/message: '' (response_message b)) (\<lambda>(body, msg).
    bindR (get_key (lit ''tool_calls'') JNull msg) (\<lambda>raw.
    bindR (elements (or_else raw (JArr []))) (\<lambda>raws.
    bindR (mapR (parse_call loads) raws) (\<lambda>calls.
    bindR (parse_usage body) (\<lambda>u.
    bindR (get_key (lit ''content'') JNull msg) (\<lambda>content.
    Inr \<lparr>lr_role = role, lr_model = mc_model m, lr_text = content, lr_tool_calls = calls,
         lr_usage = u\<rparr>))))))"

definition request_of :: "'s llm_client \<Rightarrow> model_config \<Rightarrow> (pystr \<times> json) list \<Rightarrow> request" where
  "request_of c m payload =
    \<lparr>rq_url = rstrip_by (\<lambda>x. x = 47) (mc_base_url m) @ lit ''/chat/completions'', rq_payload = payload,
     rq_headers = (case resolve_api_key (cl_environ c) m of
        Some k \<Rightarrow> if k = [] then [] else [(lit ''Authorization'', lit ''Bearer '' @ k)] | None \<Rightarrow> [])\<rparr>"

definition answer_reply ::
  "'s llm_client \<Rightarrow> pystr \<Rightarrow> model_config \<Rightarrow> request \<Rightarrow> reply \<Rightarrow> llm_response res" where
  "answer_reply c role m rq r =
    (case r of
       TimedOut \<Rightarrow> Inl (exc_at ReadTimeoutError [Lit ''timed out calling '', Txt (rq_url rq)] llm_stage)
     | Unreachable \<Rightarrow>
         Inl (exc_at ModelServerConnectionError [Lit ''could not reach '', Txt (rq_url rq)] llm_stage)
     | Reply status b \<Rightarrow>
         bindR (raise_for_status status) (\<lambda>_. parse_response (cl_loads c) role m b))"

definition llm_request ::
  "'s llm_client \<Rightarrow> pystr \<Rightarrow> model_config \<Rightarrow> (pystr \<times> json) list \<Rightarrow> ('s, llm_response) act" where
  "llm_request c role m payload s =
    (let rq = request_of c m payload; (r, s') = cl_post c rq s in (answer_reply c role m rq r, s'))"

section \<open>Completion with retries\<close>

fun complete_loop :: "'s llm_client \<Rightarrow> ('s, llm_response) act \<Rightarrow> nat list \<Rightarrow> ('s, llm_response) act" where
  "complete_loop c req [] s = (Inl (exc AssertionError [Lit ''unreachable'']), s)"
| "complete_loop c req (n # ns) s =
    (case req s of
       (Inr r, s') \<Rightarrow> (Inr r, s')
     | (Inl e, s') \<Rightarrow>
         if \<not> isinstance e GroundtruthError then (Inl e, s')
         else if \<not> is_transient e \<or> n = cl_max_retries c then (Inl e, s')
         else complete_loop c req ns (cl_sleep c (cl_backoff c * 2 ^ n) s'))"

definition complete ::
  "'s llm_client \<Rightarrow> pystr \<Rightarrow> json list \<Rightarrow> json list \<Rightarrow> ('s, llm_response) act" where
  "complete c role msgs tools s =
    (case model_for c role of
       Inl e \<Rightarrow> (Inl e, s)
     | Inr m \<Rightarrow> complete_loop c (llm_request c role m (payload_of m msgs tools))
                  [0..<cl_max_retries c + 1] s)"

section \<open>Which requests are retried\<close>

text \<open>The replies that a later attempt may turn into an answer.\<close>

definition retryable_reply :: "reply \<Rightarrow> bool" where
  "retryable_reply r =
    (case r of TimedOut \<Rightarrow> True | Unreachable \<Rightarrow> True | Reply status _ \<Rightarrow> status \<in> {429, 502, 503})"

text \<open>The classes that parsing a body can raise: none is retried, and only the first is handled.\<close>

definition parse_errors :: "exc_class set" where
  "parse_errors = {MalformedLLMOutputError, UnicodeError, AttributeError, TypeError, ValueError,
     KeyError, IndexError, OtherException}"

lemma response_message_error: "response_message b = Inl e \<Longrightarrow>
    ecls e \<in> {JSONDecodeError, UnicodeError, KeyError, IndexError, TypeError}"
  by (cases b) (auto simp: response_message_def bindR_eq_Inl dest!: get_item_error get_index_error)

lemma load_json_error: "load_json loads j = Inl e \<Longrightarrow> ecls e \<in> {TypeError, JSONDecodeError}"
  by (cases j) (auto split: option.splits)

lemma call_arguments_error: "call_arguments loads raw = Inl e \<Longrightarrow>
    ecls e \<in> {KeyError, TypeError, AttributeError, JSONDecodeError}"
  by (auto simp: call_arguments_def bindR_eq_Inl split: if_splits
      dest!: get_item_error get_key_error load_json_error)

lemma isinstance_self: "isinstance e (ecls e)"
  by (simp add: isinstance_def eval_nat_numeral)

lemma or_malformed_error: "or_malformed cs what r = Inl e \<Longrightarrow> ecls e = MalformedLLMOutputError
    \<or> r = Inl e \<and> ecls e \<notin> set cs"
  using isinstance_self by (auto simp: or_malformed_def malformed_output_def list_ex_iff split: sum.splits if_splits)

lemma or_malformed_Inr [simp]: "or_malformed cs what r = Inr x \<longleftrightarrow> r = Inr x"
  by (auto simp: or_malformed_def split: sum.splits)

lemma parse_call_error: "parse_call loads raw = Inl e \<Longrightarrow> ecls e \<in> parse_errors"
  by (auto simp: parse_call_def parse_errors_def bindR_eq_Inl dest!: get_item_error get_key_error
      or_malformed_error call_arguments_error)

lemma mapR_Inl: "mapR f xs = Inl e \<Longrightarrow> \<exists>x. f x = Inl e"
  by (induction xs) (auto simp: bindR_eq_Inl)

lemma parse_usage_error: "parse_usage body = Inl e \<Longrightarrow> ecls e \<in> parse_errors"
  by (auto simp: parse_usage_def parse_errors_def bindR_eq_Inl Let_def
      dest!: get_item_error get_key_error to_int_error)

lemma parse_response_error: "parse_response loads role m b = Inl e \<Longrightarrow> ecls e \<in> parse_errors"
  unfolding parse_response_def
  by (auto simp: bindR_eq_Inl dest!: mapR_Inl parse_call_error parse_usage_error or_malformed_error
      response_message_error get_key_error elements_error)
    (auto simp: parse_errors_def)

lemma raise_for_status_error: "raise_for_status n = Inl e \<longleftrightarrow> 400 \<le> n
    \<and> e = (if n \<in> {429, 502, 503}
           then \<lparr>ecls = TransientHTTPError, emsg = [Lit ''HTTP '', Num n], estage = Some ''llm'', eattr = StatusCode n\<rparr>
           else terminal_http_error n [Lit ''LLM returned HTTP '', Num n] (Some ''llm''))"
  by (auto simp: raise_for_status_def transient_http_error_def transient_http_status_def http_message_def
      llm_stage_def)

lemma raise_for_status_ok: "raise_for_status n = Inr u \<longleftrightarrow> n < 400"
  by (auto simp: raise_for_status_def transient_http_error_def)

lemma parse_errors_final: "ecls e \<in> parse_errors \<Longrightarrow> \<not> is_transient e"
  by (auto simp: parse_errors_def is_transient_def)

lemma answer_reply_Inl: "answer_reply c role m rq r = Inl e \<Longrightarrow>
    (if retryable_reply r then ecls e \<in> {ReadTimeoutError, ModelServerConnectionError, TransientHTTPError}
     else ecls e \<in> insert TerminalHTTPError parse_errors)"
  by (cases r) (auto simp: answer_reply_def retryable_reply_def bindR_eq_Inl raise_for_status_error
      raise_for_status_ok terminal_http_error_def dest: parse_response_error)

lemma answer_reply_Inr: "answer_reply c role m rq r = Inr x \<Longrightarrow> \<not> retryable_reply r"
  by (cases r) (auto simp: answer_reply_def retryable_reply_def raise_for_status_ok)

lemma answer_reply_transient:
  "is_transient_failure (answer_reply c role m rq r) = retryable_reply r"
proof (cases "answer_reply c role m rq r")
  case (Inl e)
  from answer_reply_Inl [OF Inl] parse_errors_final [of e] show ?thesis
    by (auto simp: Inl is_transient_failure_def is_transient_def split: if_splits)
next
  case (Inr x)
  then show ?thesis by (simp add: is_transient_failure_def answer_reply_Inr)
qed

lemma answer_reply_groundtruth:
  assumes "answer_reply c role m rq r = Inl e" and "is_transient e"
  shows "isinstance e GroundtruthError"
  using answer_reply_Inl [OF assms(1)] parse_errors_final [of e] assms(2) by (auto split: if_splits)

text \<open>
  Which exchanges the client repeats. A request fails with a retryable error exactly when the
  server timed out, could not be reached, or answered 429, 502 or 503; whatever else comes back, any
  other status and any body however malformed, is an answer or an error that is not retried.
\<close>

lemma request_retryable:
  "is_transient_failure (fst (llm_request c role m payload s))
    \<longleftrightarrow> retryable_reply (fst (cl_post c (request_of c m payload) s))"
  by (simp add: llm_request_def case_prod_beta answer_reply_transient Let_def)

section \<open>The retry loop\<close>

text \<open>Attempt \<open>Suc k\<close> of a completion: the sleep that precedes it, then the request.\<close>

definition llm_attempt ::
  "'s llm_client \<Rightarrow> ('s, llm_response) act \<Rightarrow> nat \<Rightarrow> ('s, llm_response) act" where
  "llm_attempt c req n s =
    req (if n \<le> 1 then s else cl_sleep c (cl_backoff c * 2 ^ (n - 2)) s)"

lemma complete_loop_spec:
  assumes g: "\<And>s e. fst (req s) = Inl e \<Longrightarrow> is_transient e \<Longrightarrow> isinstance e GroundtruthError"
    and "cl_max_retries c = k + m"
  defines "att \<equiv> llm_attempt c req"
  shows "complete_loop c req [k..<cl_max_retries c + 1]
      (if k = 0 then s else cl_sleep c (cl_backoff c * 2 ^ (k - 1)) (after att k s))
    = (outcome att (stop_at att k m s) s, after att (Suc (stop_at att k m s)) s)"
  using assms(2)
proof (induction m arbitrary: k)
  case 0
  let ?s = "if k = 0 then s else cl_sleep c (cl_backoff c * 2 ^ (k - 1)) (after att k s)"
  obtain r s' where r: "req ?s = (r, s')" by fastforce
  have a: "att (Suc k) (after att k s) = (r, s')" using r by (auto simp: att_def llm_attempt_def split: if_splits)
  from 0 r a show ?case by (simp add: outcome_def split: sum.split)
next
  case (Suc m)
  let ?s = "if k = 0 then s else cl_sleep c (cl_backoff c * 2 ^ (k - 1)) (after att k s)"
  obtain r s' where r: "req ?s = (r, s')" by fastforce
  have a: "att (Suc k) (after att k s) = (r, s')" using r by (auto simp: att_def llm_attempt_def split: if_splits)
  have u: "[k..<cl_max_retries c + 1] = k # [Suc k..<cl_max_retries c + 1]" using Suc.prems by (simp add: upt_rec)
  have o: "outcome att k s = r" "after att (Suc k) s = s'" using a by (simp_all add: outcome_def)
  show ?case
  proof (cases "is_transient_failure r")
    case True
    then obtain e where e: "r = Inl e" "is_transient e"
      by (auto simp: is_transient_failure_def split: sum.splits)
    then have "isinstance e GroundtruthError" using g [of ?s e] r by simp
    with e r u o Suc.prems Suc.IH [of "Suc k"] True show ?thesis by (simp del: isinstance_cases)
  next
    case False
    with r u o a show ?thesis by (auto simp: is_transient_failure_def split: sum.split)
  qed
qed

text \<open>
  C31. A completion is the first attempt that does not fail transiently, among at most
  \<open>max_retries + 1\<close>, with a sleep of \<open>backoff_base * 2^j\<close> before attempt \<open>j + 2\<close>: every attempt
  before it failed transiently, and it is either final or the last one allowed. The state is that
  after exactly those attempts: no request is made after the deciding one.
\<close>

theorem complete_policy:
  "case model_for c role of
     Inl e \<Rightarrow> complete c role msgs tools s = (Inl e, s)
   | Inr m \<Rightarrow>
      (let att = llm_attempt c (llm_request c role m (payload_of m msgs tools));
           k = stop_at att 0 (cl_max_retries c) s
       in complete c role msgs tools s = (outcome att k s, after att (Suc k) s)
        \<and> list_all (\<lambda>j. is_transient_failure (outcome att j s)) [0..<k]
        \<and> (if k < cl_max_retries c then \<not> is_transient_failure (outcome att k s)
           else k = cl_max_retries c))"
proof (cases "model_for c role")
  case (Inr m)
  let ?req = "llm_request c role m (payload_of m msgs tools)"
  let ?k = "stop_at (llm_attempt c ?req) 0 (cl_max_retries c) s"
  have g: "isinstance e GroundtruthError" if "fst (?req s) = Inl e" "is_transient e" for s e
    using that by (intro answer_reply_groundtruth) (simp_all add: llm_request_def Let_def case_prod_beta)
  show ?thesis
    using complete_loop_spec [where k = 0 and m = "cl_max_retries c" and c = c and s = s, OF g]
      stop_at_before [of 0 _ "llm_attempt c ?req" "cl_max_retries c" s]
      stop_at_end [of "llm_attempt c ?req" 0 "cl_max_retries c" s]
      stop_at_le [of "llm_attempt c ?req" 0 "cl_max_retries c" s]
    by (simp add: Inr complete_def Let_def list_all_iff)
qed (simp add: complete_def)

section \<open>Client-owned payload keys\<close>

lemma map_of_params:
  "distinct (map fst ps) \<Longrightarrow>
   map_of (fold (\<lambda>(k, v) p. if k \<notin> set reserved_payload_keys then dict_set k v p else p) ps p) k
    = (if k \<in> set reserved_payload_keys then map_of p k
       else case map_of ps k of Some v \<Rightarrow> Some v | None \<Rightarrow> map_of p k)"
proof (induction ps arbitrary: p)
  case (Cons x ps)
  obtain a v where x: "x = (a, v)" by fastforce
  from Cons.prems have d: "distinct (map fst ps)" and n: "map_of ps a = None"
    by (simp_all add: x map_of_eq_None_iff)
  show ?case using n by (simp add: x Cons.IH [OF d] map_of_dict_set split: option.split)
qed simp

text \<open>
  Configured parameters cannot take over the request: \<open>model\<close>, \<open>messages\<close> and \<open>tools\<close> of the
  payload are the client's, \<open>stream\<close> is never sent, a configured reasoning effort wins over a
  parameter of that name, and every other parameter is sent as configured.
\<close>

lemma payload_owned:
  assumes "distinct (map fst (mc_params m))"
  shows "map_of (payload_of m msgs tools) k =
    (if k = lit ''tools'' then (if tools = [] then None else Some (JArr tools))
     else if k = lit ''model'' then Some (JStr (mc_model m))
     else if k = lit ''messages'' then Some (JArr msgs)
     else if k = lit ''stream'' then None
     else if k = lit ''reasoning_effort'' \<and> mc_reasoning_effort m \<noteq> None
       then map_option JStr (mc_reasoning_effort m)
     else map_of (mc_params m) k)"
proof -
  let ?p0 = "[(lit ''model'', JStr (mc_model m)), (lit ''messages'', JArr msgs)]"
  let ?p1 = "fold (\<lambda>(k, v) p. if k \<notin> set reserved_payload_keys then dict_set k v p else p) (mc_params m) ?p0"
  have 1: "map_of ?p1 x = (if x \<in> set reserved_payload_keys then map_of ?p0 x
      else case map_of (mc_params m) x of Some v \<Rightarrow> Some v | None \<Rightarrow> map_of ?p0 x)" for x
    by (rule map_of_params [OF assms])
  have e: "map_of (case mc_reasoning_effort m of
      Some e \<Rightarrow> dict_set (lit ''reasoning_effort'') (JStr e) p | None \<Rightarrow> p) x
    = (if x = lit ''reasoning_effort'' \<and> mc_reasoning_effort m \<noteq> None
       then map_option JStr (mc_reasoning_effort m) else map_of p x)" for p x
    by (simp add: map_of_dict_set split: option.split)
  have t: "map_of (if tools \<noteq> [] then dict_set (lit ''tools'') v p else p) x
    = (if x = lit ''tools'' \<and> tools \<noteq> [] then Some v else map_of p x)" for v x and p :: "(pystr \<times> json) list"
    by (simp add: map_of_dict_set)
  have r: "k \<in> set reserved_payload_keys \<longleftrightarrow>
      k = lit ''model'' \<or> k = lit ''messages'' \<or> k = lit ''tools'' \<or> k = lit ''stream''"
    by (simp add: reserved_payload_keys_def)
  show ?thesis
    unfolding payload_of_def Let_def t e 1 r by (auto split: option.split)
qed

definition demo_model :: model_config where
  "demo_model = \<lparr>mc_base_url = lit ''http://h/v1/'', mc_model = lit ''m'', mc_api_key_env = lit ''K'',
     mc_reasoning_effort = Some (lit ''low''),
     mc_params = [(lit ''model'', JNull), (lit ''reasoning_effort'', JInt 1), (lit ''top_p'', JInt 1)]\<rparr>"

lemma payload_owned_witness:
  "map_of (payload_of demo_model [] []) (lit ''model'') = Some (JStr (lit ''m''))
    \<and> map_of (payload_of demo_model [] []) (lit ''reasoning_effort'') = Some (JStr (lit ''low''))
    \<and> map_of (payload_of demo_model [] []) (lit ''top_p'') = Some (JInt 1)"
proof -
  have d: "distinct (map fst (mc_params demo_model))" by (simp add: demo_model_def)
  show ?thesis unfolding payload_owned [OF d] by (simp add: demo_model_def)
qed

end
