(* ===== verification/Utf8.thy ===== *)
theory Utf8
  imports Text
begin

text \<open>
  UTF-8 as the program uses it: \<open>s.encode("utf-8")\<close> (which raises on a lone surrogate) and
  \<open>b.decode("utf-8", "ignore")\<close>, which the byte caps apply to a truncated encoding.
\<close>

definition encodable :: "uchar \<Rightarrow> bool" where
  "encodable c \<longleftrightarrow> 0 \<le> c \<and> c < 55296 \<or> 57344 \<le> c \<and> c \<le> 1114111"

definition enc1 :: "uchar \<Rightarrow> bytes" where
  "enc1 c =
    (if c < 128 then [c]
     else if c < 2048 then [192 + c div 64, 128 + c mod 64]
     else if c < 65536 then [224 + c div 4096, 128 + (c div 64) mod 64, 128 + c mod 64]
     else [240 + c div 262144, 128 + (c div 4096) mod 64, 128 + (c div 64) mod 64, 128 + c mod 64])"

definition enc :: "pystr \<Rightarrow> bytes" where
  "enc s = concat (map enc1 s)"

definition utf8_encode :: "pystr \<Rightarrow> bytes res" where
  "utf8_encode s =
    (if list_all encodable s then Inr (enc s) else Inl (exc UnicodeError [Lit ''surrogates not allowed'']))"

definition is_cont :: "int \<Rightarrow> bool" where
  "is_cont b \<longleftrightarrow> 128 \<le> b \<and> b < 192"

text \<open>One character at the head of a byte string: the code point and the number of continuation
  bytes, with the ranges that exclude overlong forms and surrogates.\<close>

fun decode1 :: "bytes \<Rightarrow> (uchar \<times> nat) option" where
  "decode1 [] = None"
| "decode1 (b # bs) =
    (if b < 128 then Some (b, 0)
     else if 194 \<le> b \<and> b \<le> 223 then
       (case bs of
          b1 # _ \<Rightarrow> if is_cont b1 then Some ((b - 192) * 64 + (b1 - 128), 1) else None
        | _ \<Rightarrow> None)
     else if 224 \<le> b \<and> b \<le> 239 then
       (case bs of
          b1 # b2 # _ \<Rightarrow>
            if is_cont b1 \<and> is_cont b2 \<and> (b = 224 \<longrightarrow> 160 \<le> b1) \<and> (b = 237 \<longrightarrow> b1 < 160)
            then Some ((b - 224) * 4096 + (b1 - 128) * 64 + (b2 - 128), 2) else None
        | _ \<Rightarrow> None)
     else if 240 \<le> b \<and> b \<le> 244 then
       (case bs of
          b1 # b2 # b3 # _ \<Rightarrow>
            if is_cont b1 \<and> is_cont b2 \<and> is_cont b3 \<and> (b = 240 \<longrightarrow> 144 \<le> b1) \<and> (b = 244 \<longrightarrow> b1 < 144)
            then Some ((b - 240) * 262144 + (b1 - 128) * 4096 + (b2 - 128) * 64 + (b3 - 128), 3)
            else None
        | _ \<Rightarrow> None)
     else None)"

text \<open>A byte that starts no character is dropped (continuation bytes left over from a dropped
  start are dropped one by one, which drops the same bytes as CPython's maximal subparts).\<close>

function utf8_ignore :: "bytes \<Rightarrow> pystr" where
  "utf8_ignore [] = []"
| "utf8_ignore (b # bs) =
    (case decode1 (b # bs) of
       Some (c, n) \<Rightarrow> c # utf8_ignore (drop n bs)
     | None \<Rightarrow> utf8_ignore bs)"
  by pat_completeness auto
termination
  by (relation "measure length") auto

lemma enc_Nil [simp]: "enc [] = []"
  by (simp add: enc_def)

lemma enc_Cons [simp]: "enc (c # s) = enc1 c @ enc s"
  by (simp add: enc_def)

lemma enc_append [simp]: "enc (s @ t) = enc s @ enc t"
  by (simp add: enc_def)

lemma enc1_nonempty [simp]: "enc1 c \<noteq> []"
  by (simp add: enc1_def)

lemma length_enc1: "1 \<le> length (enc1 c) \<and> length (enc1 c) \<le> 4"
  by (simp add: enc1_def)

lemma length_enc_ge: "length s \<le> length (enc s)"
proof (induction s)
  case Nil
  then show ?case by simp
next
  case (Cons c s)
  then show ?case using length_enc1 [of c] by simp
qed

lemma length_enc_ascii: "\<forall>c \<in> set s. c < 128 \<Longrightarrow> enc s = s"
  by (induction s) (auto simp: enc1_def)

lemma utf8_encode_ok: "utf8_encode s = Inr b \<longleftrightarrow> list_all encodable s \<and> b = enc s"
  by (auto simp: utf8_encode_def)

lemma base64_3: "c div 4096 * 4096 + c div 64 mod 64 * 64 + c mod 64 = (c::int)"
proof -
  have "c div 4096 = c div 64 div 64" using zdiv_zmult2_eq [of 64 c 64] by simp
  moreover have "c div 64 div 64 * 64 + c div 64 mod 64 = c div 64" by (rule div_mult_mod_eq)
  moreover have "c div 64 * 64 + c mod 64 = c" by (rule div_mult_mod_eq)
  ultimately show ?thesis by linarith
qed

lemma base64_4:
  "c div 262144 * 262144 + c div 4096 mod 64 * 4096 + c div 64 mod 64 * 64 + c mod 64 = (c::int)"
proof -
  have "c div 262144 = c div 4096 div 64" using zdiv_zmult2_eq [of 64 c 4096] by simp
  moreover have "c div 4096 div 64 * 64 + c div 4096 mod 64 = c div 4096" by (rule div_mult_mod_eq)
  moreover note base64_3 [of c]
  ultimately show ?thesis by linarith
qed

lemma decode1_enc1:
  assumes "encodable c"
  shows "decode1 (enc1 c @ bs) = Some (c, length (enc1 c) - 1)"
proof -
  consider "0 \<le> c" "c < 128" | "128 \<le> c" "c < 2048" | "2048 \<le> c" "c < 65536"
    | "65536 \<le> c" "c \<le> 1114111"
    using assms by (fastforce simp: encodable_def)
  then show ?thesis
  proof cases
    case 1
    then show ?thesis by (simp add: enc1_def)
  next
    case 2
    have "2 \<le> c div 64" "c div 64 < 32" using 2 by linarith+
    moreover have "c div 64 * 64 + c mod 64 = c" by simp
    ultimately show ?thesis using 2 by (simp add: enc1_def is_cont_def)
  next
    case 3
    have a: "0 \<le> c div 4096" "c div 4096 < 16" using 3 by linarith+
    have m: "0 \<le> c div 64 mod 64" "c div 64 mod 64 < 64" "0 \<le> c mod 64" "c mod 64 < 64" by simp_all
    have e: "c div 4096 * 4096 + c div 64 mod 64 * 64 + c mod 64 = c" by (rule base64_3)
    have lo: "c div 4096 = 0 \<Longrightarrow> 32 \<le> c div 64 mod 64" using 3 e m by linarith
    have hi: "c div 4096 = 13 \<Longrightarrow> c div 64 mod 64 < 32"
      using assms 3 e m unfolding encodable_def by linarith
    define p q r where "p = c div 4096" and "q = c div 64 mod 64" and "r = c mod 64"
    note abs = p_def [symmetric] q_def [symmetric] r_def [symmetric]
    have bytes: "enc1 c = [224 + p, 128 + q, 128 + r]"
      using 3 by (simp add: enc1_def p_def q_def r_def)
    from a m e lo hi have "0 \<le> p" "p < 16" "0 \<le> q" "q < 64" "0 \<le> r" "r < 64"
      "p * 4096 + q * 64 + r = c" "p = 0 \<Longrightarrow> 32 \<le> q" "p = 13 \<Longrightarrow> q < 32"
      unfolding abs by blast+
    then show ?thesis unfolding bytes by (simp add: is_cont_def)
  next
    case 4
    have a: "0 \<le> c div 262144" "c div 262144 \<le> 4" using 4 by linarith+
    have m: "0 \<le> c div 64 mod 64" "c div 64 mod 64 < 64" "0 \<le> c mod 64" "c mod 64 < 64"
      "0 \<le> c div 4096 mod 64" "c div 4096 mod 64 < 64" by simp_all
    have e: "c div 262144 * 262144 + c div 4096 mod 64 * 4096 + c div 64 mod 64 * 64 + c mod 64 = c"
      by (rule base64_4)
    have lo: "c div 262144 = 0 \<Longrightarrow> 16 \<le> c div 4096 mod 64" using 4 e m by linarith
    have hi: "c div 262144 = 4 \<Longrightarrow> c div 4096 mod 64 < 16" using 4 e m by linarith
    define p q r t where "p = c div 262144" and "q = c div 4096 mod 64" and "r = c div 64 mod 64"
      and "t = c mod 64"
    note abs = p_def [symmetric] q_def [symmetric] r_def [symmetric] t_def [symmetric]
    have bytes: "enc1 c = [240 + p, 128 + q, 128 + r, 128 + t]"
      using 4 by (simp add: enc1_def p_def q_def r_def t_def)
    from a m e lo hi have "0 \<le> p" "p \<le> 4" "0 \<le> q" "q < 64" "0 \<le> r" "r < 64" "0 \<le> t" "t < 64"
      "p * 262144 + q * 4096 + r * 64 + t = c" "p = 0 \<Longrightarrow> 16 \<le> q" "p = 4 \<Longrightarrow> q < 16"
      unfolding abs by blast+
    then show ?thesis unfolding bytes by (simp add: is_cont_def)
  qed
qed

lemma utf8_ignore_enc1: "encodable c \<Longrightarrow> utf8_ignore (enc1 c @ bs) = c # utf8_ignore bs"
proof -
  assume c: "encodable c"
  obtain b r where br: "enc1 c = b # r" by (cases "enc1 c") auto
  have "decode1 (b # r @ bs) = Some (c, length r)"
    using decode1_enc1 [OF c, of bs] by (simp add: br)
  then show ?thesis by (simp add: br)
qed

lemma utf8_ignore_enc: "list_all encodable s \<Longrightarrow> utf8_ignore (enc s @ bs) = s @ utf8_ignore bs"
  by (induction s) (auto simp: utf8_ignore_enc1)

text \<open>The proper prefixes of one character's encoding decode to nothing.\<close>

lemma utf8_ignore_conts: "list_all is_cont bs \<Longrightarrow> utf8_ignore bs = []"
  by (induction bs) (auto simp: is_cont_def)

lemma decode1_short:
  "194 \<le> b \<Longrightarrow> b \<le> 223 \<Longrightarrow> bs = [] \<Longrightarrow> decode1 (b # bs) = None"
  "224 \<le> b \<Longrightarrow> b \<le> 239 \<Longrightarrow> length bs < 2 \<Longrightarrow> decode1 (b # bs) = None"
  "240 \<le> b \<Longrightarrow> b \<le> 244 \<Longrightarrow> length bs < 3 \<Longrightarrow> decode1 (b # bs) = None"
  by (auto split: list.splits)

text \<open>The shape of an encoding: a start byte that announces the number of continuation bytes.\<close>

lemma enc1_shape:
  assumes "encodable c"
  obtains (ascii) "enc1 c = [c]" "c < 128"
    | (multi) b bs where "enc1 c = b # bs" "list_all is_cont bs"
      "\<And>m. m < length bs \<Longrightarrow> decode1 (b # take m bs) = None"
proof -
  have c0: "0 \<le> c" "c \<le> 1114111" using assms by (auto simp: encodable_def)
  consider (a) "c < 128" | (b) "128 \<le> c" "c < 2048" | (c) "2048 \<le> c" "c < 65536" | (d) "65536 \<le> c"
    by linarith
  then show ?thesis
  proof cases
    case a
    then show ?thesis using ascii by (simp add: enc1_def)
  next
    case b
    have "2 \<le> c div 64" "c div 64 < 32" using b by linarith+
    then show ?thesis
      using b by (intro multi [of "192 + c div 64" "[128 + c mod 64]"])
        (auto simp: enc1_def is_cont_def simp del: decode1.simps intro!: decode1_short(1))
  next
    case c
    have "0 \<le> c div 4096" "c div 4096 < 16" using c by linarith+
    then show ?thesis
      using c by (intro multi [of "224 + c div 4096" "[128 + c div 64 mod 64, 128 + c mod 64]"])
        (auto simp: enc1_def is_cont_def simp del: decode1.simps intro!: decode1_short(2))
  next
    case d
    have "0 \<le> c div 262144" "c div 262144 \<le> 4" using d c0 by linarith+
    then show ?thesis
      using d by (intro multi [of "240 + c div 262144"
            "[128 + c div 4096 mod 64, 128 + c div 64 mod 64, 128 + c mod 64]"])
        (auto simp: enc1_def is_cont_def simp del: decode1.simps intro!: decode1_short(3))
  qed
qed

lemma utf8_ignore_partial:
  assumes "encodable c" and "n < length (enc1 c)"
  shows "utf8_ignore (take n (enc1 c)) = []"
  using assms(1)
proof (cases rule: enc1_shape)
  case ascii
  with assms(2) show ?thesis by simp
next
  case (multi b bs)
  show ?thesis
  proof (cases n)
    case 0
    then show ?thesis by simp
  next
    case (Suc m)
    with multi assms(2) have "decode1 (b # take m bs) = None" by simp
    moreover from multi(2) have "list_all is_cont (take m bs)"
      by (meson in_set_takeD list_all_iff)
    ultimately show ?thesis
      by (simp only: multi Suc take_Suc_Cons utf8_ignore.simps option.case utf8_ignore_conts)
  qed
qed

text \<open>
  Cutting an encoding at \<open>n\<close> bytes and decoding with \<open>ignore\<close> gives the longest prefix of the
  text whose encoding fits in \<open>n\<close> bytes.
\<close>

lemma utf8_ignore_take:
  assumes "list_all encodable s"
  shows "\<exists>k \<le> length s. utf8_ignore (take n (enc s)) = take k s \<and> length (enc (take k s)) \<le> n
    \<and> (k < length s \<longrightarrow> n < length (enc (take (Suc k) s)))"
  using assms
proof (induction s arbitrary: n)
  case Nil
  then show ?case by simp
next
  case (Cons c s)
  show ?case
  proof (cases "length (enc1 c) \<le> n")
    case True
    define m where "m = n - length (enc1 c)"
    from Cons.IH [of m] Cons.prems obtain k where k: "k \<le> length s"
      "utf8_ignore (take m (enc s)) = take k s" "length (enc (take k s)) \<le> m"
      "k < length s \<longrightarrow> m < length (enc (take (Suc k) s))" by auto
    have "utf8_ignore (take n (enc (c # s))) = c # utf8_ignore (take m (enc s))"
      using True Cons.prems by (simp add: m_def utf8_ignore_enc1)
    with k True show ?thesis by (intro exI [of _ "Suc k"]) (auto simp: m_def)
  next
    case False
    then have "take n (enc (c # s)) = take n (enc1 c)" by simp
    with False Cons.prems utf8_ignore_partial [of c n] show ?thesis
      by (intro exI [of _ 0]) auto
  qed
qed

end
