(* ===== verification/Budget.thy ===== *)
theory Budget
  imports JobStore Utf8
begin

text \<open>
  The agent budget (\<^verbatim>\<open>src/groundtruth/retrieval/budget.py\<close>) and the limits of
  \<^verbatim>\<open>src/groundtruth/config/schema.py\<close> it is built from. The clock is a function on a world of any
  type, read at every call of \<open>exhausted\<close> that gets that far; the state of a metered component is
  its budget paired with that world. Times are integers in one fixed unit of the clock.

  Shown: exhaustion latches and never changes the limits or the count, and clamping returns the
  longest prefix of the text that fits in the byte budget, flagged exactly when something was cut.
\<close>

section \<open>Limits\<close>

record limits =
  max_notes_per_ingest :: int
  max_note_bytes :: int
  max_tool_calls :: int
  max_wall_clock_s :: int
  grep_max_matches :: int
  grep_max_bytes :: int
  read_max_bytes :: int
  vocab_max_bytes :: int
  organize_max_attempts :: int

record budget_limits =
  bl_tool_calls :: int
  bl_wall_clock_s :: int
  bl_grep_matches :: int
  bl_grep_bytes :: int
  bl_read_bytes :: int

definition default_limits :: budget_limits where
  "default_limits = \<lparr>bl_tool_calls = 30, bl_wall_clock_s = 60, bl_grep_matches = 50,
     bl_grep_bytes = 64 * 1024, bl_read_bytes = 32 * 1024\<rparr>"

definition from_limits :: "limits \<Rightarrow> budget_limits" where
  "from_limits l = \<lparr>bl_tool_calls = max_tool_calls l, bl_wall_clock_s = max_wall_clock_s l,
     bl_grep_matches = grep_max_matches l, bl_grep_bytes = grep_max_bytes l,
     bl_read_bytes = read_max_bytes l\<rparr>"

section \<open>The budget\<close>

record budget =
  bd_limits :: budget_limits
  bd_start :: int
  bd_calls :: int
  bd_tripped :: "string option"

type_synonym 's clock = "'s \<Rightarrow> int \<times> 's"
type_synonym 's metered = "budget \<times> 's"

definition new_budget :: "'s clock \<Rightarrow> budget_limits option \<Rightarrow> 's \<Rightarrow> 's metered" where
  "new_budget clk l s =
    (let (t, s') = clk s in
     (\<lparr>bd_limits = (case l of Some x \<Rightarrow> x | None \<Rightarrow> default_limits), bd_start = t, bd_calls = 0,
       bd_tripped = None\<rparr>, s'))"

definition record_tool_call :: "budget \<Rightarrow> budget" where
  "record_tool_call b = b\<lparr>bd_calls := bd_calls b + 1\<rparr>"

definition elapsed_s :: "'s clock \<Rightarrow> 's metered \<Rightarrow> int \<times> 's metered" where
  "elapsed_s clk m = (case m of (b, s) \<Rightarrow> let (t, s') = clk s in (t - bd_start b, (b, s')))"

definition is_exhausted :: "'s clock \<Rightarrow> 's metered \<Rightarrow> bool \<times> 's metered" where
  "is_exhausted clk m = (case m of (b, s) \<Rightarrow>
    if bd_tripped b \<noteq> None then (True, (b, s))
    else if bd_calls b \<ge> bl_tool_calls (bd_limits b)
    then (True, (b\<lparr>bd_tripped := Some ''max_tool_calls''\<rparr>, s))
    else let (e, (b', s')) = elapsed_s clk (b, s) in
      if e \<ge> bl_wall_clock_s (bd_limits b)
      then (True, (b'\<lparr>bd_tripped := Some ''max_wall_clock_s''\<rparr>, s'))
      else (False, (b', s')))"

definition tripped_limit :: "'s clock \<Rightarrow> 's metered \<Rightarrow> string option \<times> 's metered" where
  "tripped_limit clk m = (let (_, m') = is_exhausted clk m in (bd_tripped (fst m'), m'))"

text \<open>\<open>_charge\<close>, shared by the tool sets: refuse once exhausted, otherwise count the call.\<close>

definition charge :: "'s clock \<Rightarrow> 's metered \<Rightarrow> bool \<times> 's metered" where
  "charge clk m =
    (let (x, m') = is_exhausted clk m in
     if x then (False, m') else (True, (record_tool_call (fst m'), snd m')))"

section \<open>Clamping\<close>

definition clamp_text :: "pystr \<Rightarrow> int \<Rightarrow> (pystr \<times> bool) res" where
  "clamp_text t cap =
    bindR (utf8_encode t) (\<lambda>bs.
    Inr (if int (length bs) \<le> cap then (t, False) else (utf8_ignore (slice_to cap bs), True)))"

definition clamp_matches :: "budget \<Rightarrow> pystr list \<Rightarrow> pystr list \<times> bool" where
  "clamp_matches b ms =
    (let kept = slice_to (bl_grep_matches (bd_limits b)) ms in (kept, length kept < length ms))"

definition clamp_grep_output :: "budget \<Rightarrow> pystr \<Rightarrow> (pystr \<times> bool) res" where
  "clamp_grep_output b t = clamp_text t (bl_grep_bytes (bd_limits b))"

definition clamp_read :: "budget \<Rightarrow> pystr \<Rightarrow> (pystr \<times> bool) res" where
  "clamp_read b t = clamp_text t (bl_read_bytes (bd_limits b))"

section \<open>Laws\<close>

lemma record_tool_call_sel [simp]:
  "bd_calls (record_tool_call b) = bd_calls b + 1" "bd_limits (record_tool_call b) = bd_limits b"
  "bd_tripped (record_tool_call b) = bd_tripped b" "bd_start (record_tool_call b) = bd_start b"
  by (simp_all add: record_tool_call_def)

lemma is_exhausted_keeps:
  assumes "is_exhausted clk m = (x, m')"
  shows "bd_calls (fst m') = bd_calls (fst m)" "bd_limits (fst m') = bd_limits (fst m)"
    "bd_start (fst m') = bd_start (fst m)" "x \<longleftrightarrow> bd_tripped (fst m') \<noteq> None"
    "bd_tripped (fst m) \<noteq> None \<Longrightarrow> m' = m \<and> x"
  using assms by (cases m; auto simp: is_exhausted_def elapsed_s_def Let_def split: if_splits prod.splits)+

lemma is_exhausted_False:
  "is_exhausted clk m = (False, m') \<Longrightarrow> bd_calls (fst m) < bl_tool_calls (bd_limits (fst m))
    \<and> fst m' = fst m"
  by (cases m) (auto simp: is_exhausted_def elapsed_s_def Let_def split: if_splits prod.splits)

lemma charge_cases:
  assumes "charge clk m = (ok, m')"
  shows "bd_limits (fst m') = bd_limits (fst m)"
    "ok \<Longrightarrow> bd_calls (fst m') = bd_calls (fst m) + 1 \<and> bd_calls (fst m) < bl_tool_calls (bd_limits (fst m))
      \<and> bd_tripped (fst m') = None"
    "\<not> ok \<Longrightarrow> bd_calls (fst m') = bd_calls (fst m) \<and> bd_tripped (fst m') \<noteq> None"
    "bd_tripped (fst m) \<noteq> None \<Longrightarrow> m' = m \<and> \<not> ok"
proof -
  obtain x m1 where e: "is_exhausted clk m = (x, m1)" by (cases "is_exhausted clk m")
  have r: "ok = (\<not> x)" "m' = (if x then m1 else (record_tool_call (fst m1), snd m1))"
    using assms by (simp_all add: charge_def e split: if_splits)
  show "bd_limits (fst m') = bd_limits (fst m)"
    using is_exhausted_keeps(2) [OF e] by (cases x) (simp_all add: r)
  show "bd_calls (fst m') = bd_calls (fst m) + 1 \<and> bd_calls (fst m) < bl_tool_calls (bd_limits (fst m))
      \<and> bd_tripped (fst m') = None" if ok
  proof -
    have "\<not> x" using that r(1) by simp
    with e have "is_exhausted clk m = (False, m1)" by simp
    from is_exhausted_False [OF this] is_exhausted_keeps(4) [OF this] \<open>\<not> x\<close> show ?thesis by (simp add: r(2))
  qed
  show "bd_calls (fst m') = bd_calls (fst m) \<and> bd_tripped (fst m') \<noteq> None" if "\<not> ok"
  proof -
    have "x" using that r(1) by simp
    with is_exhausted_keeps(1,4) [OF e] show ?thesis by (simp add: r(2))
  qed
  show "m' = m \<and> \<not> ok" if "bd_tripped (fst m) \<noteq> None"
    using is_exhausted_keeps(5) [OF e that] r by simp
qed

lemma clamp_text_spec:
  assumes "list_all encodable t" and "0 \<le> cap"
  shows "\<exists>k. clamp_text t cap = Inr (take k t, k < length t) \<and> int (length (enc (take k t))) \<le> cap
    \<and> (if k < length t then cap < int (length (enc (take (Suc k) t))) else k = length t)"
proof (cases "int (length (enc t)) \<le> cap")
  case True
  with assms show ?thesis by (intro exI [of _ "length t"]) (simp add: clamp_text_def utf8_encode_def)
next
  case False
  obtain k where k: "k \<le> length t" "utf8_ignore (take (nat cap) (enc t)) = take k t"
      "length (enc (take k t)) \<le> nat cap" "k < length t \<longrightarrow> nat cap < length (enc (take (Suc k) t))"
    using utf8_ignore_take [OF assms(1), of "nat cap"] by blast
  with False assms(2) have "k < length t" by (cases "k = length t") auto
  with k False assms show ?thesis
    by (intro exI [of _ k]) (auto simp: clamp_text_def utf8_encode_def slice_to_def)
qed

text \<open>
  C39. Clamping to a byte budget. The result is a prefix of the text whose encoding fits, no longer
  prefix fits, and the flag is set exactly when something was cut: truncation is never silent and
  never splits a character.
\<close>

theorem clamp_text_longest:
  assumes "list_all encodable t" and "0 \<le> cap"
  shows "\<exists>k. clamp_text t cap = Inr (take k t, k < length t) \<and> int (length (enc (take k t))) \<le> cap
    \<and> (if k < length t then cap < int (length (enc (take (Suc k) t))) else k = length t)"
  using assms by (rule clamp_text_spec)

definition demo_text :: pystr where
  "demo_text = [104, 233, 8364]"

theorem clamp_text_longest_witness:
  "\<exists>k. clamp_text demo_text 4 = Inr (take k demo_text, k < length demo_text)
    \<and> int (length (enc (take k demo_text))) \<le> 4
    \<and> (if k < length demo_text then 4 < int (length (enc (take (Suc k) demo_text)))
       else k = length demo_text)"
  by (rule clamp_text_longest) (simp_all add: demo_text_def encodable_def)

end
