(* ===== verification/Fs.thy ===== *)
theory Fs
  imports Models
begin

text \<open>
  The file system as the program sees it through \<open>pathlib\<close>: a finite map from canonical paths to
  nodes, symbolic links with their targets, hard-link counts, and the operations the storage modules
  call. A path is the list of its components from the root; the components of a link target may be
  the dot segments.
\<close>

datatype node =
    Dir
  | File pystr nat                 \<comment> \<open>decoded content and number of hard links\<close>
  | Link bool path                 \<comment> \<open>absolute or relative target\<close>

type_synonym fs = "(path \<times> node) list"

definition lookup :: "fs \<Rightarrow> path \<Rightarrow> node option" where
  "lookup f p = (if p = [] then Some Dir else map_of f p)"

definition dot :: pystr where
  "dot = [46]"

definition dotdot :: pystr where
  "dotdot = [46, 46]"

text \<open>\<open>Path.resolve()\<close>: follow the components from a canonical directory; \<open>n\<close> bounds the links
  followed, as the kernel does.\<close>

function follow :: "fs \<Rightarrow> nat \<Rightarrow> path \<Rightarrow> path \<Rightarrow> path res" where
  "follow f n acc [] = Inr acc"
| "follow f n acc (c # cs) =
    (if c = dot then follow f n acc cs
     else if c = dotdot then follow f n (butlast acc) cs
     else case lookup f (acc @ [c]) of
       Some (Link ab t) \<Rightarrow>
         (case n of 0 \<Rightarrow> Inl (exc OSError [Lit ''Too many levels of symbolic links''])
          | Suc m \<Rightarrow> follow f m (if ab then [] else acc) (t @ cs))
     | _ \<Rightarrow> follow f n (acc @ [c]) cs)"
  by pat_completeness auto
termination
  by (relation "measures [\<lambda>(f, n, acc, cs). n, \<lambda>(f, n, acc, cs). length cs]") auto

definition max_links :: nat where
  "max_links = 40"

definition resolve :: "fs \<Rightarrow> path \<Rightarrow> path res" where
  "resolve f p = follow f max_links [] p"

text \<open>\<open>lstat\<close> does not follow the last component; its parents are followed.\<close>

definition lstat :: "fs \<Rightarrow> path \<Rightarrow> node option" where
  "lstat f p =
    (if p = [] then Some Dir
     else case resolve f (butlast p) of Inl _ \<Rightarrow> None | Inr d \<Rightarrow> lookup f (d @ [last p]))"

definition is_link :: "node option \<Rightarrow> bool" where
  "is_link x = (case x of Some (Link _ _) \<Rightarrow> True | _ \<Rightarrow> False)"

definition is_symlink :: "fs \<Rightarrow> path \<Rightarrow> bool" where
  "is_symlink f p = is_link (lstat f p)"

definition stat :: "fs \<Rightarrow> path \<Rightarrow> node option" where
  "stat f p = (case resolve f p of Inl _ \<Rightarrow> None | Inr q \<Rightarrow> lookup f q)"

definition node_is_file :: "node option \<Rightarrow> bool" where
  "node_is_file x = (case x of Some (File _ _) \<Rightarrow> True | _ \<Rightarrow> False)"

definition is_file :: "fs \<Rightarrow> path \<Rightarrow> bool" where
  "is_file f p = node_is_file (stat f p)"

definition is_dir :: "fs \<Rightarrow> path \<Rightarrow> bool" where
  "is_dir f p \<longleftrightarrow> stat f p = Some Dir"

text \<open>\<open>read_text\<close>, with universal newlines.\<close>

definition read_text :: "fs \<Rightarrow> path \<Rightarrow> pystr res" where
  "read_text f p = (case stat f p of
     Some (File t _) \<Rightarrow> Inr (universal_newlines t)
   | _ \<Rightarrow> Inl (exc OSError [Lit ''cannot read'']))"

text \<open>Replacing a file by a freshly written one: the new file has one link.\<close>

definition put_file :: "path \<Rightarrow> pystr \<Rightarrow> fs \<Rightarrow> fs" where
  "put_file p t f = dict_set p (File t 1) f"

text \<open>\<open>mkdir(parents=True, exist_ok=True)\<close> of a canonical path.\<close>

fun missing_dirs :: "fs \<Rightarrow> path \<Rightarrow> path \<Rightarrow> fs" where
  "missing_dirs f acc [] = f"
| "missing_dirs f acc (c # cs) =
    (let p = acc @ [c] in
     missing_dirs (if lookup f p = None then dict_set p Dir f else f) p cs)"

definition mkdirs :: "path \<Rightarrow> fs \<Rightarrow> fs" where
  "mkdirs p f = missing_dirs f [] p"

text \<open>The paths under a directory, in the order of their component lists (\<open>sorted\<close> of paths).\<close>

definition below :: "fs \<Rightarrow> path \<Rightarrow> path list" where
  "below f d = sort (uniq (filter (\<lambda>p. strict_prefix d p) (map fst f)))"

text \<open>\<open>Path(s)\<close> for the directory \<open>cwd\<close> of the process, and \<open>cwd / s\<close>: empty and single-dot components are dropped.\<close>

definition to_path :: "path \<Rightarrow> pystr \<Rightarrow> path" where
  "to_path cwd s =
    (if starts_with s [47] then [] else cwd) @ filter (\<lambda>c. c \<noteq> [] \<and> c \<noteq> dot) (split_on 47 s)"

definition path_text :: "path \<Rightarrow> pystr" where
  "path_text p = [47] @ join [47] p"

section \<open>Canonical paths\<close>

text \<open>No proper or improper prefix of the path is a link, and no component is a dot segment.\<close>

definition canonical :: "fs \<Rightarrow> path \<Rightarrow> bool" where
  "canonical f p \<longleftrightarrow> list_all (\<lambda>a. \<not> is_link (lookup f a)) (prefixes p)
    \<and> list_all (\<lambda>c. c \<noteq> dot \<and> c \<noteq> dotdot) p"

lemma canonical_Nil [simp]: "canonical f []"
  by (simp add: canonical_def lookup_def is_link_def)

lemma canonical_snoc:
  "canonical f (p @ [c]) \<longleftrightarrow> canonical f p \<and> c \<noteq> dot \<and> c \<noteq> dotdot \<and> \<not> is_link (lookup f (p @ [c]))"
  by (auto simp: canonical_def prefixes_snoc)

lemma canonical_butlast: "canonical f p \<Longrightarrow> canonical f (butlast p)"
  by (cases p rule: rev_cases) (simp_all add: canonical_snoc)

lemma canonical_append: "canonical f (p @ q) \<Longrightarrow> canonical f p"
  by (induction q rule: rev_induct) (simp_all add: canonical_snoc flip: append_assoc)

text \<open>Resolving gives a canonical path, and a canonical path resolves to itself.\<close>

lemma follow_canonical: "follow f n acc cs = Inr p \<Longrightarrow> canonical f acc \<Longrightarrow> canonical f p"
proof (induction f n acc cs rule: follow.induct)
  case (1 f n acc)
  then show ?case by simp
next
  case (2 f n acc c cs)
  consider "c = dot" | "c = dotdot" "c \<noteq> dot" | "c \<noteq> dot" "c \<noteq> dotdot" by blast
  then show ?case
  proof cases
    case d: 1
    with 2 show ?thesis by simp
  next
    case dd: 2
    with 2 show ?thesis by (simp add: canonical_butlast)
  next
    case 3
    show ?thesis
    proof (cases "lookup f (acc @ [c])")
      case None
      with 3 2 show ?thesis by (simp add: canonical_snoc is_link_def)
    next
      case (Some x)
      with 3 2 show ?thesis
        by (cases x) (auto simp: canonical_snoc is_link_def split: nat.splits if_splits)
    qed
  qed
qed

lemma follow_id: "canonical f (acc @ cs) \<Longrightarrow> follow f n acc cs = Inr (acc @ cs)"
proof (induction cs arbitrary: acc)
  case (Cons c cs)
  have "canonical f (acc @ [c])" using canonical_append [of f "acc @ [c]" cs] Cons.prems by simp
  then have "c \<noteq> dot" "c \<noteq> dotdot" "\<not> is_link (lookup f (acc @ [c]))" by (simp_all add: canonical_snoc)
  then have "follow f n acc (c # cs) = follow f n (acc @ [c]) cs"
    by (auto simp: is_link_def split: option.splits node.splits)
  with Cons.IH [of "acc @ [c]"] Cons.prems show ?case by simp
qed simp

lemma resolve_canonical: "resolve f p = Inr q \<Longrightarrow> canonical f q"
  unfolding resolve_def by (erule follow_canonical) simp

lemma resolve_id [path_simps]: "canonical f p \<Longrightarrow> resolve f p = Inr p"
  unfolding resolve_def using follow_id [of f "[]" p max_links] by simp

lemma lstat_canonical [path_simps]: "canonical f p \<Longrightarrow> lstat f (p @ [c]) = lookup f (p @ [c])"
  by (auto simp: lstat_def resolve_id)

lemma lstat_self [path_simps]: "canonical f p \<Longrightarrow> lstat f p = lookup f p"
  by (cases p rule: rev_cases) (auto simp: lstat_def resolve_id canonical_snoc lookup_def)

lemma stat_canonical [path_simps]: "canonical f p \<Longrightarrow> stat f p = lookup f p"
  by (simp add: stat_def resolve_id)

section \<open>Writing\<close>

lemma lookup_put [path_simps]:
  "p \<noteq> [] \<Longrightarrow> lookup (put_file p t f) q = (if q = p then Some (File t 1) else lookup f q)"
  by (auto simp: lookup_def put_file_def store_simps)

lemma lookup_missing_dirs:
  "lookup (missing_dirs f acc cs) q =
    (if lookup f q = None \<and> (\<exists>a b. cs = a @ b \<and> a \<noteq> [] \<and> q = acc @ a) then Some Dir else lookup f q)"
proof (induction cs arbitrary: f acc)
  case (Cons c cs)
  let ?p = "acc @ [c]"
  let ?f = "if lookup f ?p = None then dict_set ?p Dir f else f"
  have l: "lookup ?f q = (if lookup f q = None \<and> q = ?p then Some Dir else lookup f q)"
    by (auto simp: lookup_def store_simps)
  have e: "(\<exists>a b. c # cs = a @ b \<and> a \<noteq> [] \<and> q = acc @ a) \<longleftrightarrow>
      q = ?p \<or> (\<exists>a b. cs = a @ b \<and> a \<noteq> [] \<and> q = ?p @ a)"
    by (auto simp: Cons_eq_append_conv)
  have "lookup (missing_dirs f acc (c # cs)) q = lookup (missing_dirs ?f ?p cs) q"
    by (simp add: Let_def)
  also have "\<dots> = (if lookup f q = None \<and> (q = ?p \<or> (\<exists>a b. cs = a @ b \<and> a \<noteq> [] \<and> q = ?p @ a))
      then Some Dir else lookup f q)"
    unfolding Cons.IH l by auto
  finally show ?case unfolding e .
qed simp

lemma lookup_mkdirs [path_simps]:
  "lookup (mkdirs p f) q = (if lookup f q = None \<and> q \<noteq> [] \<and> prefix q p then Some Dir else lookup f q)"
  unfolding mkdirs_def lookup_missing_dirs prefix_def by (auto simp: lookup_def)

text \<open>Neither of them creates a link, so canonical paths stay canonical.\<close>

lemma canonical_mono:
  "(\<And>q. is_link (lookup g q) \<Longrightarrow> is_link (lookup f q)) \<Longrightarrow> canonical f p \<Longrightarrow> canonical g p"
  unfolding canonical_def list_all_iff by blast

lemma canonical_put: "p \<noteq> [] \<Longrightarrow> canonical f q \<Longrightarrow> canonical (put_file p t f) q"
  by (rule canonical_mono) (auto simp: path_simps is_link_def split: if_splits)

lemma canonical_mkdirs: "canonical f q \<Longrightarrow> canonical (mkdirs p f) q"
  by (rule canonical_mono) (auto simp: path_simps is_link_def split: if_splits)

end
