(* ===== verification/Sha256.thy ===== *)
theory Sha256
  imports Prelude "HOL-Library.Word"
begin

text \<open>
  \<open>hashlib.sha256(\<dots>).hexdigest()\<close> of the standard library (FIPS 180-4), used for content hashes
  (\<^verbatim>\<open>ingest/dedup.py\<close>), archive names and truncated file names (\<^verbatim>\<open>storage/paths.py\<close>). Bytes are
  integers, words are \<open>32 word\<close>s with wrapping addition.
\<close>

unbundle bit_operations_syntax

type_synonym w32 = "32 word"

definition sha_k :: "w32 list" where
  "sha_k = [1116352408, 1899447441, 3049323471, 3921009573, 961987163, 1508970993, 2453635748, 2870763221,
     3624381080, 310598401, 607225278, 1426881987, 1925078388, 2162078206, 2614888103, 3248222580,
     3835390401, 4022224774, 264347078, 604807628, 770255983, 1249150122, 1555081692, 1996064986,
     2554220882, 2821834349, 2952996808, 3210313671, 3336571891, 3584528711, 113926993, 338241895,
     666307205, 773529912, 1294757372, 1396182291, 1695183700, 1986661051, 2177026350, 2456956037,
     2730485921, 2820302411, 3259730800, 3345764771, 3516065817, 3600352804, 4094571909, 275423344,
     430227734, 506948616, 659060556, 883997877, 958139571, 1322822218, 1537002063, 1747873779,
     1955562222, 2024104815, 2227730452, 2361852424, 2428436474, 2756734187, 3204031479, 3329325298]"

definition sha_h0 :: "w32 list" where
  "sha_h0 = [1779033703, 3144134277, 1013904242, 2773480762, 1359893119, 2600822924, 528734635, 1541459225]"

definition rotr :: "nat \<Rightarrow> w32 \<Rightarrow> w32" where
  "rotr n x = drop_bit n x OR push_bit (32 - n) x"

definition small_sigma0 :: "w32 \<Rightarrow> w32" where
  "small_sigma0 x = rotr 7 x XOR rotr 18 x XOR drop_bit 3 x"

definition small_sigma1 :: "w32 \<Rightarrow> w32" where
  "small_sigma1 x = rotr 17 x XOR rotr 19 x XOR drop_bit 10 x"

definition big_sigma0 :: "w32 \<Rightarrow> w32" where
  "big_sigma0 x = rotr 2 x XOR rotr 13 x XOR rotr 22 x"

definition big_sigma1 :: "w32 \<Rightarrow> w32" where
  "big_sigma1 x = rotr 6 x XOR rotr 11 x XOR rotr 25 x"

definition sha_ch :: "w32 \<Rightarrow> w32 \<Rightarrow> w32 \<Rightarrow> w32" where
  "sha_ch x y z = (x AND y) XOR (NOT x AND z)"

definition sha_maj :: "w32 \<Rightarrow> w32 \<Rightarrow> w32 \<Rightarrow> w32" where
  "sha_maj x y z = (x AND y) XOR (x AND z) XOR (y AND z)"

text \<open>The message schedule, kept as the last sixteen words, newest first.\<close>

fun schedule :: "nat \<Rightarrow> w32 list \<Rightarrow> w32 list" where
  "schedule 0 ws = rev ws"
| "schedule (Suc n) ws =
    schedule n ((small_sigma1 (ws ! 1) + ws ! 6 + small_sigma0 (ws ! 14) + ws ! 15) # ws)"

fun rounds :: "w32 list \<Rightarrow> w32 list \<Rightarrow> w32 list \<Rightarrow> w32 list" where
  "rounds (k # ks) (w # ws) [a, b, c, d, e, f, g, h] =
    (let t1 = h + big_sigma1 e + sha_ch e f g + k + w;
         t2 = big_sigma0 a + sha_maj a b c
     in rounds ks ws [t1 + t2, a, b, c, d + t1, e, f, g])"
| "rounds _ _ st = st"

definition compress :: "w32 list \<Rightarrow> w32 list \<Rightarrow> w32 list" where
  "compress h blk = map2 (+) h (rounds sha_k (schedule 48 (rev blk)) h)"

fun be_words :: "bytes \<Rightarrow> w32 list" where
  "be_words (a # b # c # d # bs) =
    word_of_int (a * 0x1000000 + b * 0x10000 + c * 0x100 + d) # be_words bs"
| "be_words _ = []"

fun be_bytes :: "nat \<Rightarrow> int \<Rightarrow> bytes" where
  "be_bytes 0 n = []"
| "be_bytes (Suc k) n = be_bytes k (n div 256) @ [n mod 256]"

definition sha_pad :: "bytes \<Rightarrow> bytes" where
  "sha_pad m = m @ [128] @ replicate ((119 - length m mod 64) mod 64) 0 @ be_bytes 8 (int (length m) * 8)"

function sha_blocks :: "w32 list \<Rightarrow> w32 list \<Rightarrow> w32 list" where
  "sha_blocks h ws = (if ws = [] then h else sha_blocks (compress h (take 16 ws)) (drop 16 ws))"
  by pat_completeness auto
termination
  by (relation "measure (\<lambda>(_, ws). length ws)") auto

declare sha_blocks.simps [simp del]

definition hex_digit :: "int \<Rightarrow> uchar" where
  "hex_digit n = (if n < 10 then 48 + n else 87 + n)"

fun hex_word :: "nat \<Rightarrow> int \<Rightarrow> pystr" where
  "hex_word 0 n = []"
| "hex_word (Suc k) n = hex_word k (n div 16) @ [hex_digit (n mod 16)]"

definition sha256_hex :: "bytes \<Rightarrow> pystr" where
  "sha256_hex m = concat (map (\<lambda>w. hex_word 8 (uint w)) (sha_blocks sha_h0 (be_words (sha_pad m))))"

section \<open>The shape of a digest\<close>

lemma length_hex_word [simp]: "length (hex_word k n) = k"
  by (induction k arbitrary: n) auto

lemma hex_digit_range: "0 \<le> n \<Longrightarrow> n < 16 \<Longrightarrow>
    48 \<le> hex_digit n \<and> hex_digit n \<le> 57 \<or> 97 \<le> hex_digit n \<and> hex_digit n \<le> 102"
  by (auto simp: hex_digit_def)

lemma hex_word_chars: "c \<in> set (hex_word k n) \<Longrightarrow> 48 \<le> c \<and> c \<le> 57 \<or> 97 \<le> c \<and> c \<le> 102"
proof (induction k arbitrary: n)
  case (Suc k)
  from Suc.prems consider "c \<in> set (hex_word k (n div 16))" | "c = hex_digit (n mod 16)" by auto
  then show ?case using Suc.IH hex_digit_range [of "n mod 16"] by cases simp_all
qed simp

lemma length_rounds: "length st = 8 \<Longrightarrow> length (rounds ks ws st) = 8"
  by (induction ks ws st rule: rounds.induct) (auto simp: Let_def)

lemma length_compress: "length h = 8 \<Longrightarrow> length (compress h blk) = 8"
  by (simp add: compress_def length_rounds)

lemma length_sha_blocks: "length h = 8 \<Longrightarrow> length (sha_blocks h ws) = 8"
proof (induction h ws rule: sha_blocks.induct)
  case (1 h ws)
  then show ?case by (subst sha_blocks.simps) (simp add: length_compress)
qed

lemma length_concat_const: "(\<forall>x \<in> set xs. length x = n) \<Longrightarrow> length (concat xs) = n * length xs"
  by (induction xs) auto

lemma length_sha256_hex [simp]: "length (sha256_hex m) = 64"
proof -
  have "length (sha_blocks sha_h0 (be_words (sha_pad m))) = 8"
    by (rule length_sha_blocks) (simp add: sha_h0_def)
  then show ?thesis by (simp add: sha256_hex_def length_concat_const [where n = 8])
qed

lemma sha256_hex_chars: "c \<in> set (sha256_hex m) \<Longrightarrow> 48 \<le> c \<and> c \<le> 57 \<or> 97 \<le> c \<and> c \<le> 102"
  unfolding sha256_hex_def by (auto dest!: hex_word_chars)

end
