(* ===== verification/Paths.thy ===== *)
theory Paths
  imports Fs Utf8 Sha256
begin

text \<open>
  \<^verbatim>\<open>src/groundtruth/storage/paths.py\<close>: note titles made into file names, and vault-relative paths
  resolved under the vault root. Every violation raises \<open>UnsafePathError\<close>.
\<close>

section \<open>Titles and segments\<close>

definition max_stem_bytes :: nat where
  "max_stem_bytes = 200"

definition max_segment_bytes :: nat where
  "max_segment_bytes = 255"

definition max_depth :: nat where
  "max_depth = 64"

text \<open>The characters \<open><>:"/\|?*\<close> and NUL.\<close>

definition forbidden_chars :: "uchar list" where
  "forbidden_chars = [60, 62, 58, 34, 47, 92, 124, 63, 42, 0]"

definition part_forbidden_chars :: "uchar list" where
  "part_forbidden_chars = filter (\<lambda>c. c \<noteq> 47) forbidden_chars"

definition control_categories :: "string list" where
  "control_categories = [''Cc'', ''Cf'', ''Cs'', ''Co'', ''Cn'']"

definition windows_reserved :: "pystr list" where
  "windows_reserved = map lit [''con'', ''prn'', ''aux'', ''nul'', ''conin$'', ''conout$'', ''clock$'']
     @ map (\<lambda>i. lit ''com'' @ [48 + int i]) [1..<10]
     @ map (\<lambda>i. lit ''lpt'' @ [48 + int i]) [1..<10]"

definition unsafe :: "message \<Rightarrow> exn" where
  "unsafe m = exc_at UnsafePathError m ''write-validation''"

definition reserved_stem :: "ucd \<Rightarrow> pystr \<Rightarrow> pystr" where
  "reserved_stem u t = lower u (rstrip_by (\<lambda>c. c = 32) (first_field 46 t))"

definition char_check :: "ucd \<Rightarrow> message \<Rightarrow> uchar list \<Rightarrow> uchar \<Rightarrow> unit res" where
  "char_check u m bad c =
    bindR (guardR (c \<notin> set bad) (unsafe (m @ [Lit '' contains a forbidden character '', Repr [c]])))
      (\<lambda>_. guardR (category u c \<notin> set control_categories)
        (unsafe (m @ [Lit '' contains a control or unassigned character''])))"

definition title_text_check :: "ucd \<Rightarrow> message \<Rightarrow> pystr \<Rightarrow> unit res" where
  "title_text_check u m t =
    bindR (guardR (\<not> contains_sub t dotdot) (unsafe (m @ [Lit '' contains ..''])))
      (\<lambda>_. forR (char_check u m forbidden_chars) t)"

definition truncate_stem :: "message \<Rightarrow> pystr \<Rightarrow> bytes \<Rightarrow> pystr res" where
  "truncate_stem m n b =
    (if length b > max_stem_bytes
     then let digest = take 12 (sha256_hex b);
              budget = max_stem_bytes - length digest - 1;
              cut = rstrip_by (\<lambda>c. c = 46 \<or> c = 32) (utf8_ignore (take budget b))
          in bindR (guardR (cut \<noteq> []) (unsafe (m @ [Lit '' has no safe content to keep after truncation''])))
               (\<lambda>_. Inr (cut @ [45] @ digest))
     else Inr n)"

definition sanitize_title :: "ucd \<Rightarrow> pystr \<Rightarrow> pystr res" where
  "sanitize_title u ttl =
    (let m = [Lit ''title '', Repr ttl]; n = nfc u ttl; k = nfkc u n in
     bindR (guardR (n = strip n) (unsafe (m @ [Lit '' has leading or trailing whitespace'']))) (\<lambda>_.
     bindR (guardR (n \<noteq> []) (unsafe [Lit ''title is empty''])) (\<lambda>_.
     bindR (guardR (\<not> starts_with n [126]) (unsafe (m @ [Lit '' starts with ~'']))) (\<lambda>_.
     bindR (guardR (\<not> starts_with n [46]) (unsafe (m @ [Lit '' starts with .'']))) (\<lambda>_.
     bindR (guardR (\<not> ends_with n [46] \<and> \<not> ends_with n [32]) (unsafe (m @ [Lit '' ends with a dot or space'']))) (\<lambda>_.
     bindR (forR (title_text_check u m) [n, k]) (\<lambda>_.
     bindR (guardR (reserved_stem u n \<notin> set windows_reserved \<and> reserved_stem u k \<notin> set windows_reserved)
       (unsafe (m @ [Lit '' is a reserved device name'']))) (\<lambda>_.
     bindR (utf8_encode n) (\<lambda>b. truncate_stem m n b)))))))))"

definition validate_segment :: "ucd \<Rightarrow> pystr \<Rightarrow> pystr \<Rightarrow> unit res" where
  "validate_segment u part seg =
    bindR (guardR (seg \<noteq> []) (unsafe [Lit ''path part '', Repr part, Lit '' has an empty segment''])) (\<lambda>_.
    bindR (guardR (seg \<noteq> dot \<and> seg \<noteq> dotdot) (unsafe [Lit ''path part '', Repr part, Lit '' contains a dot segment''])) (\<lambda>_.
    bindR (guardR (\<not> starts_with seg [46]) (unsafe [Lit ''path segment '', Repr seg, Lit '' starts with .''])) (\<lambda>_.
    bindR (utf8_encode seg) (\<lambda>b.
    bindR (guardR (length b \<le> max_segment_bytes) (unsafe [Lit ''path segment '', Repr seg, Lit '' is too long''])) (\<lambda>_.
    guardR (\<not> contains_sub (nfkc u seg) dotdot \<and> list_all (\<lambda>c. c \<notin> set forbidden_chars) (nfkc u seg))
      (unsafe [Lit ''path segment '', Repr seg, Lit '' normalizes to something unsafe'']))))))"

text \<open>The checks of one part; its segments when it passes.\<close>

definition check_part :: "ucd \<Rightarrow> pystr \<Rightarrow> pystr list res" where
  "check_part u part =
    (let m = [Lit ''path part '', Repr part] in
     bindR (guardR (part \<noteq> []) (unsafe [Lit ''path part must be a non-empty string''])) (\<lambda>_.
     bindR (guardR (\<not> starts_with part [126]) (unsafe (m @ [Lit '' starts with ~'']))) (\<lambda>_.
     bindR (forR (char_check u m part_forbidden_chars) part) (\<lambda>_.
     bindR (guardR (\<not> starts_with part [47]) (unsafe (m @ [Lit '' is absolute'']))) (\<lambda>_.
     bindR (forR (validate_segment u part) (split_on 47 part)) (\<lambda>_.
     Inr (split_on 47 part)))))))"

fun walk :: "fs \<Rightarrow> path \<Rightarrow> pystr list \<Rightarrow> path res" where
  "walk f cur [] = Inr cur"
| "walk f cur (s # ss) =
    (if is_symlink f (cur @ [s]) then Inl (unsafe [Lit ''path component '', Repr s, Lit '' is a symlink''])
     else walk f (cur @ [s]) ss)"

definition resolve_in_vault :: "ucd \<Rightarrow> fs \<Rightarrow> path \<Rightarrow> pystr list \<Rightarrow> path res" where
  "resolve_in_vault u f vault_root parts =
    bindR (resolve f vault_root) (\<lambda>root.
    bindR (guardR (parts \<noteq> []) (unsafe [Lit ''no path parts given''])) (\<lambda>_.
    bindR (mapR (check_part u) parts) (\<lambda>segss.
    let segments = concat segss in
    bindR (guardR (segments \<noteq> []) (unsafe [Lit ''no usable path segments''])) (\<lambda>_.
    bindR (guardR (length segments \<le> max_depth) (unsafe [Lit ''path nests too deep''])) (\<lambda>_.
    bindR (walk f root segments) (\<lambda>current.
    case resolve f current of
      Inl e \<Rightarrow> Inl (unsafe (Lit ''path could not be resolved: '' # emsg e))
    | Inr real \<Rightarrow>
        bindR (guardR (real = root \<or> strict_prefix root real)
          (unsafe [Lit ''resolved path escapes vault''])) (\<lambda>_. Inr current)))))))"

section \<open>What the checks accept\<close>

definition safe_char :: "ucd \<Rightarrow> uchar list \<Rightarrow> uchar \<Rightarrow> bool" where
  "safe_char u bad c \<longleftrightarrow> c \<notin> set bad \<and> category u c \<notin> set control_categories"

definition segment_ok :: "ucd \<Rightarrow> pystr \<Rightarrow> bool" where
  "segment_ok u seg \<longleftrightarrow> seg \<noteq> [] \<and> \<not> starts_with seg [46] \<and> list_all encodable seg
    \<and> length (enc seg) \<le> max_segment_bytes \<and> \<not> contains_sub (nfkc u seg) dotdot
    \<and> list_all (\<lambda>c. c \<notin> set forbidden_chars) (nfkc u seg)"

definition part_ok :: "ucd \<Rightarrow> pystr \<Rightarrow> bool" where
  "part_ok u part \<longleftrightarrow> \<not> starts_with part [126] \<and> list_all (safe_char u part_forbidden_chars) part
    \<and> list_all (segment_ok u) (split_on 47 part)"

lemma char_check_ok [guard_simps]: "char_check u m bad c = Inr () \<longleftrightarrow> safe_char u bad c"
  by (simp add: char_check_def safe_char_def)

lemma title_text_check_ok [guard_simps]:
  "title_text_check u m t = Inr () \<longleftrightarrow> \<not> contains_sub t dotdot \<and> list_all (safe_char u forbidden_chars) t"
  by (simp add: title_text_check_def forR_ok_iff guard_simps list_all_iff)

lemma not_dot_segment: "\<not> starts_with seg [46] \<Longrightarrow> seg \<noteq> dot \<and> seg \<noteq> dotdot"
  by (auto simp: starts_with_iff dot_def dotdot_def)

lemma validate_segment_ok [guard_simps]: "validate_segment u part seg = Inr () \<longleftrightarrow> segment_ok u seg"
  using not_dot_segment [of seg]
  by (auto simp: validate_segment_def segment_ok_def utf8_encode_ok)

lemma check_part_ok [guard_simps]:
  "check_part u part = Inr segs \<longleftrightarrow> part_ok u part \<and> segs = split_on 47 part"
proof -
  have "segment_ok u (hd (split_on 47 part)) \<Longrightarrow> part \<noteq> [] \<and> \<not> starts_with part [47]"
    by (auto simp: segment_ok_def starts_with_iff)
  moreover have "hd (split_on 47 part) \<in> set (split_on 47 part)" by simp
  ultimately show ?thesis
    by (auto simp: check_part_def Let_def part_ok_def guard_simps forR_ok_iff list_all_iff)
qed

lemma walk_ok [guard_simps]:
  assumes "canonical f cur" and "list_all (\<lambda>s. s \<noteq> dot \<and> s \<noteq> dotdot) ss"
  shows "walk f cur ss = Inr p \<longleftrightarrow> p = cur @ ss \<and> canonical f p"
  using assms
proof (induction ss arbitrary: cur)
  case Nil
  then show ?case by auto
next
  case (Cons s ss)
  have l: "is_symlink f (cur @ [s]) \<longleftrightarrow> is_link (lookup f (cur @ [s]))"
    using Cons.prems by (simp add: is_symlink_def path_simps)
  show ?case
  proof (cases "is_link (lookup f (cur @ [s]))")
    case True
    then have "\<not> canonical f (cur @ s # ss)"
      using canonical_append [of f "cur @ [s]" ss] by (auto simp: canonical_snoc)
    with True l show ?thesis by auto
  next
    case False
    then have "canonical f (cur @ [s])" using Cons.prems by (simp add: canonical_snoc)
    with Cons.IH [of "cur @ [s]"] Cons.prems False l show ?thesis by simp
  qed
qed

lemma mapR_check_parts:
  "mapR (check_part u) parts = Inr segss \<longleftrightarrow> list_all (part_ok u) parts \<and> segss = map (split_on 47) parts"
  by (induction parts arbitrary: segss) (auto simp: guard_simps)

text \<open>The segments of the parts, joined.\<close>

definition segments_of :: "pystr list \<Rightarrow> pystr list" where
  "segments_of parts = concat (map (split_on 47) parts)"

lemma parts_segments_ok: "list_all (part_ok u) parts \<Longrightarrow> s \<in> set (segments_of parts) \<Longrightarrow> segment_ok u s"
  by (auto simp: segments_of_def part_ok_def list_all_iff)

lemma segments_of_nonempty: "parts \<noteq> [] \<Longrightarrow> segments_of parts \<noteq> []"
  by (cases parts) (simp_all add: segments_of_def)

lemma resolve_in_vault_iff:
  assumes "resolve f vault_root = Inr root"
  shows "resolve_in_vault u f vault_root parts = Inr p \<longleftrightarrow>
    parts \<noteq> [] \<and> list_all (part_ok u) parts \<and> length (segments_of parts) \<le> max_depth
    \<and> p = root @ segments_of parts \<and> canonical f p"
proof (cases "parts \<noteq> [] \<and> list_all (part_ok u) parts")
  case False
  then show ?thesis using assms by (auto simp: resolve_in_vault_def mapR_check_parts)
next
  case True
  then have ne: "segments_of parts \<noteq> []" by (simp add: segments_of_nonempty)
  have nd: "list_all (\<lambda>s. s \<noteq> dot \<and> s \<noteq> dotdot) (segments_of parts)"
    using parts_segments_ok [of u parts] True not_dot_segment
    unfolding list_all_iff segment_ok_def by blast
  note w = walk_ok [OF resolve_canonical [OF assms] nd]
  have seg: "concat (map (split_on 47) parts) = segments_of parts" by (simp add: segments_of_def)
  have pre: "strict_prefix root (root @ segments_of parts)" using ne by (simp add: strict_prefix_def)
  have ex: "\<exists>x. x \<in> set parts" using True by (cases parts) auto
  show ?thesis
    using True assms ne pre ex
    by (auto simp: resolve_in_vault_def mapR_check_parts seg w Let_def resolve_id split: sum.splits)
qed

section \<open>File names made from titles\<close>

text \<open>What a downstream file system and a downstream normal form can rely on.\<close>

definition safe_name :: "ucd \<Rightarrow> pystr \<Rightarrow> bool" where
  "safe_name u s \<longleftrightarrow> s \<noteq> [] \<and> hd s \<notin> {126, 46} \<and> last s \<notin> {46, 32} \<and> \<not> contains_sub s dotdot
    \<and> list_all (safe_char u forbidden_chars) s \<and> list_all encodable s \<and> length (enc s) \<le> max_stem_bytes"

text \<open>The Unicode database agrees with ASCII on the printable ASCII characters.\<close>

definition ascii_printable_ok :: "ucd \<Rightarrow> bool" where
  "ascii_printable_ok u \<longleftrightarrow> (\<forall>c. 32 \<le> c \<and> c \<le> 126 \<longrightarrow> category u c = ascii_category c)"

lemma no_dotdot_append: "46 \<notin> set t \<Longrightarrow> contains_sub (s @ t) dotdot \<Longrightarrow> contains_sub s dotdot"
proof (induction s)
  case Nil
  then show ?case by (auto simp: contains_sub_iff dotdot_def)
next
  case (Cons c s)
  then show ?case by (cases s) (auto simp: dotdot_def starts_with_iff)
qed

lemma starts_hd: "s \<noteq> [] \<Longrightarrow> starts_with s [c] \<longleftrightarrow> hd s = c"
  by (cases s) (auto simp: starts_with_iff)

lemma ends_last: "s \<noteq> [] \<Longrightarrow> ends_with s [c] \<longleftrightarrow> last s = c"
  by (cases s rule: rev_cases) (auto simp: ends_with_iff)

lemma sanitize_title_cases:
  "sanitize_title u t = Inr s \<longleftrightarrow>
    (let n = nfc u t; k = nfkc u n in
     n = strip n \<and> n \<noteq> [] \<and> hd n \<notin> {126, 46} \<and> last n \<notin> {46, 32}
     \<and> list_all (\<lambda>x. \<not> contains_sub x dotdot \<and> list_all (safe_char u forbidden_chars) x) [n, k]
     \<and> reserved_stem u n \<notin> set windows_reserved \<and> reserved_stem u k \<notin> set windows_reserved
     \<and> list_all encodable n \<and> truncate_stem [Lit ''title '', Repr t] n (enc n) = Inr s)"
proof (cases "nfc u t = []")
  case True
  then show ?thesis by (auto simp: sanitize_title_def Let_def)
next
  case False
  then show ?thesis
    by (auto simp: sanitize_title_def Let_def guard_simps starts_hd ends_last utf8_encode_ok)
qed

lemma digest_chars_safe:
  assumes "ascii_printable_ok u" and "c \<in> set (45 # take 12 (sha256_hex b))"
  shows "safe_char u forbidden_chars c \<and> encodable c \<and> c < 128 \<and> c \<noteq> 46 \<and> c \<noteq> 32"
proof -
  from assms(2) have "c = 45 \<or> 48 \<le> c \<and> c \<le> 57 \<or> 97 \<le> c \<and> c \<le> 102"
    using sha256_hex_chars [of c b] by (auto dest: in_set_takeD)
  then have r: "32 \<le> c" "c \<le> 126" "c \<notin> {46, 32, 60, 62, 58, 34, 47, 92, 124, 63, 42, 0}" by auto
  then have "category u c = ascii_category c" using assms(1) by (simp add: ascii_printable_ok_def)
  moreover have "ascii_category c \<notin> set control_categories"
    using r(1,2) by (simp add: ascii_category_def control_categories_def)
  ultimately show ?thesis
    using r by (simp add: safe_char_def forbidden_chars_def encodable_def)
qed

lemma truncate_stem_long:
  assumes "length (enc n) > max_stem_bytes" and "list_all encodable n"
    and "truncate_stem m n (enc n) = Inr s"
  obtains k cut where "cut \<noteq> []" "prefix cut n" "length (enc cut) \<le> 187"
    "s = cut @ [45] @ take 12 (sha256_hex (enc n))"
proof -
  let ?b = "enc n"
  let ?cut = "rstrip_by (\<lambda>c. c = 46 \<or> c = 32) (utf8_ignore (take 187 ?b))"
  have s: "?cut \<noteq> []" "s = ?cut @ [45] @ take 12 (sha256_hex ?b)"
    using assms(1,3) by (auto simp: truncate_stem_def Let_def max_stem_bytes_def)
  from utf8_ignore_take [OF assms(2), of 187] obtain k where
    k: "utf8_ignore (take 187 ?b) = take k n" "length (enc (take k n)) \<le> 187" by blast
  have "prefix ?cut (take k n)" using rstrip_by_prefix k(1) by metis
  then obtain r where r: "take k n = ?cut @ r" by (auto simp: prefix_def)
  then have "length (enc ?cut) \<le> 187" using k(2) by simp
  moreover have "prefix ?cut n" using r take_is_prefix [of k n]
    by (simp add: prefix_order.trans [of ?cut "take k n" n])
  ultimately show ?thesis using that s by blast
qed

lemma enc_ascii: "\<forall>c \<in> set s. c < 128 \<Longrightarrow> length (enc s) = length s"
  by (simp add: length_enc_ascii)

section \<open>Properties\<close>

text \<open>
  C14. Containment. A vault-relative path is accepted exactly when there is at least one part, every
  part passes the checks (no \<open>~\<close>, no control or forbidden character, segments that are non-empty,
  not hidden, at most 255 bytes and harmless under NFKC), there are at most 64 segments, and no
  component below the vault root is a symbolic link; the result is then the canonical vault root
  followed by exactly those segments, so it lies inside the vault and resolves to itself.
\<close>

theorem resolve_in_vault_contained:
  assumes "resolve f vault_root = Inr root"
  shows "resolve_in_vault u f vault_root parts = Inr p \<longleftrightarrow>
    parts \<noteq> [] \<and> list_all (part_ok u) parts \<and> length (segments_of parts) \<le> max_depth
    \<and> p = root @ segments_of parts \<and> strict_prefix root p \<and> canonical f p \<and> resolve f p = Inr p"
proof -
  have "parts \<noteq> [] \<Longrightarrow> strict_prefix root (root @ segments_of parts)"
    using segments_of_nonempty by (auto simp: strict_prefix_def)
  then show ?thesis unfolding resolve_in_vault_iff [OF assms] using resolve_id by blast
qed

definition demo_fs :: fs where
  "demo_fs = [([lit ''v''], Dir), ([lit ''v'', lit ''a.md''], File (lit ''x'') 1),
     ([lit ''v'', lit ''out''], Link True [lit ''etc'']), ([lit ''etc''], Dir)]"

theorem resolve_in_vault_contained_witness:
  "resolve_in_vault ascii_ucd demo_fs [lit ''v''] [lit ''a.md''] = Inr [lit ''v'', lit ''a.md'']
   \<and> (\<forall>p. resolve_in_vault ascii_ucd demo_fs [lit ''v''] [lit ''out/x''] \<noteq> Inr p)"
proof -
  have r: "resolve demo_fs [lit ''v''] = Inr [lit ''v'']" by code_simp
  have a: "[lit ''a.md''] \<noteq> [] \<and> list_all (part_ok ascii_ucd) [lit ''a.md''] \<and> length (segments_of [lit ''a.md'']) \<le> max_depth
      \<and> [lit ''v'', lit ''a.md''] = [lit ''v''] @ segments_of [lit ''a.md'']
      \<and> strict_prefix [lit ''v''] [lit ''v'', lit ''a.md''] \<and> canonical demo_fs [lit ''v'', lit ''a.md'']
      \<and> resolve demo_fs [lit ''v'', lit ''a.md''] = Inr [lit ''v'', lit ''a.md'']" by code_simp
  have b: "\<not> canonical demo_fs ([lit ''v''] @ segments_of [lit ''out/x''])" by code_simp
  show ?thesis
  proof (intro conjI allI notI)
    show "resolve_in_vault ascii_ucd demo_fs [lit ''v''] [lit ''a.md''] = Inr [lit ''v'', lit ''a.md'']"
      by (subst resolve_in_vault_contained [OF r]) (rule a)
    fix p assume "resolve_in_vault ascii_ucd demo_fs [lit ''v''] [lit ''out/x''] = Inr p"
    then show False unfolding resolve_in_vault_contained [OF r] using b by auto
  qed
qed

text \<open>
  A title that \<open>sanitize_title\<close> accepts becomes a safe file name stem: not empty, not hidden, no
  leading \<open>~\<close>, no trailing dot or space, no \<open>..\<close>, no separator, device character or control
  character, encodable, and at most 200 bytes of UTF-8; a title whose normal form fits in 200 bytes
  is kept unchanged (up to NFC) and is no Windows device name.
\<close>

lemma sanitize_title_safe:
  assumes "ascii_printable_ok u" and "sanitize_title u t = Inr s"
  shows "safe_name u s \<and>
    (if length (enc (nfc u t)) \<le> max_stem_bytes
      then s = nfc u t \<and> reserved_stem u s \<notin> set windows_reserved else length s > 13)"
proof -
  let ?n = "nfc u t"
  from assms(2) have n: "?n \<noteq> []" "hd ?n \<notin> {126, 46}" "last ?n \<notin> {46, 32}" "\<not> contains_sub ?n dotdot"
    "list_all (safe_char u forbidden_chars) ?n" "list_all encodable ?n"
    "reserved_stem u ?n \<notin> set windows_reserved"
    and tr: "truncate_stem [Lit ''title '', Repr t] ?n (enc ?n) = Inr s"
    by (simp_all add: sanitize_title_cases Let_def)
  show ?thesis
  proof (cases "length (enc ?n) \<le> max_stem_bytes")
    case True
    then have "s = ?n" using tr by (simp add: truncate_stem_def)
    with n True show ?thesis by (simp add: safe_name_def)
  next
    case False
    define d where "d = 45 # take 12 (sha256_hex (enc ?n))"
    have len: "length d = 13" by (simp add: d_def)
    have ds: "safe_char u forbidden_chars c \<and> encodable c \<and> c < 128 \<and> c \<noteq> 46 \<and> c \<noteq> 32" if "c \<in> set d" for c
      using digest_chars_safe [OF assms(1) that [unfolded d_def]] .
    from False n(6) tr obtain cut where
      cut: "cut \<noteq> []" "prefix cut ?n" "length (enc cut) \<le> 187" "s = cut @ d"
      by (auto elim!: truncate_stem_long simp: not_le d_def)
    from cut(2) obtain r where r: "?n = cut @ r" by (auto simp: prefix_def)
    have "d \<noteq> []" by (simp add: d_def)
    then have "last s \<in> set d" using cut(4) by simp
    then have last: "last s \<notin> {46, 32}" using ds by blast
    have "46 \<notin> set d" using ds by blast
    then have "contains_sub s dotdot \<Longrightarrow> contains_sub cut dotdot" unfolding cut(4) by (rule no_dotdot_append)
    moreover have "contains_sub cut dotdot \<Longrightarrow> contains_sub ?n dotdot"
      unfolding r contains_sub_iff by (metis append.assoc)
    ultimately have dots: "\<not> contains_sub s dotdot" using n(4) by blast
    have bytes: "length (enc d) = 13" using enc_ascii [of d] ds len by simp
    have chars: "list_all (safe_char u forbidden_chars) s" "list_all encodable s"
      using n(5,6) ds unfolding cut(4) r by (auto simp: list_all_iff)
    have hd: "hd s \<notin> {126, 46}" using n(2) cut(1) unfolding cut(4) r by simp
    have "s \<noteq> []" "length (enc s) \<le> max_stem_bytes" "length s > 13"
      using cut bytes len by (auto simp: max_stem_bytes_def)
    with last dots chars hd False show ?thesis unfolding safe_name_def by simp
  qed
qed

lemma sanitize_title_safe_witness:
  "sanitize_title ascii_ucd (lit ''Acme Corp'') = Inr (lit ''Acme Corp'') \<and> safe_name ascii_ucd (lit ''Acme Corp'')"
proof -
  have u: "ascii_printable_ok ascii_ucd" by (simp add: ascii_printable_ok_def)
  have s: "sanitize_title ascii_ucd (lit ''Acme Corp'') = Inr (lit ''Acme Corp'')" by code_simp
  from sanitize_title_safe [OF u s] s show ?thesis by blast
qed

end
