(* ===== verification/Frontmatter.thy ===== *)
theory Frontmatter
  imports Models
begin

text \<open>
  \<^verbatim>\<open>src/groundtruth/storage/frontmatter.py\<close>: rendering a note to text and parsing it back.

  YAML is a third-party library: \<open>ydump\<close> is \<open>yaml.safe_dump({key: value}, \<dots>)\<close>, \<open>yload\<close> is
  \<open>yaml.safe_load\<close> with the document as data or the exception it raises, and \<open>ydate\<close> is pydantic's
  conversion of a loaded value to a date.
\<close>

datatype yval = YStr pystr | YDate date | YInt int | YBool bool | YNull | YList "yval list"
  | YMap "(pystr \<times> yval) list" | YOther

record yaml =
  ydump :: "pystr \<Rightarrow> yval \<Rightarrow> pystr"
  yload :: "pystr \<Rightarrow> yval res"
  ydate :: "yval \<Rightarrow> date option"

section \<open>Rendering\<close>

definition delim :: pystr where
  "delim = [45, 45, 45]"

definition dump_scalar_line :: "yaml \<Rightarrow> pystr \<Rightarrow> yval \<Rightarrow> pystr" where
  "dump_scalar_line y key value = strip (ydump y key value)"

text \<open>The lines between the delimiters.\<close>

definition sources_lines :: "pystr list \<Rightarrow> pystr list" where
  "sources_lines ss = (if ss = [] then [lit ''sources: []'']
     else lit ''sources:'' # map (\<lambda>s. lit ''  - '' @ s) ss)"

definition yaml_lines :: "yaml \<Rightarrow> frontmatter \<Rightarrow> pystr list" where
  "yaml_lines y fm =
    [dump_scalar_line y (lit ''title'') (YStr (title fm)),
     lit ''tags: ['' @ join (lit '', '') (tags fm) @ lit '']'']
    @ sources_lines (sources fm)
    @ [dump_scalar_line y (lit ''created'') (YDate (created fm)),
       dump_scalar_line y (lit ''updated'') (YDate (updated fm))]"

definition render_note :: "yaml \<Rightarrow> vault_note \<Rightarrow> pystr" where
  "render_note y n =
    join [10] ([delim] @ yaml_lines y (note_frontmatter n) @ [delim, []]) @ [10] @ note_body n"

section \<open>Parsing\<close>

text \<open>\<open>NoteFrontmatter.model_validate\<close>: no key but the five, each required, each of its type, then the
  field validators.\<close>

definition frontmatter_keys :: "pystr list" where
  "frontmatter_keys = map lit [''title'', ''tags'', ''sources'', ''created'', ''updated'']"

definition as_str :: "yval option \<Rightarrow> pystr option" where
  "as_str v = (case v of Some (YStr s) \<Rightarrow> Some s | _ \<Rightarrow> None)"

fun all_some :: "'a option list \<Rightarrow> 'a list option" where
  "all_some [] = Some []"
| "all_some (None # xs) = None"
| "all_some (Some x # xs) = map_option ((#) x) (all_some xs)"

definition as_str_list :: "yval option \<Rightarrow> pystr list option" where
  "as_str_list v = (case v of Some (YList vs) \<Rightarrow> all_some (map (as_str \<circ> Some) vs) | _ \<Rightarrow> None)"

definition as_date :: "yaml \<Rightarrow> yval option \<Rightarrow> date option" where
  "as_date y v = (case v of Some w \<Rightarrow> ydate y w | None \<Rightarrow> None)"

definition invalid_model :: exn where
  "invalid_model = exc PydanticValidationError [Lit ''validation error for NoteFrontmatter'']"

definition model_validate :: "yaml \<Rightarrow> (pystr \<times> yval) list \<Rightarrow> frontmatter res" where
  "model_validate y d =
    (let get = (\<lambda>k. map_of d (lit k)) in
     case (as_str (get ''title''), as_str_list (get ''tags''), as_str_list (get ''sources''),
           as_date y (get ''created''), as_date y (get ''updated'')) of
       (Some t, Some ts, Some ss, Some c, Some u) \<Rightarrow>
         if list_all (\<lambda>(k, _). k \<in> set frontmatter_keys) d
         then validate_frontmatter \<lparr>title = t, tags = ts, sources = ss, created = c, updated = u\<rparr>
         else Inl invalid_model
     | _ \<Rightarrow> Inl invalid_model)"

definition where_text :: "pystr \<Rightarrow> message" where
  "where_text p = [if p = [] then Lit ''<note>'' else Txt p]"

definition is_delim :: "pystr \<Rightarrow> bool" where
  "is_delim l \<longleftrightarrow> strip l = delim"

definition missing :: "message \<Rightarrow> string \<Rightarrow> exn" where
  "missing w m = exc MissingFrontmatterError (w @ [Lit m])"

definition malformed :: "message \<Rightarrow> exn" where
  "malformed m = exc MalformedFrontmatterError m"

definition parse_note :: "yaml \<Rightarrow> pystr \<Rightarrow> pystr \<Rightarrow> vault_note res" where
  "parse_note y text p =
    (let w = where_text p; lines = split_on 10 text in
     if \<not> is_delim (hd lines)
     then Inl (missing w '': expected a --- frontmatter block on the first line'')
     else case find_index is_delim (tl lines) of
       None \<Rightarrow> Inl (missing w '': no closing --- delimiter for the frontmatter'')
     | Some i \<Rightarrow>
        (case yload y (join [10] (take i (tl lines))) of
           Inl e \<Rightarrow> if isinstance e YAMLError
                    then Inl (malformed (w @ Lit '': invalid YAML frontmatter: '' # emsg e)) else Inl e
         | Inr (YMap d) \<Rightarrow>
             (let rest = join [10] (drop (Suc i) (tl lines));
                  body = removeprefix rest [10] in
              case model_validate y d of
                Inl e \<Rightarrow> Inl (malformed (w @ Lit '': '' # emsg e))
              | Inr fm \<Rightarrow> Inr \<lparr>note_path = p, note_frontmatter = fm, note_body = body\<rparr>)
         | Inr _ \<Rightarrow> Inl (malformed (w @ [Lit '': frontmatter is not a YAML mapping'']))))"

section \<open>Reading back\<close>

text \<open>The document of a rendered block: tags and sources are plain scalars, and \<open>plain\<close> is the
  resolution of plain scalars.\<close>

definition rendered_doc :: "(pystr \<Rightarrow> yval) \<Rightarrow> frontmatter \<Rightarrow> yval" where
  "rendered_doc plain fm = YMap
    [(lit ''title'', YStr (title fm)), (lit ''tags'', YList (map plain (tags fm))),
     (lit ''sources'', YList (map plain (sources fm))),
     (lit ''created'', YDate (created fm)), (lit ''updated'', YDate (updated fm))]"

definition resolves_as_text :: "(pystr \<Rightarrow> yval) \<Rightarrow> pystr \<Rightarrow> bool" where
  "resolves_as_text plain s \<longleftrightarrow> plain s = YStr s"

text \<open>A plain scalar that resolves to a string resolves to its own text.\<close>

definition plain_scalars :: "(pystr \<Rightarrow> yval) \<Rightarrow> bool" where
  "plain_scalars plain \<longleftrightarrow> (\<forall>x s. plain x = YStr s \<longrightarrow> s = x)"

text \<open>What PyYAML is relied on for with a given note: it reads back the rendered block, its dates are
  dates, and the lines it writes are single lines that are not delimiters.\<close>

definition yaml_reads_back :: "yaml \<Rightarrow> (pystr \<Rightarrow> yval) \<Rightarrow> frontmatter \<Rightarrow> bool" where
  "yaml_reads_back y plain fm \<longleftrightarrow>
    yload y (join [10] (yaml_lines y fm)) = Inr (rendered_doc plain fm)
    \<and> ydate y (YDate (created fm)) = Some (created fm) \<and> ydate y (YDate (updated fm)) = Some (updated fm)
    \<and> list_all (\<lambda>l. 10 \<notin> set l \<and> \<not> is_delim l) (yaml_lines y fm)"

lemma all_some_plain:
  assumes "plain_scalars plain"
  shows "all_some (map (as_str \<circ> Some) (map plain xs)) =
    (if list_all (resolves_as_text plain) xs then Some xs else None)"
proof (induction xs)
  case (Cons x xs)
  have "as_str (Some (plain x)) = (if resolves_as_text plain x then Some x else None)"
    using assms by (cases "plain x") (auto simp: as_str_def resolves_as_text_def plain_scalars_def)
  with Cons show ?case by simp
qed simp

lemma find_index_append:
  "\<forall>x \<in> set xs. \<not> P x \<Longrightarrow> P z \<Longrightarrow> find_index P (xs @ z # ys) = Some (length xs)"
  by (induction xs) auto

lemma is_delim_delim [simp]: "is_delim delim"
  by code_simp

lemma join_append:
  "xs \<noteq> [] \<Longrightarrow> ys \<noteq> [] \<Longrightarrow> join sep (xs @ ys) = join sep xs @ sep @ join sep ys"
proof (induction xs)
  case (Cons x xs)
  then show ?case by (cases xs) (simp_all add: join_Cons)
qed simp

lemma split_rendered:
  assumes "list_all (\<lambda>l. 10 \<notin> set l) ls" and "ls \<noteq> []"
  shows "split_on 10 (join [10] ([delim] @ ls @ [delim, []]) @ [10] @ b) = delim # ls @ delim # [] # split_on 10 b"
proof -
  have d: "10 \<notin> set delim" by (simp add: delim_def)
  have "join [10] ([delim] @ ls @ [delim, []]) = delim @ 10 # join [10] ls @ 10 # delim @ [10]"
    using assms(2) by (simp add: join_Cons join_append)
  then have "split_on 10 (join [10] ([delim] @ ls @ [delim, []]) @ [10] @ b) =
      delim # split_on 10 (join [10] ls @ 10 # delim @ 10 # [] @ 10 # b)"
    using split_on_append [OF d] by simp
  moreover have "split_on 10 (join [10] ls @ 10 # t) = ls @ split_on 10 t" for t
    using assms
  proof (induction ls)
    case (Cons l ls)
    then have l: "10 \<notin> set l" "list_all (\<lambda>l. 10 \<notin> set l) ls" by auto
    show ?case
    proof (cases "ls = []")
      case True
      then show ?thesis using l split_on_append by simp
    next
      case False
      with Cons.IH l have "split_on 10 (join [10] ls @ 10 # t) = ls @ split_on 10 t" by simp
      then show ?thesis using False l split_on_append [of 10 l] by (simp add: join_Cons)
    qed
  qed simp
  ultimately show ?thesis
    using split_on_append [OF d] split_on_append [of 10 "[]"] by simp
qed

lemma frontmatter_eta: "\<lparr>title = title fm, tags = tags fm, sources = sources fm, created = created fm,
    updated = updated fm\<rparr> = fm"
  by (cases fm) simp

lemma model_validate_rendered:
  assumes "ydate y (YDate (created fm)) = Some (created fm)" "ydate y (YDate (updated fm)) = Some (updated fm)"
    and plain: "plain_scalars plain" and ok: "frontmatter_ok fm"
    and d: "rendered_doc plain fm = YMap d"
  shows "model_validate y d =
    (if list_all (resolves_as_text plain) (tags fm) \<and> list_all (resolves_as_text plain) (sources fm)
     then Inr fm else Inl invalid_model)"
proof -
  have g: "map_of d (lit ''title'') = Some (YStr (title fm))"
      "map_of d (lit ''tags'') = Some (YList (map plain (tags fm)))"
      "map_of d (lit ''sources'') = Some (YList (map plain (sources fm)))"
      "map_of d (lit ''created'') = Some (YDate (created fm))"
      "map_of d (lit ''updated'') = Some (YDate (updated fm))"
    using d by (auto simp: rendered_doc_def)
  have k: "list_all (\<lambda>(k, _). k \<in> set frontmatter_keys) d"
    using d by (auto simp: rendered_doc_def frontmatter_keys_def)
  have "as_str_list (Some (YList (map plain xs))) =
      (if list_all (resolves_as_text plain) xs then Some xs else None)" for xs
    unfolding as_str_list_def using all_some_plain [OF plain, of xs] by simp
  then show ?thesis
    unfolding model_validate_def Let_def g using ok k assms(1,2)
    by (simp add: as_str_def as_date_def validate_frontmatter_ok frontmatter_eta)
qed

lemma parse_rendered:
  assumes rb: "yaml_reads_back y plain (note_frontmatter n)"
    and plain: "plain_scalars plain" and ok: "frontmatter_ok (note_frontmatter n)"
  shows "parse_note y (render_note y n) (note_path n) =
    (if list_all (resolves_as_text plain) (tags (note_frontmatter n))
        \<and> list_all (resolves_as_text plain) (sources (note_frontmatter n))
     then Inr n else Inl (malformed (where_text (note_path n) @ Lit '': '' # emsg invalid_model)))"
proof -
  let ?fm = "note_frontmatter n" and ?b = "note_body n"
  let ?ls = "yaml_lines y ?fm"
  have ls: "list_all (\<lambda>l. 10 \<notin> set l) ?ls" "\<forall>l \<in> set ?ls. \<not> is_delim l" "?ls \<noteq> []"
    using rb by (auto simp: yaml_reads_back_def list_all_iff yaml_lines_def)
  have sp: "split_on 10 (render_note y n) = delim # ?ls @ delim # [] # split_on 10 ?b"
    unfolding render_note_def using split_rendered [OF ls(1,3)] .
  have idx: "find_index is_delim (?ls @ delim # [] # split_on 10 ?b) = Some (length ?ls)"
    using ls(2) by (intro find_index_append) simp_all
  have rest: "removeprefix (join [10] ([] # split_on 10 ?b)) [10] = ?b"
    using removeprefix_append [of "[10]" ?b] by (simp add: join_Cons)
  obtain d where d: "rendered_doc plain ?fm = YMap d" by (simp add: rendered_doc_def)
  have y: "yload y (join [10] ?ls) = Inr (YMap d)" using rb d by (simp add: yaml_reads_back_def)
  note mv = model_validate_rendered [OF _ _ plain ok d, of y]
  have tk: "take (length ?ls) (?ls @ delim # [] # split_on 10 ?b) = ?ls"
      "drop (Suc (length ?ls)) (?ls @ delim # [] # split_on 10 ?b) = [] # split_on 10 ?b" by simp_all
  have dt: "ydate y (YDate (created ?fm)) = Some (created ?fm)" "ydate y (YDate (updated ?fm)) = Some (updated ?fm)"
    using rb by (simp_all add: yaml_reads_back_def)
  have "parse_note y (render_note y n) (note_path n) =
      (case model_validate y d of
         Inl e \<Rightarrow> Inl (malformed (where_text (note_path n) @ Lit '': '' # emsg e))
       | Inr fm \<Rightarrow> Inr \<lparr>note_path = note_path n, note_frontmatter = fm, note_body = ?b\<rparr>)"
    unfolding parse_note_def Let_def sp list.sel idx option.case tk y sum.case yval.case rest by simp
  also have "\<dots> = (if list_all (resolves_as_text plain) (tags ?fm) \<and> list_all (resolves_as_text plain) (sources ?fm)
      then Inr n else Inl (malformed (where_text (note_path n) @ Lit '': '' # emsg invalid_model)))"
    unfolding mv [OF dt] by (cases n) simp
  finally show ?thesis .
qed

section \<open>Properties\<close>


text \<open>A concrete YAML for one note, tagged with a year.\<close>

definition demo_fm :: frontmatter where
  "demo_fm = \<lparr>title = lit ''A'', tags = [lit ''2024''], sources = [], created = 1, updated = 2\<rparr>"

definition demo_note :: vault_note where
  "demo_note = \<lparr>note_path = lit ''a.md'', note_frontmatter = demo_fm, note_body = lit ''x''\<rparr>"

definition demo_plain :: "pystr \<Rightarrow> yval" where
  "demo_plain s = (if s \<noteq> [] \<and> list_all (\<lambda>c. 48 \<le> c \<and> c \<le> 57) s then YInt 0 else YStr s)"

definition demo_dump :: "pystr \<Rightarrow> yval \<Rightarrow> pystr" where
  "demo_dump k v = k @ lit '': '' @ (case v of YStr s \<Rightarrow> s | YDate d \<Rightarrow> str_int d | _ \<Rightarrow> [])"

definition demo_yaml :: yaml where
  "demo_yaml = \<lparr>ydump = demo_dump, yload = (\<lambda>_. Inr (rendered_doc demo_plain demo_fm)),
     ydate = (\<lambda>v. case v of YDate d \<Rightarrow> Some d | _ \<Rightarrow> None)\<rparr>"


end
