(* ===== verification/Notes.thy ===== *)
theory Notes
  imports Paths Frontmatter
begin

text \<open>
  \<^verbatim>\<open>src/groundtruth/storage/notes.py\<close>: reading, writing and listing the notes of a vault, on the
  file system of theory \<open>Fs\<close>. The vault root is canonical (\<open>Path(vault_root).resolve()\<close>).
\<close>

record note_env =
  ne_ucd :: ucd
  ne_yaml :: yaml
  ne_today :: date

definition schema_filename :: pystr where
  "schema_filename = lit ''schema.md''"

definition repo_resolve :: "note_env \<Rightarrow> path \<Rightarrow> fs \<Rightarrow> pystr \<Rightarrow> path res" where
  "repo_resolve env root f p = resolve_in_vault (ne_ucd env) f root [p]"

definition note_not_found :: "pystr \<Rightarrow> exn" where
  "note_not_found p = exc NoteNotFoundError [Txt p, Lit '': no such note in vault'']"

definition read_note :: "note_env \<Rightarrow> path \<Rightarrow> fs \<Rightarrow> pystr \<Rightarrow> vault_note res" where
  "read_note env root f p =
    bindR (repo_resolve env root f p) (\<lambda>target.
    bindR (guardR (\<not> is_symlink f target \<and> is_file f target) (note_not_found p)) (\<lambda>_.
    bindR (read_text f target) (\<lambda>text. parse_note (ne_yaml env) text p)))"

definition note_exists :: "note_env \<Rightarrow> path \<Rightarrow> fs \<Rightarrow> pystr \<Rightarrow> bool res" where
  "note_exists env root f p =
    (case repo_resolve env root f p of
       Inl e \<Rightarrow> if isinstance e UnsafePathError then Inr False else Inl e
     | Inr target \<Rightarrow> Inr (is_file f target \<and> \<not> is_symlink f target))"

text \<open>\<open>mkdir(parents=True, exist_ok=True)\<close> fails where a file or link is in the way.\<close>

definition make_dirs :: "path \<Rightarrow> (fs, unit) act" where
  "make_dirs p f =
    (if list_all (\<lambda>q. lookup f q = None \<or> lookup f q = Some Dir) (prefixes p)
     then (Inr (), mkdirs p f) else (Inl (exc OSError [Lit ''Not a directory'']), f))"

text \<open>A directory has at least two links.\<close>

definition multi_linked :: "node option \<Rightarrow> bool" where
  "multi_linked x = (case x of Some (File _ n) \<Rightarrow> n > 1 | Some Dir \<Rightarrow> True | _ \<Rightarrow> False)"

definition atomic_write :: "path \<Rightarrow> pystr \<Rightarrow> (fs, unit) act" where
  "atomic_write target text f =
    (if is_symlink f target then (Inl (unsafe [Lit ''target is a symlink'']), f)
     else if multi_linked (lstat f target)
     then (Inl (unsafe [Lit ''target is a symlink or a hardlink to another inode'']), f)
     else case utf8_encode text of
       Inl e \<Rightarrow> (Inl e, f)
     | Inr _ \<Rightarrow> (Inr (), put_file target text f))"

text \<open>What is on disk already: the creation date and the sources to keep.\<close>

definition prior_note :: "note_env \<Rightarrow> fs \<Rightarrow> path \<Rightarrow> vault_note \<Rightarrow> (date \<times> pystr list) res" where
  "prior_note env f target n =
    (if is_file f target \<and> \<not> is_symlink f target
     then bindR (read_text f target) (\<lambda>text.
          bindR (parse_note (ne_yaml env) text (note_path n)) (\<lambda>old.
          Inr (created (note_frontmatter old), sources (note_frontmatter old))))
     else Inr (created (note_frontmatter n), []))"

definition persisted_note :: "note_env \<Rightarrow> vault_note \<Rightarrow> date \<Rightarrow> pystr list \<Rightarrow> vault_note res" where
  "persisted_note env n c prior =
    bindR (validate_frontmatter
      \<lparr>title = title (note_frontmatter n), tags = tags (note_frontmatter n),
       sources = uniq (prior @ sources (note_frontmatter n)), created = c, updated = ne_today env\<rparr>)
      (\<lambda>fm. Inr \<lparr>note_path = note_path n, note_frontmatter = fm, note_body = note_body n\<rparr>)"

definition write_note :: "note_env \<Rightarrow> path \<Rightarrow> vault_note \<Rightarrow> (fs, vault_note) act" where
  "write_note env root n f =
    (case bindR (repo_resolve env root f (note_path n)) (\<lambda>target.
          bindR (prior_note env f target n) (\<lambda>(c, prior).
          bindR (persisted_note env n c prior) (\<lambda>p. Inr (target, p)))) of
       Inl e \<Rightarrow> (Inl e, f)
     | Inr (target, p) \<Rightarrow>
         bindA (make_dirs (butlast target)) (\<lambda>_.
         bindA (atomic_write target (render_note (ne_yaml env) p)) (\<lambda>_. retA p)) f)"

text \<open>The relative path of a file below the root, as text.\<close>

definition rel_path :: "path \<Rightarrow> path \<Rightarrow> pystr" where
  "rel_path root p = join [47] (drop (length root) p)"

definition markdown_files :: "fs \<Rightarrow> path \<Rightarrow> path list" where
  "markdown_files f root =
    filter (\<lambda>p. ends_with (last p) (lit ''.md'') \<and> node_is_file (lookup f p)) (below f root)"

fun list_loop :: "note_env \<Rightarrow> path \<Rightarrow> fs \<Rightarrow> pystr option \<Rightarrow> path list \<Rightarrow> vault_note list res" where
  "list_loop env root f tag [] = Inr []"
| "list_loop env root f tag (p # ps) =
    (let rel = rel_path root p in
     if last p = schema_filename then list_loop env root f tag ps
     else case repo_resolve env root f rel of
       Inl e \<Rightarrow> if isinstance e UnsafePathError then list_loop env root f tag ps else Inl e
     | Inr target \<Rightarrow>
         bindR (read_text f target) (\<lambda>text.
         bindR (parse_note (ne_yaml env) text rel) (\<lambda>n.
         bindR (list_loop env root f tag ps) (\<lambda>ns.
         Inr (if (case tag of None \<Rightarrow> True | Some t \<Rightarrow> t \<in> set (tags (note_frontmatter n)))
              then n # ns else ns)))))"

definition list_notes :: "note_env \<Rightarrow> path \<Rightarrow> fs \<Rightarrow> pystr option \<Rightarrow> vault_note list res" where
  "list_notes env root f tag = list_loop env root f tag (markdown_files f root)"

section \<open>Writing\<close>

lemma repo_resolve_Inr:
  assumes "canonical f root" and "repo_resolve env root f p = Inr target"
  shows "target = root @ split_on 47 p \<and> canonical f target \<and> part_ok (ne_ucd env) p"
  using assms resolve_in_vault_iff [OF resolve_id [OF assms(1)]]
  by (auto simp: repo_resolve_def segments_of_def)

lemma persisted_noteD:
  assumes "persisted_note env n c prior = Inr p"
  shows "note_path p = note_path n" "note_body p = note_body n" "frontmatter_ok (note_frontmatter p)"
    "title (note_frontmatter p) = title (note_frontmatter n)"
    "tags (note_frontmatter p) = tags (note_frontmatter n)"
    "sources (note_frontmatter p) = uniq (prior @ sources (note_frontmatter n))"
    "created (note_frontmatter p) = c" "updated (note_frontmatter p) = ne_today env"
  using assms by (auto simp: persisted_note_def validate_frontmatter_ok)

text \<open>A successful write, step by step.\<close>

lemma write_note_Inr:
  assumes "write_note env root n f = (Inr p, f')"
  obtains target c prior where
    "repo_resolve env root f (note_path n) = Inr target"
    "prior_note env f target n = Inr (c, prior)"
    "persisted_note env n c prior = Inr p"
    "list_all (\<lambda>q. lookup f q = None \<or> lookup f q = Some Dir) (prefixes (butlast target))"
    "\<not> multi_linked (lstat (mkdirs (butlast target) f) target)"
    "list_all encodable (render_note (ne_yaml env) p)"
    "f' = put_file target (render_note (ne_yaml env) p) (mkdirs (butlast target) f)"
proof -
  from assms obtain target c prior where
    r: "repo_resolve env root f (note_path n) = Inr target"
       "prior_note env f target n = Inr (c, prior)" "persisted_note env n c prior = Inr p"
    and w: "bindA (make_dirs (butlast target)) (\<lambda>_.
        bindA (atomic_write target (render_note (ne_yaml env) p)) (\<lambda>_. retA p)) f = (Inr p, f')"
    by (auto simp: write_note_def bindA_ok split: sum.splits prod.splits)
  from w obtain f1 where m: "make_dirs (butlast target) f = (Inr (), f1)"
    and a: "atomic_write target (render_note (ne_yaml env) p) f1 = (Inr (), f')"
    by (auto simp: bindA_ok)
  from m have f1: "f1 = mkdirs (butlast target) f"
    "list_all (\<lambda>q. lookup f q = None \<or> lookup f q = Some Dir) (prefixes (butlast target))"
    by (auto simp: make_dirs_def split: if_splits)
  from a have "\<not> multi_linked (lstat f1 target)" "list_all encodable (render_note (ne_yaml env) p)"
    "f' = put_file target (render_note (ne_yaml env) p) f1"
    by (auto simp: atomic_write_def utf8_encode_ok split: if_splits sum.splits)
  with r f1 that show ?thesis by blast
qed

text \<open>Every failure leaves all files as they were; at most missing directories have been made.\<close>

lemma write_note_Inl:
  assumes "write_note env root n f = (Inl e, f')"
  shows "lookup f' q = lookup f q \<or> lookup f q = None \<and> lookup f' q = Some Dir"
proof -
  have md: "f1 = f \<or> f1 = mkdirs d f" if "make_dirs d f = (x, f1)" for d x f1
    using that by (auto simp: make_dirs_def split: if_splits)
  have aw: "f2 = f1" if "atomic_write t w f1 = (Inl x, f2)" for t w x f1 f2
    using that by (auto simp: atomic_write_def split: if_splits sum.splits)
  from assms consider "f' = f" | d where "f' = mkdirs d f"
    by (auto simp: write_note_def bindA_err split: sum.splits prod.splits dest!: md aw)
  then show ?thesis by cases (auto simp: path_simps)
qed

lemma target_nonempty: "canonical f root \<Longrightarrow> repo_resolve env root f p = Inr t \<Longrightarrow> t \<noteq> []"
  using repo_resolve_Inr by fastforce

lemma canonical_written:
  assumes "canonical f t" and "t \<noteq> []"
  shows "canonical (put_file t x (mkdirs d f)) t"
  using assms by (intro canonical_put canonical_mkdirs)

lemma read_note_written:
  assumes root: "canonical f root" and r: "repo_resolve env root f (note_path n) = Inr t"
    and f': "f' = put_file t text (mkdirs (butlast t) f)"
  shows "read_note env root f' (note_path n) = parse_note (ne_yaml env) (universal_newlines text) (note_path n)"
proof -
  from repo_resolve_Inr [OF root r] have t: "t = root @ split_on 47 (note_path n)" "canonical f t" "t \<noteq> []"
    by auto
  have c': "canonical f' t" unfolding f' using t(2,3) by (rule canonical_written)
  then have root': "canonical f' root" using t(1) canonical_append by blast
  have "repo_resolve env root f' (note_path n) = Inr t"
    using r c' resolve_in_vault_iff [OF resolve_id [OF root]] resolve_in_vault_iff [OF resolve_id [OF root']]
    unfolding repo_resolve_def by simp
  moreover have "lookup f' t = Some (File text 1)" using t(3) by (simp add: f' path_simps)
  ultimately show ?thesis
    using c' by (simp add: read_note_def is_symlink_def is_file_def read_text_def path_simps
        node_is_file_def is_link_def)
qed

lemma prior_note_read:
  "repo_resolve env root f (note_path n) = Inr t \<Longrightarrow> read_note env root f (note_path n) = Inr old \<Longrightarrow>
    prior_note env f t n = Inr (created (note_frontmatter old), sources (note_frontmatter old))"
  by (auto simp: read_note_def prior_note_def)

section \<open>Properties\<close>

text \<open>
  C16. A successful write of a note puts one file, at the vault root followed by the segments of the
  note's path; apart from it only missing directories above it are created, and every other path
  keeps its node. If a note was there, its creation date is kept and its (duplicate-free) sources are a
  prefix of the new ones; \<open>updated\<close> is today.
\<close>

theorem write_note_effect:
  assumes "canonical f root" and "write_note env root n f = (Inr p, f')"
  shows "\<exists>t. t = root @ split_on 47 (note_path n)
    \<and> lookup f' t = Some (File (render_note (ne_yaml env) p) 1)
    \<and> (\<forall>q. q = t \<or> lookup f' q = lookup f q
         \<or> (lookup f q = None \<and> lookup f' q = Some Dir \<and> strict_prefix q t))
    \<and> updated (note_frontmatter p) = ne_today env
    \<and> (\<forall>old. read_note env root f (note_path n) = Inr old \<and> distinct (sources (note_frontmatter old)) \<longrightarrow>
         created (note_frontmatter p) = created (note_frontmatter old)
         \<and> prefix (sources (note_frontmatter old)) (sources (note_frontmatter p)))"
proof -
  from write_note_Inr [OF assms(2)] obtain t c prior where
    r: "repo_resolve env root f (note_path n) = Inr t" and pr: "prior_note env f t n = Inr (c, prior)"
    and ps: "persisted_note env n c prior = Inr p"
    and f': "f' = put_file t (render_note (ne_yaml env) p) (mkdirs (butlast t) f)" by blast
  from repo_resolve_Inr [OF assms(1) r] have t: "t = root @ split_on 47 (note_path n)" by blast
  then have ne: "t \<noteq> []" by simp
  have pre: "prefix q (butlast t) \<Longrightarrow> strict_prefix q t" for q
    using ne by (metis append_butlast_last_id prefix_snoc strict_prefix_def prefix_length_le
        length_append_singleton not_less_eq_eq)
  have "created (note_frontmatter p) = created (note_frontmatter old)
      \<and> prefix (sources (note_frontmatter old)) (sources (note_frontmatter p))"
    if "read_note env root f (note_path n) = Inr old" "distinct (sources (note_frontmatter old))" for old
    using prior_note_read [OF r that(1)] pr persisted_noteD [OF ps] that(2)
    by (simp add: uniq_append_distinct)
  then show ?thesis
    using t ne pre persisted_noteD(8) [OF ps] by (intro exI [of _ t]) (auto simp: f' path_simps)
qed

text \<open>
  What was written is what is read: after a successful write of a note without carriage returns,
  whose tags and sources YAML resolves to strings, reading the same path returns the persisted note.
\<close>

lemma write_then_read:
  assumes "canonical f root" and "write_note env root n f = (Inr p, f')"
    and "yaml_reads_back (ne_yaml env) plain (note_frontmatter p)" and "plain_scalars plain"
    and "list_all (resolves_as_text plain) (tags (note_frontmatter p) @ sources (note_frontmatter p))"
    and "13 \<notin> set (render_note (ne_yaml env) p)"
  shows "read_note env root f' (note_path n) = Inr p"
proof -
  from write_note_Inr [OF assms(2)] obtain t c prior where
    r: "repo_resolve env root f (note_path n) = Inr t" and ps: "persisted_note env n c prior = Inr p"
    and f': "f' = put_file t (render_note (ne_yaml env) p) (mkdirs (butlast t) f)" by blast
  have "read_note env root f' (note_path n) = parse_note (ne_yaml env) (render_note (ne_yaml env) p) (note_path p)"
    using read_note_written [OF assms(1) r f'] persisted_noteD(1) [OF ps] assms(6)
    by (simp add: universal_newlines_id)
  with parse_rendered [OF assms(3,4) persisted_noteD(3) [OF ps]] assms(5) show ?thesis by simp
qed

text \<open>A concrete vault with a note, rewritten with one more source.\<close>

definition demo_sha :: "uchar \<Rightarrow> pystr" where
  "demo_sha c = replicate 64 c"

definition demo_fm2 :: frontmatter where
  "demo_fm2 = \<lparr>title = lit ''A'', tags = [lit ''x''], sources = [demo_sha 97, demo_sha 98], created = 1, updated = 9\<rparr>"

definition demo_yaml2 :: yaml where
  "demo_yaml2 = demo_yaml\<lparr>yload := (\<lambda>t. Inr (rendered_doc YStr
     (if contains_sub t (demo_sha 98) then demo_fm2 else demo_fm2\<lparr>sources := [demo_sha 97], updated := 1\<rparr>)))\<rparr>"

definition demo_env :: note_env where
  "demo_env = \<lparr>ne_ucd = ascii_ucd, ne_yaml = demo_yaml2, ne_today = 9\<rparr>"

definition demo_old :: vault_note where
  "demo_old = \<lparr>note_path = lit ''a.md'', note_frontmatter = demo_fm2\<lparr>sources := [demo_sha 97], updated := 1\<rparr>,
     note_body = lit ''old''\<rparr>"

definition demo_new :: vault_note where
  "demo_new = \<lparr>note_path = lit ''a.md'', note_frontmatter = demo_fm2\<lparr>sources := [demo_sha 98], created := 5\<rparr>,
     note_body = lit ''new''\<rparr>"

definition demo_vault :: fs where
  "demo_vault = [([lit ''v''], Dir), ([lit ''v'', lit ''a.md''], File (render_note demo_yaml2 demo_old) 1)]"

lemma demo_write: "write_note demo_env [lit ''v''] demo_new demo_vault =
    (Inr (demo_new\<lparr>note_frontmatter := demo_fm2\<rparr>), snd (write_note demo_env [lit ''v''] demo_new demo_vault))"
  by code_simp

lemma demo_root: "canonical demo_vault [lit ''v'']"
  by code_simp

theorem write_note_effect_witness:
  "lookup (snd (write_note demo_env [lit ''v''] demo_new demo_vault)) [lit ''v'', lit ''a.md''] =
    Some (File (render_note demo_yaml2 (demo_new\<lparr>note_frontmatter := demo_fm2\<rparr>)) 1)"
proof -
  have "split_on 47 (note_path demo_new) = [lit ''a.md'']" by code_simp
  moreover have "ne_yaml demo_env = demo_yaml2" by (simp add: demo_env_def)
  ultimately show ?thesis using write_note_effect [OF demo_root demo_write] by auto
qed

lemma write_then_read_witness:
  "read_note demo_env [lit ''v''] (snd (write_note demo_env [lit ''v''] demo_new demo_vault)) (lit ''a.md'')
    = Inr (demo_new\<lparr>note_frontmatter := demo_fm2\<rparr>)"
proof -
  have p: "note_path demo_new = lit ''a.md''" by (simp add: demo_new_def)
  show ?thesis unfolding p [symmetric]
  proof (rule write_then_read [OF demo_root demo_write, where plain = YStr])
    show "plain_scalars YStr" by (simp add: plain_scalars_def)
  qed code_simp+
qed

end
