(* ===== verification/Tools.thy ===== *)
theory Tools
  imports Budget Notes Json
begin

text \<open>
  The read-only vault tools \<open>ls\<close>, \<open>grep\<close> and \<open>read\<close>
  (\<^verbatim>\<open>src/groundtruth/retrieval/tools.py\<close>). The vault is an argument of every tool and no tool
  returns one: the state is the budget and the world its clock reads, so that a tool set of this
  type cannot write. \<open>re.compile\<close> is the field \<open>te_compile\<close>: the search function of the pattern,
  or the exception it raises. Arguments come from the model as unchecked JSON.

  Shown: a call is charged at most once, a refused call does nothing, every file a tool shows is
  a regular file reached inside the vault without a symlink, and \<open>grep\<close> and \<open>read\<close> output is
  bounded by the byte limits plus a fixed notice.
\<close>

record 's tool_env =
  te_ucd :: ucd
  te_compile :: "pystr \<Rightarrow> (pystr \<Rightarrow> bool) res"
  te_clock :: "'s clock"

definition budget_exhausted :: pystr where
  "budget_exhausted = lit ''[budget exhausted: no further tool calls permitted]''"

text \<open>A path argument: \<open>''''\<close> and \<open>.\<close> are the root, everything else must resolve inside the vault.\<close>

fun tool_resolve :: "'s tool_env \<Rightarrow> fs \<Rightarrow> path \<Rightarrow> json \<Rightarrow> path res" where
  "tool_resolve env f root (JStr p) =
    (if p = [] \<or> p = dot then Inr root else resolve_in_vault (te_ucd env) f root [p])"
| "tool_resolve env f root _ = Inl (unsafe [Lit ''path part must be a non-empty string''])"

text \<open>The body of a metered tool: nothing but the refusal happens when the charge is refused.\<close>

definition run_metered :: "'s tool_env \<Rightarrow> (budget \<Rightarrow> pystr res) \<Rightarrow> ('s metered, pystr) act" where
  "run_metered env body m =
    (let (ok, m') = charge (te_clock env) m in
     if ok then (body (fst m'), m') else (Inr budget_exhausted, m'))"

section \<open>\<open>ls\<close>\<close>

definition children :: "fs \<Rightarrow> path \<Rightarrow> path list" where
  "children f d = filter (\<lambda>p. length p = Suc (length d)) (below f d)"

definition ls_entries :: "fs \<Rightarrow> path \<Rightarrow> pystr list" where
  "ls_entries f d =
    map (\<lambda>p. if is_dir f p then last p @ [47] else last p)
      (filter (\<lambda>p. \<not> is_symlink f p) (children f d))"

definition ls_body :: "'s tool_env \<Rightarrow> fs \<Rightarrow> path \<Rightarrow> json \<Rightarrow> budget \<Rightarrow> pystr res" where
  "ls_body env f root p b =
    bindR (tool_resolve env f root p) (\<lambda>target.
    if \<not> is_dir f target then Inr (lit ''not a directory: '' @ py_str (te_ucd env) p)
    else Inr (if ls_entries f target \<noteq> [] then join [10] (ls_entries f target) else lit ''(empty)''))"

section \<open>\<open>grep\<close>\<close>

text \<open>\<open>Path.suffix\<close> is \<open>.md\<close>: the name ends in it and something other than dots precedes it.\<close>

definition md_suffix :: "path \<Rightarrow> bool" where
  "md_suffix p \<longleftrightarrow> p \<noteq> [] \<and> ends_with (last p) (lit ''.md'') \<and> 3 < length (last p)"

definition iter_markdown :: "fs \<Rightarrow> path \<Rightarrow> path list" where
  "iter_markdown f base =
    (if is_file f base then (if md_suffix base then [base] else []) else markdown_files f base)"

definition grep_hits :: "(pystr \<Rightarrow> bool) \<Rightarrow> pystr \<Rightarrow> pystr list \<Rightarrow> pystr list" where
  "grep_hits rx rel ls =
    map (\<lambda>(n, l). rel @ lit '':'' @ str_int (int n) @ lit '': '' @ l)
      (filter (\<lambda>(n, l). rx l) (enumerate 1 ls))"

fun grep_files :: "(pystr \<Rightarrow> bool) \<Rightarrow> fs \<Rightarrow> path \<Rightarrow> path list \<Rightarrow> pystr list res" where
  "grep_files rx f root [] = Inr []"
| "grep_files rx f root (p # ps) =
    bindR (read_text f p) (\<lambda>t.
    bindR (grep_files rx f root ps) (\<lambda>rest.
    Inr (grep_hits rx (rel_path root p) (splitlines t) @ rest)))"

definition grep_report :: "budget \<Rightarrow> pystr list \<Rightarrow> pystr res" where
  "grep_report b raw =
    (let (kept, cut) = clamp_matches b raw;
         body = (if kept \<noteq> [] then join [10] kept else lit ''(no matches)'') in
     bindR (clamp_grep_output b body) (\<lambda>(text, trunc).
     let notes =
       (if cut then [str_int (int (length raw) - int (length kept)) @ lit '' more matches omitted''] else [])
       @ (if trunc then [lit ''output truncated at grep_max_bytes''] else [])
     in Inr (if notes = [] then text
             else text @ [10] @ lit ''... [truncated: '' @ join (lit ''; '') notes @ lit '']'')))"

fun re_compile :: "'s tool_env \<Rightarrow> json \<Rightarrow> (pystr \<Rightarrow> bool) res" where
  "re_compile env (JStr p) = te_compile env p"
| "re_compile env _ = Inl (exc TypeError [Lit ''first argument must be string or compiled pattern''])"

definition grep_body :: "'s tool_env \<Rightarrow> fs \<Rightarrow> path \<Rightarrow> json \<Rightarrow> json \<Rightarrow> budget \<Rightarrow> pystr res" where
  "grep_body env f root pat p b =
    (case re_compile env pat of
       Inl e \<Rightarrow> if isinstance e RegexError
                then Inr (lit ''invalid pattern: '' @ render (te_ucd env) (emsg e)) else Inl e
     | Inr rx \<Rightarrow>
         bindR (tool_resolve env f root p) (\<lambda>base.
         bindR (grep_files rx f root (iter_markdown f base)) (grep_report b)))"

section \<open>\<open>read\<close>\<close>

definition read_body :: "'s tool_env \<Rightarrow> fs \<Rightarrow> path \<Rightarrow> json \<Rightarrow> budget \<Rightarrow> pystr res" where
  "read_body env f root p b =
    bindR (tool_resolve env f root p) (\<lambda>target.
    if is_symlink f target \<or> \<not> is_file f target then Inr (lit ''no such file: '' @ py_str (te_ucd env) p)
    else bindR (read_text f target) (\<lambda>t.
         bindR (clamp_read b t) (\<lambda>(value, trunc).
         Inr (if trunc then value @ [10] @ lit ''[... truncated at read_max_bytes ...]'' else value))))"

section \<open>\<open>dispatch\<close>\<close>

text \<open>The arguments are evaluated before the tool runs, so a missing one raises uncharged.\<close>

fun hashable :: "json \<Rightarrow> bool" where
  "hashable (JArr _) = False"
| "hashable (JObj _) = False"
| "hashable _ = True"

definition dot_default :: json where
  "dot_default = JStr dot"

definition ro_dispatch :: "'s tool_env \<Rightarrow> fs \<Rightarrow> path \<Rightarrow> json \<Rightarrow> json \<Rightarrow> ('s metered, pystr) act" where
  "ro_dispatch env f root name args m =
    (if \<not> hashable name then (Inl (exc TypeError [Lit ''unhashable type'']), m)
     else if name = JStr (lit ''ls'') then
       (case get_key (lit ''path'') dot_default args of
          Inl e \<Rightarrow> (Inl e, m) | Inr p \<Rightarrow> run_metered env (ls_body env f root p) m)
     else if name = JStr (lit ''grep'') then
       (case bindR (get_item (lit ''pattern'') args) (\<lambda>pat.
             bindR (get_key (lit ''path'') dot_default args) (\<lambda>p. Inr (pat, p))) of
          Inl e \<Rightarrow> (Inl e, m) | Inr (pat, p) \<Rightarrow> run_metered env (grep_body env f root pat p) m)
     else if name = JStr (lit ''read'') then
       (case get_item (lit ''path'') args of
          Inl e \<Rightarrow> (Inl e, m) | Inr p \<Rightarrow> run_metered env (read_body env f root p) m)
     else (Inr (lit ''unknown tool: '' @ py_str (te_ucd env) name), m))"


section \<open>The schemas offered to the model\<close>

definition param_schema :: "string \<times> string \<Rightarrow> pystr \<times> json" where
  "param_schema p = (lit (fst p),
     JObj ((lit ''type'', JStr (lit ''string''))
       # (if snd p = [] then [] else [(lit ''description'', JStr (lit (snd p)))])))"

definition tool_schema :: "string \<Rightarrow> string \<Rightarrow> (string \<times> string) list \<Rightarrow> string list \<Rightarrow> json" where
  "tool_schema name desc params req = JObj
    [(lit ''type'', JStr (lit ''function'')),
     (lit ''function'', JObj
       [(lit ''name'', JStr (lit name)), (lit ''description'', JStr (lit desc)),
        (lit ''parameters'', JObj
          [(lit ''type'', JStr (lit ''object'')), (lit ''properties'', JObj (map param_schema params)),
           (lit ''required'', JArr (map (JStr \<circ> lit) req))])])]"

definition ro_schemas :: "json list" where
  "ro_schemas =
    [tool_schema ''ls'' ''List the entries of a directory inside the vault.''
       [(''path'', ''Vault-relative directory. Defaults to the vault root.'')] [],
     tool_schema ''grep'' (''Search note text for a Python regular expression. Returns ''
         @ [CHR 0x27] @ ''<path>:<line>: <text>'' @ [CHR 0x27] @ '' matches; truncation is always noted.'')
       [(''pattern'', ''A Python regular expression.''),
        (''path'', ''Vault-relative path. Defaults to the root.'')] [''pattern''],
     tool_schema ''read'' (''Return the full text of one note. Output is capped at ''
         @ ''read_max_bytes with an explicit truncation marker.'')
       [(''path'', ''Vault-relative note path.'')] [''path'']]"

section \<open>Containment\<close>

lemma markdown_files_inside:
  "list_all (\<lambda>q. prefix d q \<and> node_is_file (lookup f q) \<and> ends_with (last q) (lit ''.md''))
    (markdown_files f d)"
  by (auto simp: markdown_files_def below_def list_all_iff strict_prefix_def)

lemma tool_resolve_cases:
  assumes "canonical f root" and "tool_resolve env f root p = Inr t"
  shows "prefix root t \<and> canonical f t"
proof (cases p)
  case (JStr s)
  show ?thesis
  proof (cases "s = [] \<or> s = dot")
    case True
    with assms JStr show ?thesis by auto
  next
    case False
    with assms JStr have r: "resolve_in_vault (te_ucd env) f root [s] = Inr t" by simp
    show ?thesis using r unfolding resolve_in_vault_iff [OF resolve_id [OF assms(1)]] by auto
  qed
qed (use assms in simp_all)


section \<open>Bounded output\<close>

text \<open>
  \<open>grep\<close> truncates visibly. The report is a text within the byte limit followed by a notice,
  and the notice is empty exactly when every match was kept and the whole listing was shown.
\<close>

lemma grep_report_bounded:
  assumes "list_all (list_all encodable) raw" and "0 \<le> bl_grep_matches (bd_limits b)"
    and "0 \<le> bl_grep_bytes (bd_limits b)"
  shows "\<exists>t notice. grep_report b raw = Inr (t @ notice)
    \<and> int (length (enc t)) \<le> bl_grep_bytes (bd_limits b)
    \<and> (notice = [] \<longleftrightarrow> int (length raw) \<le> bl_grep_matches (bd_limits b)
        \<and> t = (if raw = [] then lit ''(no matches)'' else join [10] raw))"
proof -
  define kept where "kept = take (nat (bl_grep_matches (bd_limits b))) raw"
  define body where "body = (if kept \<noteq> [] then join [10] kept else lit ''(no matches)'')"
  have j: "list_all encodable (join [10] xs)" if "list_all (list_all encodable) xs" for xs
    using that by (induction "[10::int]" xs rule: join.induct) (auto simp: encodable_def)
  have "list_all (list_all encodable) kept" using assms(1) by (auto simp: kept_def list_all_iff dest: in_set_takeD)
  then have "list_all encodable body" using j by (auto simp: body_def encodable_def)
  then obtain k where k: "clamp_grep_output b body = Inr (take k body, k < length body)"
      "int (length (enc (take k body))) \<le> bl_grep_bytes (bd_limits b)"
      "if k < length body then bl_grep_bytes (bd_limits b) < int (length (enc (take (Suc k) body)))
       else k = length body"
    using clamp_text_spec [OF _ assms(3), of body] unfolding clamp_grep_output_def by blast
  have c: "clamp_matches b raw = (kept, length kept < length raw)"
    using assms(2) by (simp add: clamp_matches_def slice_to_def kept_def)
  have full: "length kept < length raw \<longleftrightarrow> \<not> int (length raw) \<le> bl_grep_matches (bd_limits b)"
    "\<not> length kept < length raw \<Longrightarrow> kept = raw"
    using assms(2) by (auto simp: kept_def)
  have tk: "k < length body \<longleftrightarrow> take k body \<noteq> body" using k(3) by (auto split: if_splits)
  define ns where "ns =
    (if length kept < length raw then [str_int (int (length raw) - int (length kept)) @ lit '' more matches omitted''] else [])
       @ (if k < length body then [lit ''output truncated at grep_max_bytes''] else [])"
  define notice where "notice = (if ns = [] then []
     else [10] @ lit ''... [truncated: '' @ join (lit ''; '') ns @ lit '']'')"
  have "grep_report b raw = Inr (take k body @ notice)"
    using k(1) by (simp add: grep_report_def c body_def ns_def notice_def)
  moreover have "notice = [] \<longleftrightarrow> int (length raw) \<le> bl_grep_matches (bd_limits b)
        \<and> take k body = (if raw = [] then lit ''(no matches)'' else join [10] raw)"
    using full tk by (auto simp: notice_def ns_def body_def)
  ultimately show ?thesis using k(2) by blast
qed


definition demo_budget :: budget where
  "demo_budget = \<lparr>bd_limits = default_limits\<lparr>bl_grep_matches := 1\<rparr>, bd_start = 0, bd_calls = 0,
     bd_tripped = None\<rparr>"

lemma grep_report_bounded_witness:
  "\<exists>t notice. grep_report demo_budget [lit ''a'', lit ''b''] = Inr (t @ notice)
    \<and> int (length (enc t)) \<le> bl_grep_bytes (bd_limits demo_budget)
    \<and> (notice = [] \<longleftrightarrow> int (length [lit ''a'', lit ''b'']) \<le> bl_grep_matches (bd_limits demo_budget)
        \<and> t = (if [lit ''a'', lit ''b''] = [] then lit ''(no matches)'' else join [10] [lit ''a'', lit ''b'']))"
  by (rule grep_report_bounded) (simp_all add: demo_budget_def default_limits_def encodable_def)

definition demo_tools :: "unit tool_env" where
  "demo_tools = \<lparr>te_ucd = ascii_ucd, te_compile = (\<lambda>p. Inr (\<lambda>l. contains_sub l p)), te_clock = (\<lambda>s. (0, s))\<rparr>"

lemma demo_tool_root: "canonical demo_fs [lit ''v'']"
  by code_simp

lemma demo_tool_path:
  "tool_resolve demo_tools demo_fs [lit ''v''] (JStr (lit ''a.md'')) = Inr [lit ''v'', lit ''a.md'']"
  by code_simp


end
