(* ===== verification/Agent.thy ===== *)
theory Agent
  imports Llm Tools
begin

text \<open>
  The agent loop shared by ingestion and recovery (\<^verbatim>\<open>src/groundtruth/retrieval/agent.py\<close>).
  A model, a tool set and a budget are the operations of a record on a state of any type; the loop
  asks the model, runs the tool calls it returns in order, and stops when the model calls nothing,
  the budget is exhausted, the model fails, or after \<open>2 * max_tool_calls + 10\<close> rounds.

  Shown: the transcript of a run, round by round; for every metered tool set (a locale) the tool
  calls charged never exceed the limit and an exhausted run has tripped the budget; for tool sets
  that charge every call the round limit is never what ends a run.
\<close>

section \<open>The loop\<close>

record 'w agent =
  ag_ucd :: ucd
  ag_complete :: "pystr \<Rightarrow> json list \<Rightarrow> json list \<Rightarrow> ('w, llm_response) act"
  ag_schemas :: "json list"
  ag_dispatch :: "json \<Rightarrow> json \<Rightarrow> ('w, pystr) act"
  ag_exhausted :: "'w \<Rightarrow> bool \<times> 'w"
  ag_max_tool_calls :: int

datatype agent_status = Completed | Exhausted | Failed

record tool_invocation =
  ti_name :: json
  ti_arguments :: json
  ti_result :: pystr

record agent_outcome =
  ao_status :: agent_status
  ao_final_text :: json
  ao_transcript :: "tool_invocation list"
  ao_messages :: "json list"
  ao_error :: "message option"
  ao_usage :: llm_usage

datatype conversation = Prompt pystr | Dialogue "json list"

definition chat :: "string \<Rightarrow> json \<Rightarrow> json" where
  "chat role content = JObj [(lit ''role'', JStr (lit role)), (lit ''content'', content)]"

fun initial_messages :: "conversation \<Rightarrow> json list" where
  "initial_messages (Prompt t) = [chat ''user'' (JStr t)]"
| "initial_messages (Dialogue ms) = ms"

definition call_json :: "tool_call \<Rightarrow> json" where
  "call_json c = JObj
    [(lit ''id'', tc_id c), (lit ''type'', JStr (lit ''function'')),
     (lit ''function'', JObj [(lit ''name'', tc_name c),
        (lit ''arguments'', JStr (json_dumps (tc_arguments c)))])]"

definition assistant_message :: "llm_response \<Rightarrow> json" where
  "assistant_message r = JObj
    ([(lit ''role'', JStr (lit ''assistant'')), (lit ''content'', lr_text r)]
     @ (if lr_tool_calls r = [] then []
        else [(lit ''tool_calls'', JArr (map call_json (lr_tool_calls r)))]))"

definition tool_message :: "tool_call \<Rightarrow> tool_invocation \<Rightarrow> json" where
  "tool_message c i = JObj [(lit ''role'', JStr (lit ''tool'')), (lit ''tool_call_id'', tc_id c),
     (lit ''content'', JStr (ti_result i))]"

text \<open>A tool error is reported to the model, not raised.\<close>

definition invoke :: "'w agent \<Rightarrow> tool_call \<Rightarrow> 'w \<Rightarrow> tool_invocation \<times> 'w" where
  "invoke a c s =
    (let (r, s') = ag_dispatch a (tc_name c) (tc_arguments c) s in
     (\<lparr>ti_name = tc_name c, ti_arguments = tc_arguments c,
       ti_result = (case r of Inr t \<Rightarrow> t | Inl e \<Rightarrow> lit ''tool error: '' @ render (ag_ucd a) (emsg e))\<rparr>, s'))"

fun invoke_all :: "'w agent \<Rightarrow> tool_call list \<Rightarrow> 'w \<Rightarrow> tool_invocation list \<times> 'w" where
  "invoke_all a [] s = ([], s)"
| "invoke_all a (c # cs) s =
    (let (i, s1) = invoke a c s; (is, s2) = invoke_all a cs s1 in (i # is, s2))"

fun agent_loop ::
  "'w agent \<Rightarrow> pystr \<Rightarrow> nat \<Rightarrow> json list \<Rightarrow> tool_invocation list \<Rightarrow> llm_usage \<Rightarrow> ('w, agent_outcome) act" where
  "agent_loop a role 0 ms tr u s =
    (Inr \<lparr>ao_status = Failed, ao_final_text = JNull, ao_transcript = tr, ao_messages = ms,
          ao_error = Some [Lit ''agent loop did not converge''], ao_usage = u\<rparr>, s)"
| "agent_loop a role (Suc n) ms tr u s =
    (let (x, s1) = ag_exhausted a s in
     if x then (Inr \<lparr>ao_status = Exhausted, ao_final_text = JNull, ao_transcript = tr, ao_messages = ms,
                     ao_error = None, ao_usage = u\<rparr>, s1)
     else case ag_complete a role ms (ag_schemas a) s1 of
       (Inl e, s2) \<Rightarrow>
         if isinstance e GroundtruthError
         then (Inr \<lparr>ao_status = Failed, ao_final_text = JNull, ao_transcript = tr, ao_messages = ms,
                    ao_error = Some (emsg e), ao_usage = u\<rparr>, s2)
         else (Inl e, s2)
     | (Inr r, s2) \<Rightarrow>
         let u' = add_usage u (lr_usage r); ms' = ms @ [assistant_message r] in
         if lr_tool_calls r = []
         then (Inr \<lparr>ao_status = Completed, ao_final_text = lr_text r, ao_transcript = tr,
                    ao_messages = ms', ao_error = None, ao_usage = u'\<rparr>, s2)
         else let (is, s3) = invoke_all a (lr_tool_calls r) s2 in
              agent_loop a role n (ms' @ map2 tool_message (lr_tool_calls r) is) (tr @ is) u' s3)"

definition hard_cap :: "'w agent \<Rightarrow> nat" where
  "hard_cap a = nat (2 * ag_max_tool_calls a + 10)"

definition run_agent :: "'w agent \<Rightarrow> pystr \<Rightarrow> conversation \<Rightarrow> ('w, agent_outcome) act" where
  "run_agent a role conv s = agent_loop a role (hard_cap a) (initial_messages conv) [] zero_usage s"

section \<open>The transcript of a run\<close>

text \<open>A round: what the model answered and the tool calls that were run for it.\<close>

type_synonym round = "llm_response \<times> tool_invocation list"

definition round_messages :: "round \<Rightarrow> json list" where
  "round_messages rd = assistant_message (fst rd) # map2 tool_message (lr_tool_calls (fst rd)) (snd rd)"

definition calls_run :: "round \<Rightarrow> bool" where
  "calls_run rd \<longleftrightarrow> map (\<lambda>i. (ti_name i, ti_arguments i)) (snd rd)
    = map (\<lambda>c. (tc_name c, tc_arguments c)) (lr_tool_calls (fst rd))"

text \<open>How a run that ends with the given outcome continues messages, transcript and usage.\<close>

definition run_shape ::
  "nat \<Rightarrow> json list \<Rightarrow> tool_invocation list \<Rightarrow> llm_usage \<Rightarrow> agent_outcome \<Rightarrow> round list \<Rightarrow> bool" where
  "run_shape n ms tr u out rds \<longleftrightarrow>
    ao_messages out = ms @ concat (map round_messages rds)
    \<and> ao_transcript out = tr @ concat (map snd rds)
    \<and> ao_usage out = foldl add_usage u (map (lr_usage \<circ> fst) rds)
    \<and> length rds \<le> n \<and> list_all calls_run rds
    \<and> (if ao_status out = Completed
       then rds \<noteq> [] \<and> snd (last rds) = [] \<and> ao_final_text out = lr_text (fst (last rds))
         \<and> list_all (\<lambda>rd. snd rd \<noteq> []) (butlast rds)
       else list_all (\<lambda>rd. snd rd \<noteq> []) rds \<and> ao_final_text out = JNull)"

lemma invoke_all_calls: "invoke_all a cs s = (is, s') \<Longrightarrow>
    map (\<lambda>i. (ti_name i, ti_arguments i)) is = map (\<lambda>c. (tc_name c, tc_arguments c)) cs"
  by (induction cs arbitrary: s "is") (auto simp: invoke_def Let_def split: prod.splits)

lemma run_shape_Cons:
  assumes "run_shape n (ms @ round_messages rd) (tr @ snd rd) (add_usage u (lr_usage (fst rd))) out rds"
    and "calls_run rd" and "snd rd \<noteq> []"
  shows "run_shape (Suc n) ms tr u out (rd # rds)"
  using assms by (auto simp: run_shape_def)

lemma agent_loop_shape:
  "agent_loop a role n ms tr u s = (Inr out, s') \<Longrightarrow> \<exists>rds. run_shape n ms tr u out rds"
proof (induction n arbitrary: ms tr u s)
  case 0
  then show ?case by (intro exI [of _ "[]"]) (auto simp: run_shape_def)
next
  case (Suc n)
  obtain x s1 where e: "ag_exhausted a s = (x, s1)" by (cases "ag_exhausted a s")
  obtain r s2 where c: "ag_complete a role ms (ag_schemas a) s1 = (r, s2)"
    by (cases "ag_complete a role ms (ag_schemas a) s1")
  consider "x" | er where "\<not> x" "r = Inl er" | re where "\<not> x" "r = Inr re" "lr_tool_calls re = []"
    | re where "\<not> x" "r = Inr re" "lr_tool_calls re \<noteq> []"
    by (cases r) auto
  then show ?case
  proof cases
    case (3 re)
    with Suc.prems e c show ?thesis
      by (intro exI [of _ "[(re, [])]"]) (auto simp: run_shape_def round_messages_def calls_run_def Let_def)
  next
    case (4 re)
    obtain "is" s3 where i: "invoke_all a (lr_tool_calls re) s2 = (is, s3)"
      by (cases "invoke_all a (lr_tool_calls re) s2")
    have cr: "calls_run (re, is)" using invoke_all_calls [OF i] by (simp add: calls_run_def)
    then have ne: "is \<noteq> []" using 4(3) by (auto simp: calls_run_def)
    from Suc.prems e c 4 i have "agent_loop a role n (ms @ round_messages (re, is)) (tr @ is)
        (add_usage u (lr_usage re)) s3 = (Inr out, s')"
      by (simp add: round_messages_def Let_def)
    from Suc.IH [OF this] obtain rds where "run_shape n (ms @ round_messages (re, is)) (tr @ is)
        (add_usage u (lr_usage re)) out rds" by blast
    with cr ne run_shape_Cons [of n ms "(re, is)" tr u out rds] show ?thesis by auto
  qed (use Suc.prems e c in \<open>auto simp: run_shape_def intro!: exI [of _ "[]"] split: if_splits\<close>)
qed

lemma agent_loop_raises:
  "agent_loop a role n ms tr u s = (Inl e, s') \<Longrightarrow> \<not> isinstance e GroundtruthError"
  by (induction n arbitrary: ms tr u s)
    (auto simp: Let_def simp del: isinstance_cases split: prod.splits sum.splits if_splits)

text \<open>
  What a run of the agent loop leaves behind. The loop raises only what is not one of the
  program's own exceptions; otherwise its outcome is the initial messages followed by at most
  \<open>2 * max_tool_calls + 10\<close> rounds, each the model's answer and one tool message per call of it, in
  order and all run; the transcript is the calls of the rounds and the usage their sum. The run is
  completed exactly when the last round calls nothing, and then its text is that round's text.
\<close>

lemma agent_transcript:
  "case fst (run_agent a role conv s) of
     Inl e \<Rightarrow> \<not> isinstance e GroundtruthError
   | Inr out \<Rightarrow> \<exists>rds. run_shape (hard_cap a) (initial_messages conv) [] zero_usage out rds"
proof -
  obtain r s' where r: "run_agent a role conv s = (r, s')" by (cases "run_agent a role conv s")
  then show ?thesis
    using agent_loop_raises [of a role "hard_cap a" "initial_messages conv" "[]" zero_usage s _ s']
      agent_loop_shape [of a role "hard_cap a" "initial_messages conv" "[]" zero_usage s _ s']
    by (auto simp: run_agent_def simp del: isinstance_cases split: sum.split)
qed

section \<open>Metered tool sets\<close>

text \<open>
  What the loop relies on: reading \<open>exhausted\<close> and asking the model charge nothing, a dispatch
  charges at most up to the cap, and exhaustion is reported exactly when the budget has tripped.
\<close>

locale metered_tools =
  fixes ag :: "'w agent" and calls :: "'w \<Rightarrow> int" and cap :: "'w \<Rightarrow> int" and spent :: "'w \<Rightarrow> bool"
  assumes exhausted_law: "ag_exhausted ag s = (x, s') \<Longrightarrow> calls s' = calls s \<and> cap s' = cap s
      \<and> x = spent s' \<and> (spent s \<longrightarrow> spent s')"
    and complete_law: "ag_complete ag role ms ts s = (resp, s') \<Longrightarrow>
      calls s' = calls s \<and> cap s' = cap s \<and> spent s' = spent s"
    and dispatch_law: "ag_dispatch ag n args s = (r, s') \<Longrightarrow> cap s' = cap s \<and> calls s \<le> calls s'
      \<and> calls s' \<le> max (calls s) (cap s) \<and> (spent s \<longrightarrow> spent s')"
begin

lemma invoke_all_meter: "invoke_all ag cs s = (is, s') \<Longrightarrow> cap s' = cap s \<and> calls s \<le> calls s'
    \<and> calls s' \<le> max (calls s) (cap s) \<and> (spent s \<longrightarrow> spent s')"
proof (induction cs arbitrary: s "is" s')
  case (Cons c cs)
  obtain r s1 where d: "ag_dispatch ag (tc_name c) (tc_arguments c) s = (r, s1)" by fastforce
  obtain "is2" s2 where i: "invoke_all ag cs s1 = (is2, s2)" by (cases "invoke_all ag cs s1")
  from Cons.prems have "s' = s2" by (simp add: invoke_def d i)
  with dispatch_law [OF d] Cons.IH [OF i] show ?case by auto
qed simp

lemma loop_meter: "agent_loop ag role n ms tr u s = (r, s') \<Longrightarrow>
    cap s' = cap s \<and> calls s \<le> calls s' \<and> calls s' \<le> max (calls s) (cap s)
    \<and> (case r of Inr out \<Rightarrow> ao_status out = Exhausted \<longrightarrow> spent s' | Inl _ \<Rightarrow> True)"
proof (induction n arbitrary: ms tr u s)
  case 0
  then show ?case by auto
next
  case (Suc n)
  obtain x s1 where e: "ag_exhausted ag s = (x, s1)" by (cases "ag_exhausted ag s")
  obtain q s2 where c: "ag_complete ag role ms (ag_schemas ag) s1 = (q, s2)"
    by (cases "ag_complete ag role ms (ag_schemas ag) s1")
  note l = exhausted_law [OF e] complete_law [OF c]
  consider "x \<or> isl q" | re where "\<not> x" "q = Inr re" "lr_tool_calls re = []"
    | re where "\<not> x" "q = Inr re" "lr_tool_calls re \<noteq> []"
    by (cases q) auto
  then show ?case
  proof cases
    case (3 re)
    obtain "is" s3 where i: "invoke_all ag (lr_tool_calls re) s2 = (is, s3)"
      by (cases "invoke_all ag (lr_tool_calls re) s2")
    from Suc.prems e c 3 i obtain ms' tr' u' where "agent_loop ag role n ms' tr' u' s3 = (r, s')"
      by (simp add: Let_def)
    from Suc.IH [OF this] invoke_all_meter [OF i] l show ?thesis by auto
  qed (use Suc.prems e c l in \<open>auto simp: Let_def split: if_splits sum.splits\<close>)
qed

lemma run_meter: "run_agent ag role conv s = (r, s') \<Longrightarrow>
    cap s' = cap s \<and> calls s \<le> calls s' \<and> calls s' \<le> max (calls s) (cap s)
    \<and> (case r of Inr out \<Rightarrow> ao_status out = Exhausted \<longrightarrow> spent s' | Inl _ \<Rightarrow> True)"
  unfolding run_agent_def by (rule loop_meter)

end

text \<open>
  A tool set that charges every call it is given, or has tripped the budget. With a model that
  always answers, only the model or the budget ends the loop: the round limit is never reached.
\<close>

locale charging_tools = metered_tools +
  assumes dispatch_charges: "ag_dispatch ag n args s = (r, s') \<Longrightarrow> calls s' = calls s + 1 \<or> spent s'"
    and spent_law: "spent s \<Longrightarrow> fst (ag_exhausted ag s)"
    and cap_law: "\<not> fst (ag_exhausted ag s) \<Longrightarrow> calls s < cap s"
begin

lemma invoke_all_charges: "invoke_all ag cs s = (is, s') \<Longrightarrow> cs \<noteq> [] \<Longrightarrow> calls s < calls s' \<or> spent s'"
proof (cases cs)
  case (Cons c cs')
  assume i: "invoke_all ag cs s = (is, s')"
  obtain r s1 where d: "ag_dispatch ag (tc_name c) (tc_arguments c) s = (r, s1)" by fastforce
  obtain "is2" s2 where j: "invoke_all ag cs' s1 = (is2, s2)" by (cases "invoke_all ag cs' s1")
  from i have "s' = s2" by (simp add: Cons invoke_def d j)
  with dispatch_charges [OF d] invoke_all_meter [OF j] show ?thesis by auto
qed simp

lemma loop_converges:
  assumes answers: "\<And>role ms ts s. isOk (fst (ag_complete ag role ms ts s))"
  shows "cap s - calls s < int n \<and> 0 < n \<or> spent s \<and> 0 < n \<Longrightarrow> \<exists>out s'. agent_loop ag role n ms tr u s = (Inr out, s')
    \<and> ao_status out \<noteq> Failed"
proof (induction n arbitrary: ms tr u s)
  case (Suc n)
  obtain x s1 where e: "ag_exhausted ag s = (x, s1)" by (cases "ag_exhausted ag s")
  obtain q s2 where c: "ag_complete ag role ms (ag_schemas ag) s1 = (Inr q, s2)"
    using answers [of role ms "ag_schemas ag" s1]
    by (cases "ag_complete ag role ms (ag_schemas ag) s1") (auto simp: isOk_iff)
  note l = exhausted_law [OF e] complete_law [OF c]
  show ?case
  proof (cases "x \<or> lr_tool_calls q = []")
    case True
    with e c show ?thesis by (cases x) (simp_all add: Let_def)
  next
    case False
    obtain "is" s3 where i: "invoke_all ag (lr_tool_calls q) s2 = (is, s3)"
      by (cases "invoke_all ag (lr_tool_calls q) s2")
    have cap: "calls s < cap s" and sp: "\<not> spent s" using cap_law [of s] spent_law [of s] e False by auto
    have "calls s < calls s3 \<or> spent s3" "cap s3 = cap s" "calls s \<le> calls s3"
      using invoke_all_charges [OF i] invoke_all_meter [OF i] False l by auto
    with Suc.prems cap sp have "cap s3 - calls s3 < int n \<and> 0 < n \<or> spent s3 \<and> 0 < n" by auto
    from Suc.IH [OF this] show ?thesis using e c i False by (simp add: Let_def)
  qed
qed simp

lemma run_converges:
  assumes "\<And>role ms ts s. isOk (fst (ag_complete ag role ms ts s))"
    and "0 \<le> calls s" and "cap s = ag_max_tool_calls ag" and "0 \<le> cap s"
  shows "\<exists>out s'. run_agent ag role conv s = (Inr out, s') \<and> ao_status out \<noteq> Failed"
  unfolding run_agent_def hard_cap_def by (rule loop_converges [OF assms(1)]) (use assms in auto)

end

section \<open>The read-only agent\<close>

text \<open>The model works on the world beneath the budget: it cannot touch the meter.\<close>

definition beside :: "('s, 'a) act \<Rightarrow> ('s metered, 'a) act" where
  "beside act m = (let (r, s') = act (snd m) in (r, (fst m, s')))"

type_synonym 's model = "pystr \<Rightarrow> json list \<Rightarrow> json list \<Rightarrow> ('s, llm_response) act"

definition ro_agent :: "'s tool_env \<Rightarrow> fs \<Rightarrow> path \<Rightarrow> 's model \<Rightarrow> int \<Rightarrow> 's metered agent" where
  "ro_agent env f root model limit =
    \<lparr>ag_ucd = te_ucd env, ag_complete = (\<lambda>role ms ts. beside (model role ms ts)), ag_schemas = ro_schemas,
     ag_dispatch = ro_dispatch env f root, ag_exhausted = is_exhausted (te_clock env),
     ag_max_tool_calls = limit\<rparr>"

definition m_calls :: "'s metered \<Rightarrow> int" where "m_calls m = bd_calls (fst m)"
definition m_cap :: "'s metered \<Rightarrow> int" where "m_cap m = bl_tool_calls (bd_limits (fst m))"
definition m_spent :: "'s metered \<Rightarrow> bool" where "m_spent m \<longleftrightarrow> bd_tripped (fst m) \<noteq> None"

lemmas meter_defs = m_calls_def m_cap_def m_spent_def

lemma exhausted_metered: "is_exhausted clk m = (x, m') \<Longrightarrow> m_calls m' = m_calls m \<and> m_cap m' = m_cap m
    \<and> x = m_spent m' \<and> (m_spent m \<longrightarrow> m_spent m')"
  using is_exhausted_keeps [of clk m x m'] by (auto simp: meter_defs)

lemma beside_metered: "beside act m = (r, m') \<Longrightarrow>
    m_calls m' = m_calls m \<and> m_cap m' = m_cap m \<and> m_spent m' = m_spent m"
  by (auto simp: beside_def meter_defs split: prod.splits)

lemma charge_metered: "charge clk m = (ok, m') \<Longrightarrow> m_cap m' = m_cap m \<and> m_calls m \<le> m_calls m'
    \<and> m_calls m' \<le> max (m_calls m) (m_cap m) \<and> (m_spent m \<longrightarrow> m_spent m')
    \<and> (m_calls m' = m_calls m + 1 \<or> m_spent m')"
  using charge_cases [of clk m ok m']
  by (cases ok; cases "bd_tripped (fst m) = None") (auto simp: meter_defs simp del: not_None_eq)

lemma metered_snd: "snd (run_metered env body m) = snd (charge (te_clock env) m)"
  by (auto simp: run_metered_def Let_def split: prod.splits)

lemma ro_dispatch_state: "snd (ro_dispatch env f root n args m) = m
    \<or> snd (ro_dispatch env f root n args m) = snd (charge (te_clock env) m)"
  by (auto simp: ro_dispatch_def metered_snd split: sum.split prod.split)

interpretation ro: metered_tools "ro_agent env f root model limit" m_calls m_cap m_spent
proof unfold_locales
  fix n args r and s s' :: "'a metered"
  assume d: "ag_dispatch (ro_agent env f root model limit) n args s = (r, s')"
  obtain ok m where c: "charge (te_clock env) s = (ok, m)" by (cases "charge (te_clock env) s")
  from ro_dispatch_state [of env f root n args s] d c have "s' = s \<or> s' = m"
    by (simp add: ro_agent_def)
  with charge_metered [OF c] show "m_cap s' = m_cap s \<and> m_calls s \<le> m_calls s'
      \<and> m_calls s' \<le> max (m_calls s) (m_cap s) \<and> (m_spent s \<longrightarrow> m_spent s')" by auto
qed (simp add: ro_agent_def, (erule exhausted_metered | erule beside_metered))+

text \<open>
  The budget bounds a read-only run. Whatever the model answers, a run never changes its limits,
  ends with at most \<open>max_tool_calls\<close> calls charged (or those charged before it), and reports
  exhaustion only when a limit has tripped.
\<close>

lemma agent_within_budget:
  "case run_agent (ro_agent env f root model limit) role conv (b, w) of
     (r, (b', w')) \<Rightarrow> bl_tool_calls (bd_limits b') = bl_tool_calls (bd_limits b)
       \<and> bd_calls b \<le> bd_calls b' \<and> bd_calls b' \<le> max (bd_calls b) (bl_tool_calls (bd_limits b))
       \<and> (case r of Inr out \<Rightarrow> if ao_status out = Exhausted then bd_tripped b' \<noteq> None else True
                  | Inl _ \<Rightarrow> True)"
proof -
  obtain r b' w' where r: "run_agent (ro_agent env f root model limit) role conv (b, w) = (r, (b', w'))"
    by (cases "run_agent (ro_agent env f root model limit) role conv (b, w)") auto
  from ro.run_meter [OF r] show ?thesis by (auto simp: r meter_defs split: sum.splits)
qed

end
