(* ===== verification/WriteTools.thy ===== *)
theory WriteTools
  imports Agent
begin

text \<open>
  The buffered write tools (\<^verbatim>\<open>src/groundtruth/ingest/write_tools.py\<close>): normalisation of the
  arguments a model passes, \<open>create_note\<close> and \<open>update_note\<close>, which stage a write without touching
  the disk, and their dispatch, which charges the budget first. Arguments are unchecked JSON. The
  state is the staged notes and the metered budget; a \<open>None\<close> budget (used by unit tests only) and
  the log lines are not modelled.

  Shown: whatever the model calls, the staged notes have distinct paths, a create never aims at an
  existing note and an update always does; and an organize run is ended by the model or by its
  budget, never by the round limit.
\<close>

section \<open>Argument normalisation\<close>

definition title_ext :: re where
  "title_ext = SeqL [Chr 46, AltL [StrCi (lit ''md''), StrCi (lit ''markdown''), StrCi (lit ''txt'')], Eol]"

definition fm_keys :: re where
  "fm_keys = AltL (map (StrCi \<circ> lit) [''tags'', ''title'', ''sources'', ''created'', ''updated'', ''aliases''])"

definition blank :: re where            \<comment> \<open>\<open>[ \t]\<close>\<close>
  "blank = Cls False [Rng 32 32, Rng 9 9]"

definition newline :: re where          \<comment> \<open>\<open>\r?\n\<close>\<close>
  "newline = Seq (Opt (Chr 13)) (Chr 10)"

definition leading_frontmatter :: re where
  "leading_frontmatter = SeqL [Bos, Str (lit ''---''), newline, Grp 1 (Star False DotAll), newline,
     Str (lit ''---''), Star True blank, Opt (Chr 13), Opt (Chr 10)]"

definition frontmatter_key :: re where
  "frontmatter_key = SeqL [Bol, Star True blank, fm_keys, Star True blank, Chr 58]"

definition fm_line :: re where
  "fm_line = SeqL [Star True blank, fm_keys, Star True blank, Chr 58, Star True Dot, newline]"

definition unfenced_frontmatter :: re where
  "unfenced_frontmatter = SeqL [Bos, fm_line,
     Star True (AltL [fm_line, SeqL [Star True blank, Chr 45, blank, Star True Dot, newline],
       Seq (Star True blank) newline]),
     newline]"

definition normalize_title :: "ucd \<Rightarrow> json \<Rightarrow> json" where
  "normalize_title u t =
    (case t of JStr s \<Rightarrow> JStr (strip (re_sub (word_char u) title_ext (\<lambda>_. []) s)) | _ \<Rightarrow> t)"

text \<open>\<open>body[m.end():].lstrip("\n")\<close>.\<close>

definition after_match :: "matched \<Rightarrow> pystr" where
  "after_match m = lstrip_by (\<lambda>c. c = 10) (snd (m_after m))"

definition strip_frontmatter :: "ucd \<Rightarrow> pystr \<Rightarrow> pystr" where
  "strip_frontmatter u s =
    (let w = word_char u; unfenced = (case re_match w unfenced_frontmatter s of
           Some m \<Rightarrow> after_match m | None \<Rightarrow> s) in
     case re_match w leading_frontmatter s of
       Some m \<Rightarrow> if re_search w frontmatter_key (group_str 1 m) \<noteq> None then after_match m else unfenced
     | None \<Rightarrow> unfenced)"

definition strip_body_frontmatter :: "ucd \<Rightarrow> json \<Rightarrow> json" where
  "strip_body_frontmatter u b = (case b of JStr s \<Rightarrow> JStr (strip_frontmatter u s) | _ \<Rightarrow> b)"

section \<open>Staged notes\<close>

text \<open>What may be attached to a staged note: nothing yet, a validated model, a mapping, YAML text
  or a value of another type.\<close>

datatype fm_value = NoFm | Fm frontmatter | FmMap "(pystr \<times> yval) list" | FmText pystr | FmOther

record pending_note =
  pn_path :: pystr
  pn_body :: json
  pn_is_new :: bool
  pn_folder :: "pystr option"
  pn_title :: "pystr option"
  pn_frontmatter :: fm_value

definition with_frontmatter :: "fm_value \<Rightarrow> pending_note \<Rightarrow> pending_note" where
  "with_frontmatter fm n = n\<lparr>pn_frontmatter := fm\<rparr>"

definition pending_paths :: "pending_note list \<Rightarrow> pystr list" where
  "pending_paths ps = map pn_path ps"

record 's write_env =
  we_ucd :: ucd
  we_fs :: fs
  we_root :: path
  we_existing :: "pystr list"
  we_clock :: "'s clock"

definition write_rel :: "'s write_env \<Rightarrow> json list \<Rightarrow> pystr res" where
  "write_rel env parts =
    bindR (mapR (\<lambda>p. case p of JStr s \<Rightarrow> Inr s
             | _ \<Rightarrow> Inl (unsafe [Lit ''path part must be a non-empty string''])) parts) (\<lambda>ps.
    bindR (resolve_in_vault (we_ucd env) (we_fs env) (we_root env) ps) (\<lambda>t.
    Inr (rel_path (we_root env) t)))"

fun sanitize_any :: "ucd \<Rightarrow> json \<Rightarrow> pystr res" where
  "sanitize_any u (JStr t) = sanitize_title u t"
| "sanitize_any u _ = Inl (unsafe [Lit ''title must be a string''])"

text \<open>An argument as the optional string kept with a staged note; the tools only get this far with
  strings.\<close>

definition str_arg :: "json \<Rightarrow> pystr option" where
  "str_arg j = (case j of JStr s \<Rightarrow> Some s | _ \<Rightarrow> None)"

definition new_pending :: "pystr \<Rightarrow> json \<Rightarrow> bool \<Rightarrow> pystr option \<Rightarrow> pystr option \<Rightarrow> pending_note" where
  "new_pending p b new folder ttl = \<lparr>pn_path = p, pn_body = b, pn_is_new = new, pn_folder = folder,
     pn_title = ttl, pn_frontmatter = NoFm\<rparr>"

text \<open>\<open>except UnsafePathError\<close> turns into the tool's error text.\<close>

definition unsafe_text :: "ucd \<Rightarrow> exn \<Rightarrow> pystr res" where
  "unsafe_text u e =
    (if isinstance e UnsafePathError then Inr (lit ''error: '' @ render u (emsg e)) else Inl e)"

definition create_note ::
  "'s write_env \<Rightarrow> json \<Rightarrow> json \<Rightarrow> json \<Rightarrow> (pending_note list, pystr) act" where
  "create_note env folder ttl body ps =
    (let u = we_ucd env; t = normalize_title u ttl; b = strip_body_frontmatter u body in
     case bindR (sanitize_any u t) (\<lambda>stem. write_rel env [folder, JStr (stem @ lit ''.md'')]) of
       Inl e \<Rightarrow> (unsafe_text u e, ps)
     | Inr rel \<Rightarrow>
         if rel \<in> set (pending_paths ps)
         then (Inr (lit ''error: a note at '' @ py_repr u rel @ lit '' was already staged in this job''), ps)
         else if rel \<in> set (we_existing env)
         then (Inr (lit ''updated '' @ rel @ [32, 8212, 32]
                 @ lit ''a note already existed at that path, so your create ''
                 @ lit ''was applied as an update to it ('' @ [167] @ lit ''7.5: the newer value wins)''),
               ps @ [new_pending rel b False None None])
         else (Inr (lit ''created '' @ rel), ps @ [new_pending rel b True (str_arg folder) (str_arg t)]))"

definition update_note :: "'s write_env \<Rightarrow> json \<Rightarrow> json \<Rightarrow> (pending_note list, pystr) act" where
  "update_note env p body ps =
    (let u = we_ucd env; b = strip_body_frontmatter u body in
     case write_rel env [p] of
       Inl e \<Rightarrow> (unsafe_text u e, ps)
     | Inr rel \<Rightarrow>
         if rel \<notin> set (we_existing env)
         then (Inr (lit ''error: no note exists at '' @ py_repr u rel @ lit ''; use create_note''), ps)
         else if rel \<in> set (pending_paths ps)
         then (Inr (lit ''error: '' @ py_repr u rel @ lit '' was already staged in this job''), ps)
         else (Inr (lit ''updated '' @ rel), ps @ [new_pending rel b False None None]))"

section \<open>Dispatch\<close>

type_synonym 's write_state = "pending_note list \<times> 's metered"

definition run_write_tool :: "'s write_env \<Rightarrow> json \<Rightarrow> json \<Rightarrow> (pending_note list, pystr) act" where
  "run_write_tool env name args ps =
    (if name = JStr (lit ''create_note'') then
       (case bindR (get_item (lit ''folder'') args) (\<lambda>f. bindR (get_item (lit ''title'') args) (\<lambda>t.
             bindR (get_item (lit ''body'') args) (\<lambda>b. Inr (f, t, b)))) of
          Inl e \<Rightarrow> (Inl e, ps) | Inr (f, t, b) \<Rightarrow> create_note env f t b ps)
     else if name = JStr (lit ''update_note'') then
       (case bindR (get_item (lit ''path'') args) (\<lambda>p.
             bindR (get_item (lit ''body'') args) (\<lambda>b. Inr (p, b))) of
          Inl e \<Rightarrow> (Inl e, ps) | Inr (p, b) \<Rightarrow> update_note env p b ps)
     else (Inr (lit ''unknown tool: '' @ py_str (we_ucd env) name), ps))"

definition write_dispatch :: "'s write_env \<Rightarrow> json \<Rightarrow> json \<Rightarrow> ('s write_state, pystr) act" where
  "write_dispatch env name args st =
    (let (ps, m) = st; (ok, m') = charge (we_clock env) m in
     if \<not> ok then (Inr budget_exhausted, (ps, m'))
     else let (r, ps') = run_write_tool env name args ps in (r, (ps', m')))"

definition write_schemas :: "json list" where
  "write_schemas =
    [tool_schema ''create_note''
       (''Create a new note. Supply the destination folder and a title; ''
        @ ''the system derives the filename. Buffered until the job commits.'')
       [(''folder'', ''A folder from schema.md.''), (''title'', ''The note title.''),
        (''body'', ''Markdown body with [[wikilinks]].'')] [''folder'', ''title'', ''body''],
     tool_schema ''update_note'' ''Replace the body of an existing note. Buffered until commit.''
       [(''path'', ''Path of an existing note.''), (''body'', ''The new Markdown body.'')]
       [''path'', ''body'']]"

text \<open>The agent of the organize step: the loop over these tools, one budget for both.\<close>

definition write_agent :: "'s write_env \<Rightarrow> 's model \<Rightarrow> int \<Rightarrow> 's write_state agent" where
  "write_agent env model limit =
    \<lparr>ag_ucd = we_ucd env,
     ag_complete = (\<lambda>role ms ts (ps, m). let (r, m') = beside (model role ms ts) m in (r, (ps, m'))),
     ag_schemas = write_schemas, ag_dispatch = write_dispatch env,
     ag_exhausted = (\<lambda>(ps, m). let (x, m') = is_exhausted (we_clock env) m in (x, (ps, m'))),
     ag_max_tool_calls = limit\<rparr>"

section \<open>The staged notes\<close>

text \<open>A staged note fits the vault it was drafted against.\<close>

definition staged_ok :: "pystr list \<Rightarrow> pending_note \<Rightarrow> bool" where
  "staged_ok existing n \<longleftrightarrow> (pn_is_new n \<longleftrightarrow> pn_path n \<notin> set existing)
    \<and> pn_frontmatter n = NoFm \<and> (pn_is_new n \<longleftrightarrow> pn_folder n \<noteq> None) \<and> (pn_is_new n \<longleftrightarrow> pn_title n \<noteq> None)"

definition batch_ok :: "pystr list \<Rightarrow> pending_note list \<Rightarrow> bool" where
  "batch_ok existing ps \<longleftrightarrow> distinct (pending_paths ps) \<and> list_all (staged_ok existing) ps"

lemma batch_ok_Nil [simp]: "batch_ok ex []"
  by (simp add: batch_ok_def pending_paths_def)

lemma batch_ok_snoc: "batch_ok ex ps \<Longrightarrow> pn_path n \<notin> set (pending_paths ps) \<Longrightarrow> staged_ok ex n \<Longrightarrow>
    batch_ok ex (ps @ [n])"
  by (auto simp: batch_ok_def pending_paths_def)

lemma create_args: "bindR (sanitize_any u t) (\<lambda>stem. write_rel env [folder, JStr (stem @ x)]) = Inr rel \<Longrightarrow>
    str_arg folder \<noteq> None \<and> str_arg t \<noteq> None"
  by (cases t; cases folder) (auto simp: write_rel_def str_arg_def)

lemma create_note_ok:
  assumes "batch_ok (we_existing env) ps" and "create_note env folder ttl body ps = (r, ps')"
  shows "batch_ok (we_existing env) ps'"
proof (cases "bindR (sanitize_any (we_ucd env) (normalize_title (we_ucd env) ttl))
    (\<lambda>stem. write_rel env [folder, JStr (stem @ lit ''.md'')])")
  case (Inl e)
  with assms show ?thesis by (auto simp: create_note_def Let_def)
next
  case (Inr rel)
  with create_args [OF Inr] assms show ?thesis
    by (auto simp: create_note_def Let_def new_pending_def staged_ok_def simp del: bindR_eq_Inr
        intro!: batch_ok_snoc split: if_splits)
qed

lemma update_note_ok:
  assumes "batch_ok (we_existing env) ps" and "update_note env p body ps = (r, ps')"
  shows "batch_ok (we_existing env) ps'"
proof (cases "write_rel env [p]")
  case (Inl e)
  with assms show ?thesis by (simp add: update_note_def Let_def)
next
  case (Inr rel)
  with assms show ?thesis
    by (auto simp: update_note_def Let_def new_pending_def staged_ok_def intro!: batch_ok_snoc split: if_splits)
qed

lemma run_write_tool_cases: "run_write_tool env name args ps = (r, ps') \<Longrightarrow> ps' = ps
    \<or> (\<exists>f t b. create_note env f t b ps = (r, ps')) \<or> (\<exists>p b. update_note env p b ps = (r, ps'))"
  unfolding run_write_tool_def
  by (simp del: bindR_eq_Inr split: if_splits sum.splits prod.splits) blast+

lemma run_write_tool_ok:
  "batch_ok (we_existing env) ps \<Longrightarrow> run_write_tool env name args ps = (r, ps') \<Longrightarrow>
   batch_ok (we_existing env) ps'"
  using run_write_tool_cases create_note_ok update_note_ok by metis

lemma write_dispatch_ok:
  "batch_ok (we_existing env) (fst st) \<Longrightarrow> write_dispatch env name args st = (r, st') \<Longrightarrow>
   batch_ok (we_existing env) (fst st')"
  by (cases st) (auto simp: write_dispatch_def Let_def dest: run_write_tool_ok
      split: prod.splits if_splits)


section \<open>The organize run\<close>

lemma write_agent_sel [simp]:
  "ag_dispatch (write_agent env model limit) = write_dispatch env"
  "ag_max_tool_calls (write_agent env model limit) = limit"
  by (simp_all add: write_agent_def)

lemma write_complete: "ag_complete (write_agent env model limit) role ms ts st = (r, st') \<Longrightarrow>
    fst st' = fst st \<and> beside (model role ms ts) (snd st) = (r, snd st')"
  by (cases st) (auto simp: write_agent_def split: prod.splits)

lemma write_exhausted: "ag_exhausted (write_agent env model limit) st = (x, st') \<Longrightarrow>
    fst st' = fst st \<and> is_exhausted (we_clock env) (snd st) = (x, snd st')"
  by (cases st) (auto simp: write_agent_def split: prod.splits)

lemma write_dispatch_charge: "write_dispatch env name args st = (r, st') \<Longrightarrow>
    snd (charge (we_clock env) (snd st)) = snd st'"
  by (cases st) (auto simp: write_dispatch_def Let_def split: prod.splits if_splits)

lemma write_dispatch_metered: "write_dispatch env name args st = (r, st') \<Longrightarrow>
    m_cap (snd st') = m_cap (snd st) \<and> m_calls (snd st) \<le> m_calls (snd st')
    \<and> m_calls (snd st') \<le> max (m_calls (snd st)) (m_cap (snd st)) \<and> (m_spent (snd st) \<longrightarrow> m_spent (snd st'))
    \<and> (m_calls (snd st') = m_calls (snd st) + 1 \<or> m_spent (snd st'))"
  using charge_metered [of "we_clock env" "snd st" _ "snd st'"] write_dispatch_charge [of env name args st r st']
  by (metis prod.collapse)

interpretation wt: charging_tools "write_agent env model limit" "m_calls \<circ> snd" "m_cap \<circ> snd" "m_spent \<circ> snd"
proof unfold_locales
  fix st st' :: "'a write_state" and x
  assume "ag_exhausted (write_agent env model limit) st = (x, st')"
  from exhausted_metered [OF conjunct2 [OF write_exhausted [OF this]]]
  show "(m_calls \<circ> snd) st' = (m_calls \<circ> snd) st \<and> (m_cap \<circ> snd) st' = (m_cap \<circ> snd) st
      \<and> x = (m_spent \<circ> snd) st' \<and> ((m_spent \<circ> snd) st \<longrightarrow> (m_spent \<circ> snd) st')" by simp
next
  fix role ms ts r and st st' :: "'a write_state"
  assume "ag_complete (write_agent env model limit) role ms ts st = (r, st')"
  from beside_metered [OF conjunct2 [OF write_complete [OF this]]]
  show "(m_calls \<circ> snd) st' = (m_calls \<circ> snd) st \<and> (m_cap \<circ> snd) st' = (m_cap \<circ> snd) st
      \<and> (m_spent \<circ> snd) st' = (m_spent \<circ> snd) st" by simp
next
  fix st :: "'a write_state"
  assume s: "(m_spent \<circ> snd) st"
  obtain x st' where e: "ag_exhausted (write_agent env model limit) st = (x, st')"
    by (cases "ag_exhausted (write_agent env model limit) st")
  from exhausted_metered [OF conjunct2 [OF write_exhausted [OF e]]] s e
  show "fst (ag_exhausted (write_agent env model limit) st)" by simp
next
  fix st :: "'a write_state"
  assume n: "\<not> fst (ag_exhausted (write_agent env model limit) st)"
  obtain st' where e: "ag_exhausted (write_agent env model limit) st = (False, st')"
    using n by (cases "ag_exhausted (write_agent env model limit) st") auto
  from is_exhausted_False [OF conjunct2 [OF write_exhausted [OF e]]]
  show "(m_calls \<circ> snd) st < (m_cap \<circ> snd) st" by (simp add: meter_defs)
qed (auto dest!: write_dispatch_metered)

lemma invoke_batch: "invoke (write_agent env model limit) c st = (i, st') \<Longrightarrow>
    batch_ok (we_existing env) (fst st) \<Longrightarrow> batch_ok (we_existing env) (fst st')"
  by (auto simp: invoke_def Let_def dest: write_dispatch_ok split: prod.splits)

lemma invoke_all_batch: "invoke_all (write_agent env model limit) cs st = (is, st') \<Longrightarrow>
    batch_ok (we_existing env) (fst st) \<Longrightarrow> batch_ok (we_existing env) (fst st')"
  by (induction cs arbitrary: st "is") (auto simp: Let_def dest: invoke_batch split: prod.splits)

lemma loop_batch: "agent_loop (write_agent env model limit) role n ms tr u st = (r, st') \<Longrightarrow>
    batch_ok (we_existing env) (fst st) \<Longrightarrow> batch_ok (we_existing env) (fst st')"
proof (induction n arbitrary: ms tr u st)
  case (Suc n)
  let ?a = "write_agent env model limit"
  obtain x s1 where e: "ag_exhausted ?a st = (x, s1)" by (cases "ag_exhausted ?a st")
  obtain q s2 where c: "ag_complete ?a role ms (ag_schemas ?a) s1 = (q, s2)"
    by (cases "ag_complete ?a role ms (ag_schemas ?a) s1")
  have f: "fst s1 = fst st" "fst s2 = fst st" using write_exhausted [OF e] write_complete [OF c] by auto
  consider "x \<or> isl q" | re where "\<not> x" "q = Inr re" "lr_tool_calls re = []"
    | re where "\<not> x" "q = Inr re" "lr_tool_calls re \<noteq> []"
    by (cases q) auto
  then show ?case
  proof cases
    case (3 re)
    obtain "is" s3 where i: "invoke_all ?a (lr_tool_calls re) s2 = (is, s3)"
      by (cases "invoke_all ?a (lr_tool_calls re) s2")
    from Suc.prems e c 3 i obtain ms' tr' u' where "agent_loop ?a role n ms' tr' u' s3 = (r, st')"
      by (simp add: Let_def)
    from Suc.IH [OF this] invoke_all_batch [OF i] f Suc.prems show ?thesis by simp
  qed (use Suc.prems e c f in \<open>auto simp: Let_def simp del: isinstance_cases split: if_splits sum.splits\<close>)
qed auto

text \<open>
  C11. What an organize run can stage. Whatever the model calls, with whatever arguments, the notes
  staged when the run ends have pairwise distinct paths; a note is staged as new exactly when no
  note exists at its path, and exactly then it carries the folder and title it was derived from;
  and none has frontmatter, which only the pipeline attaches. The calls charged stay within the cap.
\<close>

theorem organize_stages_ok:
  "case run_agent (write_agent env model limit) role conv ([], (b, w)) of
     (r, (ps, (b', w'))) \<Rightarrow> distinct (pending_paths ps) \<and> list_all (staged_ok (we_existing env)) ps
       \<and> bd_calls b' \<le> max (bd_calls b) (bl_tool_calls (bd_limits b))"
proof -
  obtain r ps b' w' where r: "run_agent (write_agent env model limit) role conv ([], (b, w)) = (r, (ps, (b', w')))"
    by (cases "run_agent (write_agent env model limit) role conv ([], (b, w))") auto
  have "batch_ok (we_existing env) ps" using loop_batch [OF r [unfolded run_agent_def]] by simp
  with wt.run_meter [OF r] show ?thesis by (simp add: r batch_ok_def meter_defs)
qed

text \<open>
  C34. The organize step always comes to an end by itself: with a model that always answers and a
  non-negative call limit, a run started on a fresh budget returns completed or exhausted. Every
  round that is not the last charges a call, so the round limit is never reached.
\<close>

definition always_answers :: "'s model \<Rightarrow> bool" where
  "always_answers model \<longleftrightarrow> (\<forall>role ms ts s. isOk (fst (model role ms ts s)))"

theorem organize_converges:
  assumes "always_answers model" and "bd_calls b = 0" and "bl_tool_calls (bd_limits b) = limit" and "0 \<le> limit"
  shows "case fst (run_agent (write_agent env model limit) role conv ([], (b, w))) of
     Inl _ \<Rightarrow> False | Inr out \<Rightarrow> ao_status out \<noteq> Failed"
proof -
  have a: "isOk (fst (ag_complete (write_agent env model limit) role ms ts st))" for role ms ts st
    using assms(1) by (cases st) (simp add: write_agent_def beside_def always_answers_def case_prod_beta)
  obtain out s' where "run_agent (write_agent env model limit) role conv ([], (b, w)) = (Inr out, s')"
      "ao_status out \<noteq> Failed"
    using wt.run_converges [OF a, of "([], (b, w))" role conv] assms by (auto simp: meter_defs)
  then show ?thesis by simp
qed

text \<open>A model that calls an unknown tool forever, on a budget of two calls.\<close>

definition stubborn :: "unit model" where
  "stubborn role ms ts s = (Inr \<lparr>lr_role = role, lr_model = [], lr_text = JNull,
     lr_tool_calls = [\<lparr>tc_id = JNull, tc_name = JNull, tc_arguments = JNull\<rparr>], lr_usage = zero_usage\<rparr>, s)"

definition two_calls :: budget where
  "two_calls = \<lparr>bd_limits = default_limits\<lparr>bl_tool_calls := 2\<rparr>, bd_start = 0, bd_calls = 0, bd_tripped = None\<rparr>"

definition demo_write_env :: "unit write_env" where
  "demo_write_env = \<lparr>we_ucd = ascii_ucd, we_fs = demo_fs, we_root = [lit ''v''], we_existing = [],
     we_clock = (\<lambda>s. (0, s))\<rparr>"

theorem organize_converges_witness:
  "case fst (run_agent (write_agent demo_write_env stubborn 2) [] (Prompt []) ([], (two_calls, ()))) of
     Inl _ \<Rightarrow> False | Inr out \<Rightarrow> ao_status out \<noteq> Failed"
  by (rule organize_converges) (simp_all add: always_answers_def stubborn_def two_calls_def)

end
