(* ===== verification/SchemaMd.thy ===== *)
theory SchemaMd
  imports Notes
begin

text \<open>
  \<^verbatim>\<open>src/groundtruth/ingest/schema.py\<close>: parsing a vault's \<open>schema.md\<close> and the one guarded writer.
\<close>

record schema =
  folders :: "pystr list"
  tag_guidance :: pystr
  raw_schema :: pystr

text \<open>\<open><!--.*?-->\<close> (DOTALL), \<open>^\s{0,3}#{1,6}\s+(.*?)\s*#*\s*$\<close> and \<open>^\s*[-*+]\s+(.*)$\<close>.\<close>

definition html_comment :: re where
  "html_comment = SeqL [Str (lit ''<!--''), Star False DotAll, Str (lit ''-->'')]"

definition space_cls :: re where
  "space_cls = Cls False [CSpace]"

definition heading_re :: re where
  "heading_re = SeqL [Bos, UpTo 3 space_cls, Chr 35, UpTo 5 (Chr 35), Plus space_cls,
     Grp 1 (Star False Dot), Star True space_cls, Star True (Chr 35), Star True space_cls, Eol]"

definition list_item_re :: re where
  "list_item_re = SeqL [Bos, Star True space_cls, Cls False [Rng 45 45, Rng 42 43],
     Plus space_cls, Grp 1 (Star True Dot), Eol]"

definition no_word :: "uchar \<Rightarrow> bool" where
  "no_word c = False"

section \<open>Parsing\<close>

fun sections_loop :: "ucd \<Rightarrow> pystr \<Rightarrow> (pystr \<times> pystr list) list \<Rightarrow> pystr list \<Rightarrow> (pystr \<times> pystr list) list" where
  "sections_loop u current secs [] = secs"
| "sections_loop u current secs (l # ls) =
    (case re_match no_word heading_re l of
       Some m \<Rightarrow>
         let k = casefold u (strip (group_str 1 m)) in
         sections_loop u k (case map_of secs k of None \<Rightarrow> secs @ [(k, [])] | Some _ \<Rightarrow> secs) ls
     | None \<Rightarrow>
         sections_loop u current
           (dict_set current ((case map_of secs current of Some x \<Rightarrow> x | None \<Rightarrow> []) @ [l]) secs) ls)"

definition sections_of :: "ucd \<Rightarrow> pystr \<Rightarrow> (pystr \<times> pystr list) list" where
  "sections_of u t = sections_loop u [] [([], [])] (splitlines t)"

text \<open>The separators of \<open>[\s\u2013\u2014:]\<close>.\<close>

definition folder_sep :: "uchar \<Rightarrow> bool" where
  "folder_sep c \<longleftrightarrow> is_space c \<or> c = 8211 \<or> c = 8212 \<or> c = 58"

definition folder_name :: "pystr \<Rightarrow> pystr option" where
  "folder_name item =
    (let token = takeWhile (\<lambda>c. \<not> folder_sep c) (strip item);
         name = rstrip_by (\<lambda>c. c = 47) (strip_by (\<lambda>c. c = 96) (strip token))
     in if name = [] then None else Some name)"

fun folder_loop :: "pystr list \<Rightarrow> pystr list \<Rightarrow> pystr list" where
  "folder_loop acc [] = acc"
| "folder_loop acc (l # ls) =
    (case re_match no_word list_item_re l of
       None \<Rightarrow> folder_loop acc ls
     | Some m \<Rightarrow>
        (case folder_name (group_str 1 m) of
           None \<Rightarrow> folder_loop acc ls
         | Some n \<Rightarrow> folder_loop (if n \<in> set acc then acc else acc @ [n]) ls))"

definition parse_schema :: "ucd \<Rightarrow> pystr \<Rightarrow> schema res" where
  "parse_schema u t =
    (let secs = sections_of u (re_sub no_word html_comment (\<lambda>_. []) t) in
     case map_of secs (lit ''folders'') of
       None \<Rightarrow> Inl (exc SchemaError [Lit ''schema.md has no Folders section''])
     | Some ls \<Rightarrow>
        (let fs = folder_loop [] ls in
         if fs = [] then Inl (exc SchemaError [Lit ''schema.md Folders section lists no folders''])
         else Inr \<lparr>folders = fs,
           tag_guidance = strip (join [10] (case map_of secs (lit ''tags'') of Some x \<Rightarrow> x | None \<Rightarrow> [])),
           raw_schema = t\<rparr>))"

definition load_schema :: "ucd \<Rightarrow> fs \<Rightarrow> path \<Rightarrow> schema res" where
  "load_schema u f vd =
    (let p = vd @ [schema_filename] in
     if \<not> is_file f p then Inl (exc SchemaNotFoundError [Lit ''no schema.md in this vault''])
     else bindR (read_text f p) (parse_schema u))"

text \<open>\<open>tmp.replace(path)\<close>: replacing a directory fails.\<close>

definition replace_file :: "path \<Rightarrow> pystr \<Rightarrow> (fs, unit) act" where
  "replace_file p t f =
    (case resolve f (butlast p) of
       Inl e \<Rightarrow> (Inl e, f)
     | Inr d \<Rightarrow>
        if lookup f d \<noteq> Some Dir \<or> lookup f (d @ [last p]) = Some Dir
        then (Inl (exc OSError [Lit ''cannot replace'']), f)
        else (Inr (), put_file (d @ [last p]) t f))"

definition write_schema :: "path \<Rightarrow> pystr \<Rightarrow> bool \<Rightarrow> (fs, unit) act" where
  "write_schema vd markdown allowed f =
    (if \<not> allowed
     then (Inl (exc SchemaWriteRefusedError
            [Lit ''schema.md write refused: allow_schema_writes is false'']), f)
     else case utf8_encode markdown of
       Inl e \<Rightarrow> (Inl e, f)
     | Inr _ \<Rightarrow> replace_file (vd @ [schema_filename]) markdown f)"

section \<open>Properties\<close>

lemma folder_name_ok: "folder_name i = Some n \<Longrightarrow> n \<noteq> [] \<and> last n \<noteq> 47"
  using rstrip_by_last [of "\<lambda>c. c = 47"] by (auto simp: folder_name_def Let_def split: if_splits)

lemma folder_loop_inv:
  "distinct acc \<Longrightarrow> list_all (\<lambda>n. n \<noteq> [] \<and> last n \<noteq> 47) acc \<Longrightarrow>
    distinct (folder_loop acc ls) \<and> list_all (\<lambda>n. n \<noteq> [] \<and> last n \<noteq> 47) (folder_loop acc ls)"
proof (induction ls arbitrary: acc)
  case (Cons l ls)
  show ?case
  proof (cases "re_match no_word list_item_re l")
    case None
    with Cons show ?thesis by simp
  next
    case (Some m)
    show ?thesis
    proof (cases "folder_name (group_str 1 m)")
      case None
      with Some Cons show ?thesis by simp
    next
      case n: (Some n)
      have "folder_loop acc (l # ls) = folder_loop (if n \<in> set acc then acc else acc @ [n]) ls"
        using Some n by simp
      with Cons.IH [of "if n \<in> set acc then acc else acc @ [n]"] Cons.prems folder_name_ok [OF n]
      show ?thesis by simp
    qed
  qed
qed simp

text \<open>
  A schema that parses lists at least one folder, each once, each with a non-empty name without
  trailing slash, and keeps the file's text verbatim; every failure is a \<open>SchemaError\<close>.
\<close>

lemma parse_schema_result:
  "case parse_schema u t of
     Inr s \<Rightarrow> folders s \<noteq> [] \<and> distinct (folders s)
       \<and> list_all (\<lambda>n. n \<noteq> [] \<and> last n \<noteq> 47) (folders s) \<and> raw_schema s = t
   | Inl e \<Rightarrow> ecls e = SchemaError"
  using folder_loop_inv [of "[]"] by (auto simp: parse_schema_def Let_def split: option.split)

text \<open>
  The write gate of \<open>schema.md\<close>. When schema writes are not allowed the file system is untouched
  and the write raises \<open>SchemaWriteRefusedError\<close>; when they are, a successful write of text without
  carriage returns changes no other path, and loading the schema parses exactly the text written.
\<close>

lemma write_schema_gate:
  assumes "canonical f vd" and "lookup f vd = Some Dir" and "vd @ [schema_filename] \<noteq> []"
    and "13 \<notin> set md" and "write_schema vd md allowed f = (r, f')"
  shows "if allowed \<and> isOk r
    then load_schema u f' vd = parse_schema u md
      \<and> (\<forall>q. q = vd @ [schema_filename] \<or> lookup f' q = lookup f q)
    else f' = f \<and> (allowed \<or> (\<exists>m. r = Inl (exc SchemaWriteRefusedError m)))"
proof (cases "allowed \<and> isOk r")
  case False
  then show ?thesis using assms(5)
    by (auto simp: write_schema_def replace_file_def split: if_splits sum.splits)
next
  case True
  let ?p = "vd @ [schema_filename]"
  have f': "f' = put_file ?p md f"
    using True assms(1,5)
    by (auto simp: write_schema_def replace_file_def path_simps split: if_splits sum.splits)
  have sn: "schema_filename \<noteq> dot" "schema_filename \<noteq> dotdot" by code_simp+
  have "\<not> is_link (lookup f' ?p)" by (simp add: f' path_simps is_link_def)
  then have c': "canonical f' ?p"
    using canonical_put [of ?p f vd md] assms(1) sn unfolding f' by (simp add: canonical_snoc)
  have "load_schema u f' vd = parse_schema u md"
    using c' assms(4)
    by (simp add: load_schema_def Let_def is_file_def read_text_def path_simps f' node_is_file_def
        universal_newlines_id)
  moreover have "\<forall>q. q = ?p \<or> lookup f' q = lookup f q" by (simp add: f' path_simps)
  ultimately show ?thesis using True by simp
qed

lemma write_schema_gate_witness:
  "load_schema ascii_ucd (snd (write_schema [lit ''v''] (lit ''x'') True demo_vault)) [lit ''v''] =
    parse_schema ascii_ucd (lit ''x'')"
proof -
  have a: "canonical demo_vault [lit ''v'']" "lookup demo_vault [lit ''v''] = Some Dir"
    "[lit ''v''] @ [schema_filename] \<noteq> []" "13 \<notin> set (lit ''x'')" by code_simp+
  have ok: "isOk (fst (write_schema [lit ''v''] (lit ''x'') True demo_vault))" by code_simp
  from write_schema_gate [OF a, where allowed = True and u = ascii_ucd and f' = "snd (write_schema [lit ''v''] (lit ''x'') True demo_vault)"
      and r = "fst (write_schema [lit ''v''] (lit ''x'') True demo_vault)"] ok
  show ?thesis by simp
qed

end
