(* ===== verification/Links.thy ===== *)
theory Links
  imports Regex
begin

text \<open>
  \<^verbatim>\<open>src/groundtruth/ingest/links.py\<close>: extraction of wikilinks, the check that every link resolves, and
  the last-resort downgrade of dangling links to plain text. Its patterns use no word class.
\<close>

definition nw :: "uchar \<Rightarrow> bool" where
  "nw c = False"

text \<open>\<open>^[ \t]*(```+|~~~+)\<close>, \<open>`[^`\n]*`\<close> and \<open>\[\[([^\[\]|]+?)(?:\|([^\[\]]*))?\]\]\<close>.\<close>

definition fence_marker :: re where
  "fence_marker = SeqL [Bos, Star True (Cls False [Rng 32 32, Rng 9 9]),
     Grp 1 (Alt (SeqL [Chr 96, Chr 96, Plus (Chr 96)]) (SeqL [Chr 126, Chr 126, Plus (Chr 126)]))]"

definition inline_code :: re where
  "inline_code = SeqL [Chr 96, Star True (Cls True [Rng 96 96, Rng 10 10]), Chr 96]"

definition wikilink :: re where
  "wikilink = SeqL [Chr 91, Chr 91, Grp 1 (LazyPlus (Cls True [Rng 91 91, Rng 93 93, Rng 124 124])),
     Opt (Seq (Chr 124) (Grp 2 (Star True (Cls True [Rng 91 91, Rng 93 93])))), Chr 93, Chr 93]"

record link =
  link_target :: pystr
  link_display :: "pystr option"

section \<open>Code is not searched\<close>

text \<open>The marker character of a line that opens or closes a fence.\<close>

definition marker :: "pystr \<Rightarrow> uchar option" where
  "marker l = map_option (\<lambda>m. hd (group_str 1 m)) (re_match nw fence_marker l)"

text \<open>The scan over the lines: which lines are outside every fenced block, fence lines excluded.\<close>

fun outside :: "uchar option \<Rightarrow> pystr list \<Rightarrow> bool list" where
  "outside fence [] = []"
| "outside fence (l # ls) =
    (case fence of
       None \<Rightarrow> (case marker l of Some c \<Rightarrow> False # outside (Some c) ls | None \<Rightarrow> True # outside None ls)
     | Some c \<Rightarrow> False # outside (if marker l = Some c then None else Some c) ls)"

definition strip_code :: "pystr \<Rightarrow> pystr" where
  "strip_code t =
    (let ls = split_on 10 t in
     re_sub nw inline_code (\<lambda>_. []) (join [10] (map2 (\<lambda>l b. if b then l else []) ls (outside None ls))))"

section \<open>Extraction\<close>

definition target_of :: "matched \<Rightarrow> pystr" where
  "target_of m = strip (first_field 35 (group_str 1 m))"

definition display_of :: "matched \<Rightarrow> pystr option" where
  "display_of m = (let d = strip (group_str 2 m) in if d = [] then None else Some d)"

definition extract_links :: "pystr \<Rightarrow> link list" where
  "extract_links body =
    map (\<lambda>m. \<lparr>link_target = target_of m, link_display = display_of m\<rparr>)
      (filter (\<lambda>m. target_of m \<noteq> []) (re_finditer nw wikilink (strip_code body)))"

section \<open>The check\<close>

definition stem_of :: "pystr \<Rightarrow> pystr" where
  "stem_of p = removesuffix p (lit ''.md'')"

definition link_index :: "pystr list \<Rightarrow> pystr list" where
  "link_index paths = concat (map (\<lambda>p. [stem_of p, last_field 47 (stem_of p)]) paths)"

definition check_links :: "link list \<Rightarrow> pystr list \<Rightarrow> pystr list \<Rightarrow> link list" where
  "check_links ls existing created_now =
    filter (\<lambda>l. link_target l \<notin> set (link_index existing) \<union> set (link_index created_now)) ls"

section \<open>The downgrade\<close>

text \<open>Text segments and code spans of a line, in order (\<open>re.split\<close> with a capturing group).\<close>

fun segments :: "pystr \<Rightarrow> (uchar + matched) list \<Rightarrow> (bool \<times> pystr) list" where
  "segments acc [] = [(False, acc)]"
| "segments acc (Inl c # xs) = segments (acc @ [c]) xs"
| "segments acc (Inr m # xs) = (False, acc) # (True, m_text m) # segments [] xs"

definition code_segments :: "pystr \<Rightarrow> (bool \<times> pystr) list" where
  "code_segments l = segments [] (scan nw inline_code ([], l))"

text \<open>\<open>_replace\<close>, with the list of targets downgraded so far.\<close>

definition replace_link :: "pystr list \<Rightarrow> matched \<Rightarrow> pystr list \<Rightarrow> pystr \<times> pystr list" where
  "replace_link wanted m done =
    (let t = target_of m in
     if t \<notin> set wanted then (m_text m, done)
     else let al = strip (group_str 2 m) in
       (if al = [] then t else al, if t \<in> set done then done else done @ [t]))"

fun sub_links :: "pystr list \<Rightarrow> (uchar + matched) list \<Rightarrow> pystr list \<Rightarrow> pystr \<times> pystr list" where
  "sub_links wanted [] done = ([], done)"
| "sub_links wanted (Inl c # xs) done = (case sub_links wanted xs done of (t, d) \<Rightarrow> (c # t, d))"
| "sub_links wanted (Inr m # xs) done =
    (case replace_link wanted m done of (r, d) \<Rightarrow>
     case sub_links wanted xs d of (t, d') \<Rightarrow> (r @ t, d'))"

fun sub_segments :: "pystr list \<Rightarrow> (bool \<times> pystr) list \<Rightarrow> pystr list \<Rightarrow> pystr \<times> pystr list" where
  "sub_segments wanted [] done = ([], done)"
| "sub_segments wanted ((code, s) # ss) done =
    (case (if code then (s, done) else sub_links wanted (scan nw wikilink ([], s)) done) of (r, d) \<Rightarrow>
     case sub_segments wanted ss d of (t, d') \<Rightarrow> (r @ t, d'))"

fun sub_lines :: "pystr list \<Rightarrow> (pystr \<times> bool) list \<Rightarrow> pystr list \<Rightarrow> pystr list \<times> pystr list" where
  "sub_lines wanted [] done = ([], done)"
| "sub_lines wanted ((l, out) # ls) done =
    (case (if out then sub_segments wanted (code_segments l) done else (l, done)) of (r, d) \<Rightarrow>
     case sub_lines wanted ls d of (rs, d') \<Rightarrow> (r # rs, d'))"

definition downgrade_links :: "pystr \<Rightarrow> pystr list \<Rightarrow> pystr \<times> pystr list" where
  "downgrade_links body targets =
    (let ls = split_on 10 body in
     case sub_lines targets (zip ls (outside None ls)) [] of (out, d) \<Rightarrow> (join [10] out, d))"

section \<open>Extracted targets\<close>

lemma length_outside [simp]: "length (outside fence ls) = length ls"
  by (induction fence ls rule: outside.induct) (auto split: option.splits)

lemma target_of_no_hash: "35 \<notin> set (target_of m)"
proof -
  have "35 \<notin> set (first_field 35 s)" for s
    unfolding first_field_def by (rule split_on_no_sep [of _ 35 s]) simp
  then show ?thesis using set_strip_by [of is_space "first_field 35 (group_str 1 m)"]
    by (auto simp: target_of_def strip_def)
qed

text \<open>
  Every extracted link has a target that is not empty, has no surrounding white space and no
  fragment marker, and its display text, if any, is not empty and stripped.
\<close>

lemma extract_links_targets:
  "list_all (\<lambda>l. link_target l \<noteq> [] \<and> strip (link_target l) = link_target l \<and> 35 \<notin> set (link_target l)
      \<and> link_display l \<noteq> Some [] \<and> map_option strip (link_display l) = link_display l)
    (extract_links body)"
  by (auto simp: list_all_iff extract_links_def target_of_no_hash display_of_def Let_def)
    (simp add: target_of_def)

section \<open>Downgrading\<close>

lemma segments_text: "concat (map snd (segments acc xs)) = acc @ concat (map chunk_text xs)"
  by (induction acc xs rule: segments.induct) simp_all

lemma code_segments_text: "concat (map snd (code_segments l)) = l"
  by (simp add: code_segments_def segments_text scan_text)

text \<open>Nothing wanted, nothing changed.\<close>

lemma sub_links_nothing:
  assumes "\<And>m. Inr m \<in> set xs \<Longrightarrow> target_of m \<notin> set wanted"
  shows "sub_links wanted xs done = (concat (map chunk_text xs), done)"
  using assms
proof (induction wanted xs "done" rule: sub_links.induct)
  case (3 wanted m xs "done")
  then show ?case by (simp add: replace_link_def Let_def)
qed simp_all

lemma sub_segments_nothing:
  assumes "\<And>m s. Inr m \<in> set (scan nw wikilink ([], s)) \<Longrightarrow> (False, s) \<in> set ss \<Longrightarrow> target_of m \<notin> set wanted"
  shows "sub_segments wanted ss done = (concat (map snd ss), done)"
  using assms
proof (induction ss arbitrary: "done")
  case (Cons x ss)
  have IH: "sub_segments wanted ss d = (concat (map snd ss), d)" for d
    by (rule Cons.IH) (use Cons.prems in auto)
  obtain code s where x: "x = (code, s)" by (cases x)
  show ?case
  proof (cases code)
    case True
    with IH x show ?thesis by simp
  next
    case False
    then have "sub_links wanted (scan nw wikilink ([], s)) done = (s, done)"
      using Cons.prems x by (subst sub_links_nothing) (auto simp: scan_text)
    with False IH x show ?thesis by simp
  qed
qed simp

text \<open>The targets downgraded: distinct, wanted, and added behind those already there.\<close>

definition grows :: "pystr list \<Rightarrow> pystr list \<Rightarrow> pystr list \<Rightarrow> bool" where
  "grows wanted d d' \<longleftrightarrow> prefix d d' \<and> (distinct d \<longrightarrow> distinct d') \<and> set d' \<subseteq> set d \<union> set wanted"

lemma grows_refl [simp]: "grows wanted d d"
  by (simp add: grows_def)

lemma grows_trans: "grows wanted a b \<Longrightarrow> grows wanted b c \<Longrightarrow> grows wanted a c"
  using prefix_order.trans [of a b c] by (auto simp: grows_def)

lemma grows_replace: "grows wanted d (snd (replace_link wanted m d))"
  by (auto simp: grows_def replace_link_def Let_def)

lemma grows_links: "grows wanted d (snd (sub_links wanted xs d))"
proof (induction wanted xs d rule: sub_links.induct)
  case (3 wanted m xs d)
  obtain r d1 where rd: "replace_link wanted m d = (r, d1)" by fastforce
  then have "grows wanted d d1" using grows_replace [of wanted d m] by simp
  moreover have "grows wanted d1 (snd (sub_links wanted xs d1))" using 3 rd by simp
  ultimately show ?case using rd grows_trans by (auto split: prod.split)
qed (auto split: prod.split)

lemma grows_segments: "grows wanted d (snd (sub_segments wanted ss d))"
proof (induction wanted ss d rule: sub_segments.induct)
  case (2 wanted code s ss d)
  obtain r d1 where rd: "(if code then (s, d) else sub_links wanted (scan nw wikilink ([], s)) d) = (r, d1)"
    by fastforce
  then have "grows wanted d d1" using grows_links [of wanted d "scan nw wikilink ([], s)"] by (auto split: if_splits)
  moreover have "grows wanted d1 (snd (sub_segments wanted ss d1))" using 2 [OF rd [symmetric]] by simp
  ultimately show ?case using rd grows_trans by (auto split: prod.split)
qed simp

lemma grows_lines: "grows wanted d (snd (sub_lines wanted ls d))"
proof (induction wanted ls d rule: sub_lines.induct)
  case (2 wanted l out ls d)
  obtain r d1 where rd: "(if out then sub_segments wanted (code_segments l) d else (l, d)) = (r, d1)"
    by fastforce
  then have "grows wanted d d1" using grows_segments [of wanted d "code_segments l"] by (auto split: if_splits)
  moreover have "grows wanted d1 (snd (sub_lines wanted ls d1))" using 2 [OF rd [symmetric]] by simp
  ultimately show ?case using rd grows_trans by (auto split: prod.split)
qed simp

lemma sub_lines_nothing:
  assumes "wanted = []"
  shows "sub_lines wanted ls d = (map fst ls, d)"
  using assms
  by (induction wanted ls d rule: sub_lines.induct)
    (auto simp: sub_segments_nothing code_segments_text)

text \<open>Every line inside a fence, and every fence line, is kept.\<close>

lemma sub_lines_fenced:
  "sub_lines wanted ls d = (rs, d') \<Longrightarrow> list_all2 (\<lambda>(l, out) r. out \<or> r = l) ls rs"
proof (induction ls arbitrary: d rs d')
  case (Cons x ls)
  obtain l out where x: "x = (l, out)" by (cases x)
  from Cons show ?case unfolding x by (auto split: prod.splits if_splits)
qed simp

text \<open>
  The downgrade reports each target once, only targets it was asked for, in the order first seen;
  asked for nothing it returns the body unchanged; and it works line by line, leaving every fence
  line and every line inside a fenced block untouched.
\<close>

lemma downgrade_links_scope:
  "distinct (snd (downgrade_links body targets))
    \<and> set (snd (downgrade_links body targets)) \<subseteq> set targets
    \<and> downgrade_links body [] = (body, [])
    \<and> (\<exists>rs. fst (downgrade_links body targets) = join [10] rs
        \<and> list_all2 (\<lambda>(l, out) r. out \<or> r = l) (zip (split_on 10 body) (outside None (split_on 10 body))) rs)"
proof -
  let ?ls = "zip (split_on 10 body) (outside None (split_on 10 body))"
  obtain rs d where r: "sub_lines targets ?ls [] = (rs, d)" by fastforce
  then have dg: "downgrade_links body targets = (join [10] rs, d)" by (simp add: downgrade_links_def Let_def)
  have "grows targets [] d" using grows_lines [of targets "[]" ?ls] r by simp
  then have "distinct d" "set d \<subseteq> set targets" by (simp_all add: grows_def)
  moreover have "downgrade_links body [] = (body, [])"
    by (simp add: downgrade_links_def Let_def sub_lines_nothing)
  ultimately show ?thesis using sub_lines_fenced [OF r] by (auto simp: dg)
qed

end
