(* ===== verification/Validator.thy ===== *)
theory Validator
  imports WriteTools SchemaMd Links
begin

text \<open>
  The write validator (\<^verbatim>\<open>src/groundtruth/ingest/validator.py\<close>), the gate between model output
  and the repository: the batch rules, then per note the rules in the order the code applies them,
  the first violation aborting the batch with an error that names the rule and the note.

  Shown: what an accepted batch guarantees about every note in it, and that a batch drafted by the
  write tools can never be rejected for a duplicate path, a collision or a missing target.
\<close>

definition write_stage :: string where
  "write_stage = ''write-validation''"

definition non_note_roots :: "pystr list" where
  "non_note_roots = map lit [''external'', ''.git'']"

definition rejection :: "string \<Rightarrow> pystr \<Rightarrow> message \<Rightarrow> exn" where
  "rejection rule p detail =
    \<lparr>ecls = ValidationRejectionError, emsg = [Lit rule, Lit '' check failed for '', Repr p, Lit '': ''] @ detail,
     estage = Some write_stage, eattr = RuleAttr rule p\<rparr>"

section \<open>Batch rules\<close>

definition batch_name :: pystr where
  "batch_name = lit ''<batch>''"

fun first_repeated :: "pystr list \<Rightarrow> pystr list \<Rightarrow> pystr option" where
  "first_repeated seen [] = None"
| "first_repeated seen (p # ps) = (if p \<in> set seen then Some p else first_repeated (p # seen) ps)"

definition check_batch :: "pending_note list \<Rightarrow> limits \<Rightarrow> unit res" where
  "check_batch ps lim =
    bindR (guardR (ps \<noteq> []) (rejection ''empty_batch'' batch_name
      [Lit ''an ingest must write at least one note''])) (\<lambda>_.
    bindR (guardR (int (length ps) \<le> max_notes_per_ingest lim) (rejection ''note_count'' batch_name
      [Num (int (length ps)), Lit '' notes touched, limit is '', Num (max_notes_per_ingest lim)])) (\<lambda>_.
    case first_repeated [] (pending_paths ps) of
      Some p \<Rightarrow> Inl (rejection ''duplicate_path'' p [Lit ''the same path is staged more than once''])
    | None \<Rightarrow> Inr ()))"

section \<open>The body\<close>

definition body_text :: "pending_note \<Rightarrow> pystr res" where
  "body_text n = (case pn_body n of JStr s \<Rightarrow> Inr s
     | _ \<Rightarrow> Inl (rejection ''body_type'' (pn_path n) [Lit ''body must be a string'']))"

definition no_letter :: re where          \<comment> \<open>\<open>[\W_]\<close>\<close>
  "no_letter = Cls False [CNotWord, Rng 95 95]"

definition a_letter :: re where           \<comment> \<open>\<open>[^\W_]\<close>\<close>
  "a_letter = Cls True [CNotWord, Rng 95 95]"

definition placeholder_words :: re where
  "placeholder_words = AltL
    [StrCi (lit ''placeholder''), SeqL [StrCi (lit ''to''), Opt (Chr 45), StrCi (lit ''do'')],
     StrCi (lit ''tbd''), StrCi (lit ''tba''), StrCi (lit ''wip''), StrCi (lit ''fixme''), StrCi (lit ''stub''),
     StrCi (lit ''coming soon''),
     Seq (StrCi (lit ''to be '')) (AltL (map (StrCi \<circ> lit) [''written'', ''added'', ''filled'', ''completed'', ''done'']))]"

definition placeholder_re :: re where
  "placeholder_re = SeqL [Bos, Star True no_letter, placeholder_words, Star True no_letter, Eos]"

definition bullet_re :: re where          \<comment> \<open>\<open>^[-*+]\s+\<close>\<close>
  "bullet_re = SeqL [Bos, Cls False [Rng 45 45, Rng 42 43], Plus (Cls False [CSpace])]"

definition link_markup :: re where        \<comment> \<open>\<open>\[\[[^\]]*\]\]\<close>\<close>
  "link_markup = SeqL [Str [91, 91], Star True (Cls True [Rng 93 93]), Str [93, 93]]"

definition prose_of :: "ucd \<Rightarrow> pystr \<Rightarrow> pystr" where
  "prose_of u body =
    strip (join [32] (map (re_sub (word_char u) bullet_re (\<lambda>_. []))
      (filter (\<lambda>l. l \<noteq> [] \<and> \<not> starts_with l [35]) (map strip (splitlines body)))))"

definition check_substance :: "ucd \<Rightarrow> pystr \<Rightarrow> pystr \<Rightarrow> unit res" where
  "check_substance u p body =
    (let w = word_char u; prose = prose_of u body in
     bindR (guardR (re_match w placeholder_re prose = None) (rejection ''note_substance'' p
       [Lit ''the note body is a placeholder ('', Repr prose, Lit '')''])) (\<lambda>_.
     guardR (re_search w a_letter (re_sub w link_markup (\<lambda>_. []) prose) \<noteq> None)
       (rejection ''note_substance'' p
         [Lit ''the note body has no content, only a heading or a link. Write the note in full or do not create it.''])))"

section \<open>The path\<close>

text \<open>\<open>except UnsafePathError\<close>: an unsafe path becomes a rejection under the given rule.\<close>

definition or_reject :: "string \<Rightarrow> pystr \<Rightarrow> 'a res \<Rightarrow> 'a res" where
  "or_reject rule p r = (case r of
     Inl e \<Rightarrow> Inl (if isinstance e UnsafePathError then rejection rule p (emsg e) else e) | Inr x \<Rightarrow> Inr x)"

definition check_containment :: "ucd \<Rightarrow> fs \<Rightarrow> path \<Rightarrow> pystr \<Rightarrow> unit res" where
  "check_containment u f root p =
    bindR (or_reject ''containment'' p (resolve_in_vault u f root [p])) (\<lambda>_. Inr ())"

definition check_path_shape :: "ucd \<Rightarrow> pystr \<Rightarrow> unit res" where
  "check_path_shape u p =
    (let name = last_field 47 p; first = first_field 47 p; stem = take (length name - 3) name in
     bindR (guardR (ends_with name (lit ''.md'')) (rejection ''path'' p [Lit ''note paths must end in .md''])) (\<lambda>_.
     bindR (guardR (name \<noteq> schema_filename) (rejection ''path'' p
       [Lit ''schema.md is never written by ingestion (invariant 1, ADR-12)''])) (\<lambda>_.
     bindR (guardR (\<not> (first \<in> set non_note_roots \<or> starts_with first [46] \<and> first \<noteq> p))
       (rejection ''path'' p [Repr first, Lit '' is not a writable location for a note''])) (\<lambda>_.
     bindR (or_reject ''filename'' p (sanitize_title u stem)) (\<lambda>safe.
     guardR (safe = stem) (rejection ''filename'' p
       [Lit ''filename stem '', Repr stem, Lit '' is not in sanitized form'']))))))"

definition check_existence :: "pending_note \<Rightarrow> pystr list \<Rightarrow> unit res" where
  "check_existence n existing =
    bindR (guardR (\<not> (pn_is_new n \<and> pn_path n \<in> set existing)) (rejection ''collision'' (pn_path n)
      [Lit ''create targets a note that already exists''])) (\<lambda>_.
    guardR (\<not> (\<not> pn_is_new n \<and> pn_path n \<notin> set existing)) (rejection ''missing_target'' (pn_path n)
      [Lit ''update targets a note that does not exist'']))"

definition expected_path :: "pystr \<Rightarrow> pystr \<Rightarrow> pystr" where
  "expected_path folder name =
    (if folder = [] then name else strip_by (\<lambda>c. c = 47) folder @ [47] @ name)"

definition check_create_derivation :: "ucd \<Rightarrow> pending_note \<Rightarrow> schema \<Rightarrow> unit res" where
  "check_create_derivation u n sch =
    (case (pn_folder n, pn_title n) of
       (Some folder, Some ttl) \<Rightarrow>
         bindR (guardR (folder \<in> set (folders sch)) (rejection ''folder'' (pn_path n)
           [Lit ''folder '', Repr folder, Lit '' is not declared in schema.md''])) (\<lambda>_.
         bindR (or_reject ''filename'' (pn_path n) (sanitize_title u ttl)) (\<lambda>stem.
         guardR (pn_path n = expected_path folder (stem @ lit ''.md'')) (rejection ''filename'' (pn_path n)
           [Lit ''path does not match folder/title (expected '', Repr (expected_path folder (stem @ lit ''.md'')), Lit '')''])))
     | _ \<Rightarrow> Inl (rejection ''filename'' (pn_path n) [Lit ''a create must carry both folder and title'']))"

section \<open>The frontmatter and the rendered note\<close>

definition bad_frontmatter :: "pending_note \<Rightarrow> message \<Rightarrow> exn" where
  "bad_frontmatter n m = rejection ''frontmatter'' (pn_path n) m"

definition or_bad :: "pending_note \<Rightarrow> frontmatter res \<Rightarrow> frontmatter res" where
  "or_bad n r = (case r of
     Inl e \<Rightarrow> Inl (if isinstance e PydanticValidationError
                   then bad_frontmatter n (Lit ''invalid frontmatter: '' # emsg e) else e)
   | Inr x \<Rightarrow> Inr x)"

fun coerce_mapping :: "yaml \<Rightarrow> pending_note \<Rightarrow> yval \<Rightarrow> frontmatter res" where
  "coerce_mapping y n (YMap d) = or_bad n (model_validate y d)"
| "coerce_mapping y n _ = Inl (bad_frontmatter n [Lit ''unusable frontmatter''])"

definition coerce_frontmatter :: "yaml \<Rightarrow> pending_note \<Rightarrow> frontmatter res" where
  "coerce_frontmatter y n =
    (case pn_frontmatter n of
       NoFm \<Rightarrow> Inl (bad_frontmatter n [Lit ''no frontmatter attached''])
     | Fm fm \<Rightarrow> or_bad n (validate_frontmatter fm)
     | FmMap d \<Rightarrow> coerce_mapping y n (YMap d)
     | FmText t \<Rightarrow>
         (case yload y t of
            Inl e \<Rightarrow> Inl (if isinstance e YAMLError
                          then bad_frontmatter n (Lit ''unparseable frontmatter YAML: '' # emsg e) else e)
          | Inr v \<Rightarrow> coerce_mapping y n v)
     | FmOther \<Rightarrow> Inl (bad_frontmatter n [Lit ''unusable frontmatter'']))"

definition check_note_size :: "yaml \<Rightarrow> pystr \<Rightarrow> pystr \<Rightarrow> frontmatter \<Rightarrow> limits \<Rightarrow> unit res" where
  "check_note_size y p body fm lim =
    bindR (utf8_encode (render_note y \<lparr>note_path = p, note_frontmatter = fm, note_body = body\<rparr>)) (\<lambda>bs.
    guardR (int (length bs) \<le> max_note_bytes lim) (rejection ''note_size'' p
      [Lit ''rendered note is '', Num (int (length bs)), Lit '' bytes, limit is '', Num (max_note_bytes lim)]))"

definition check_note_links :: "pystr \<Rightarrow> pystr \<Rightarrow> pystr list \<Rightarrow> pystr list \<Rightarrow> unit res" where
  "check_note_links p body existing now =
    (let dangling = check_links (extract_links body) existing now in
     guardR (dangling = []) (rejection ''link_integrity'' p
       [Lit ''dangling wikilink(s): '', Txt (join (lit '', '') (sort (uniq (map link_target dangling))))]))"

section \<open>The whole gate\<close>

record val_env =
  ve_ucd :: ucd
  ve_yaml :: yaml
  ve_fs :: fs
  ve_root :: path
  ve_schema :: schema
  ve_limits :: limits
  ve_existing :: "pystr list"

definition validate_note :: "val_env \<Rightarrow> pystr list \<Rightarrow> pending_note \<Rightarrow> unit res" where
  "validate_note v now n =
    bindR (body_text n) (\<lambda>body.
    bindR (check_substance (ve_ucd v) (pn_path n) body) (\<lambda>_.
    bindR (check_containment (ve_ucd v) (ve_fs v) (ve_root v) (pn_path n)) (\<lambda>_.
    bindR (check_path_shape (ve_ucd v) (pn_path n)) (\<lambda>_.
    bindR (check_existence n (ve_existing v)) (\<lambda>_.
    bindR (if pn_is_new n then check_create_derivation (ve_ucd v) n (ve_schema v) else Inr ()) (\<lambda>_.
    bindR (coerce_frontmatter (ve_yaml v) n) (\<lambda>fm.
    bindR (check_note_size (ve_yaml v) (pn_path n) body fm (ve_limits v)) (\<lambda>_.
    check_note_links (pn_path n) body (ve_existing v) now))))))))"

definition validate :: "val_env \<Rightarrow> pending_note list \<Rightarrow> unit res" where
  "validate v ps =
    bindR (check_batch ps (ve_limits v)) (\<lambda>_. forR (validate_note v (pending_paths ps)) ps)"

section \<open>What acceptance means\<close>

lemma first_repeated_None: "first_repeated seen ps = None \<longleftrightarrow> distinct ps \<and> set seen \<inter> set ps = {}"
  by (induction ps arbitrary: seen) auto

lemma check_batch_ok: "check_batch ps lim = Inr () \<longleftrightarrow>
    ps \<noteq> [] \<and> int (length ps) \<le> max_notes_per_ingest lim \<and> distinct (pending_paths ps)"
  using first_repeated_None [of "[]" "pending_paths ps"]
  by (cases "first_repeated [] (pending_paths ps)") (auto simp: check_batch_def)

lemma or_reject_ok [simp]: "or_reject rule p r = Inr x \<longleftrightarrow> r = Inr x"
  by (simp add: or_reject_def split: sum.split)

lemma body_text_ok: "body_text n = Inr b \<longleftrightarrow> pn_body n = JStr b"
  by (auto simp: body_text_def split: json.splits)

lemma check_containment_ok: "check_containment u f root p = Inr () \<longleftrightarrow> (\<exists>t. resolve_in_vault u f root [p] = Inr t)"
  by (auto simp: check_containment_def)

lemma check_path_shape_ok: "check_path_shape u p = Inr () \<longleftrightarrow>
    (\<exists>stem. last_field 47 p = stem @ lit ''.md'' \<and> last_field 47 p \<noteq> schema_filename \<and> sanitize_title u stem = Inr stem)
    \<and> first_field 47 p \<notin> set non_note_roots \<and> (starts_with (first_field 47 p) [46] \<longrightarrow> first_field 47 p = p)"
  by (auto simp: check_path_shape_def Let_def ends_with_iff)

lemma check_existence_ok: "check_existence n ex = Inr () \<longleftrightarrow> (pn_is_new n \<longleftrightarrow> pn_path n \<notin> set ex)"
  by (auto simp: check_existence_def)

lemma check_create_derivation_ok: "check_create_derivation u n sch = Inr () \<longleftrightarrow>
    (\<exists>folder ttl stem. pn_folder n = Some folder \<and> pn_title n = Some ttl \<and> folder \<in> set (folders sch)
      \<and> sanitize_title u ttl = Inr stem \<and> pn_path n = expected_path folder (stem @ lit ''.md''))"
  by (auto simp: check_create_derivation_def split: option.splits)

lemma or_bad_ok [simp]: "or_bad n r = Inr x \<longleftrightarrow> r = Inr x"
  by (simp add: or_bad_def split: sum.split)

lemma model_validate_ok: "model_validate y d = Inr fm \<Longrightarrow> frontmatter_ok fm"
  by (auto simp: model_validate_def Let_def validate_frontmatter_ok split: option.splits if_splits)

lemma coerce_mapping_ok: "coerce_mapping y n v = Inr fm \<Longrightarrow> frontmatter_ok fm"
  by (cases v) (auto dest: model_validate_ok)

lemma coerce_frontmatter_ok: "coerce_frontmatter y n = Inr fm \<Longrightarrow> frontmatter_ok fm"
  by (auto simp: coerce_frontmatter_def validate_frontmatter_ok simp del: coerce_mapping.simps
      dest: coerce_mapping_ok split: fm_value.splits sum.splits)

lemma check_note_links_ok: "check_note_links p body ex now = Inr () \<longleftrightarrow>
    list_all (\<lambda>l. link_target l \<in> set (link_index ex) \<union> set (link_index now)) (extract_links body)"
  by (auto simp: check_note_links_def Let_def check_links_def filter_empty_conv list_all_iff)

text \<open>The promise of an accepted note, in the terms of the vault it is written to.\<close>

definition acceptable :: "val_env \<Rightarrow> pystr list \<Rightarrow> pending_note \<Rightarrow> bool" where
  "acceptable v now n \<longleftrightarrow>
    (\<exists>body fm stem. pn_body n = JStr body \<and> frontmatter_ok fm
      \<and> re_search (word_char (ve_ucd v)) a_letter
            (re_sub (word_char (ve_ucd v)) link_markup (\<lambda>_. []) (prose_of (ve_ucd v) body)) \<noteq> None
      \<and> canonical (ve_fs v) (ve_root v @ split_on 47 (pn_path n))
      \<and> list_all (segment_ok (ve_ucd v)) (split_on 47 (pn_path n))
      \<and> last_field 47 (pn_path n) = stem @ lit ''.md'' \<and> sanitize_title (ve_ucd v) stem = Inr stem
      \<and> last_field 47 (pn_path n) \<noteq> schema_filename \<and> first_field 47 (pn_path n) \<noteq> lit ''external''
      \<and> (pn_is_new n \<longleftrightarrow> pn_path n \<notin> set (ve_existing v))
      \<and> (if pn_is_new n then list_ex (\<lambda>d. d = [] \<or> prefix (strip_by (\<lambda>c. c = 47) d @ [47]) (pn_path n))
            (folders (ve_schema v)) else True)
      \<and> int (length (enc (render_note (ve_yaml v)
            \<lparr>note_path = pn_path n, note_frontmatter = fm, note_body = body\<rparr>))) \<le> max_note_bytes (ve_limits v)
      \<and> list_all (\<lambda>l. link_target l \<in> set (link_index (ve_existing v)) \<union> set (link_index now)) (extract_links body))"


lemma expected_path_folder: "prefix (strip_by (\<lambda>c. c = 47) d @ [47]) (expected_path d name) \<or> d = []"
  by (simp add: expected_path_def)

lemma validate_note_ok:
  assumes root: "resolve (ve_fs v) (ve_root v) = Inr (ve_root v)" and ok: "validate_note v now n = Inr ()"
  shows "acceptable v now n"
proof -
  from ok obtain body fm t bs where b: "pn_body n = JStr body"
    and sub: "check_substance (ve_ucd v) (pn_path n) body = Inr ()"
    and t: "resolve_in_vault (ve_ucd v) (ve_fs v) (ve_root v) [pn_path n] = Inr t"
    and shape: "check_path_shape (ve_ucd v) (pn_path n) = Inr ()"
    and ex: "check_existence n (ve_existing v) = Inr ()"
    and new: "pn_is_new n \<Longrightarrow> check_create_derivation (ve_ucd v) n (ve_schema v) = Inr ()"
    and fm: "frontmatter_ok fm"
    and size: "check_note_size (ve_yaml v) (pn_path n) body fm (ve_limits v) = Inr ()"
    and links: "check_note_links (pn_path n) body (ve_existing v) now = Inr ()"
    by (auto simp: validate_note_def body_text_ok check_containment_ok dest!: coerce_frontmatter_ok split: if_splits)
  from t have p: "canonical (ve_fs v) (ve_root v @ split_on 47 (pn_path n))"
      "list_all (segment_ok (ve_ucd v)) (split_on 47 (pn_path n))"
    unfolding resolve_in_vault_iff [OF root] by (auto simp: segments_of_def part_ok_def)
  from size have sz: "int (length (enc (render_note (ve_yaml v)
      \<lparr>note_path = pn_path n, note_frontmatter = fm, note_body = body\<rparr>))) \<le> max_note_bytes (ve_limits v)"
    by (auto simp: check_note_size_def utf8_encode_def split: if_splits)
  have f: "list_ex (\<lambda>d. d = [] \<or> prefix (strip_by (\<lambda>c. c = 47) d @ [47]) (pn_path n)) (folders (ve_schema v))"
    if "pn_is_new n"
    using new [OF that] expected_path_folder unfolding check_create_derivation_ok list_ex_iff by metis
  from sub have l: "re_search (word_char (ve_ucd v)) a_letter
      (re_sub (word_char (ve_ucd v)) link_markup (\<lambda>_. []) (prose_of (ve_ucd v) body)) \<noteq> None"
    by (simp add: check_substance_def Let_def)
  obtain stem where "last_field 47 (pn_path n) = stem @ lit ''.md''" "sanitize_title (ve_ucd v) stem = Inr stem"
      "last_field 47 (pn_path n) \<noteq> schema_filename" "first_field 47 (pn_path n) \<notin> set non_note_roots"
    using shape unfolding check_path_shape_ok by blast
  with b fm p sz l f ex links show ?thesis
    unfolding acceptable_def check_existence_ok check_note_links_ok
    by (intro exI [of _ body] exI [of _ fm] exI [of _ stem]) (simp add: non_note_roots_def)
qed


section \<open>Batches drafted by the write tools\<close>

text \<open>Every exception a result can be satisfies \<open>P\<close>.\<close>

definition errs_in :: "(exn \<Rightarrow> bool) \<Rightarrow> 'a res \<Rightarrow> bool" where
  "errs_in P r = (case r of Inl e \<Rightarrow> P e | Inr _ \<Rightarrow> True)"

named_theorems errs_rules \<open>closure of \<open>errs_in\<close> under the combinators\<close>

lemma errs_simps [simp]: "errs_in P (Inl e) = P e" "errs_in P (Inr x)"
  by (simp_all add: errs_in_def)

lemma errs_bindR [errs_rules]: "errs_in P r \<Longrightarrow> (\<And>x. r = Inr x \<Longrightarrow> errs_in P (f x)) \<Longrightarrow> errs_in P (bindR r f)"
  by (cases r) auto

lemma errs_guardR [errs_rules]: "P e \<Longrightarrow> errs_in P (guardR b e)"
  by (simp add: guardR_def)

lemma errs_forR [errs_rules]: "(\<And>x. x \<in> set xs \<Longrightarrow> errs_in P (f x)) \<Longrightarrow> errs_in P (forR f xs)"
  by (induction xs) (auto intro: errs_bindR)

lemma errs_mapR [errs_rules]: "(\<And>x. errs_in P (f x)) \<Longrightarrow> errs_in P (mapR f xs)"
  by (induction xs) (auto intro!: errs_bindR)

lemma errs_utf8 [errs_rules]: "P (exc UnicodeError [Lit ''surrogates not allowed'']) \<Longrightarrow> errs_in P (utf8_encode s)"
  by (simp add: utf8_encode_def)

definition plain_error :: "exn \<Rightarrow> bool" where
  "plain_error e \<longleftrightarrow> eattr e = NoAttr"

lemma plain_exc [simp]: "plain_error (exc c m)" "plain_error (unsafe m)"
  by (simp_all add: plain_error_def unsafe_def exc_at_def)

lemma follow_plain: "errs_in plain_error (follow f n acc cs)"
proof (induction f n acc cs rule: follow.induct)
  case (2 f n acc c cs)
  then show ?case by (auto split: option.split node.split nat.split)
qed simp

lemma walk_plain: "errs_in plain_error (walk f cur ss)"
  by (induction ss arbitrary: cur) auto

lemma check_part_plain: "errs_in plain_error (check_part u p)"
  unfolding check_part_def Let_def char_check_def validate_segment_def
  by (intro errs_rules) (simp_all)

lemma resolve_in_vault_plain: "errs_in plain_error (resolve_in_vault u f root ps)"
  unfolding resolve_in_vault_def Let_def
  by (intro errs_rules follow_plain walk_plain check_part_plain)
    (auto simp: resolve_def follow_plain intro!: errs_rules split: sum.split)

lemma sanitize_title_plain: "errs_in plain_error (sanitize_title u t)"
  unfolding sanitize_title_def Let_def title_text_check_def char_check_def truncate_stem_def
  by (intro errs_rules) (auto intro!: errs_rules)

definition rejected_under :: "string list \<Rightarrow> exn \<Rightarrow> bool" where
  "rejected_under rules e = (case eattr e of RuleAttr rule _ \<Rightarrow> rule \<in> set rules | _ \<Rightarrow> False)"

lemma rejected_rejection [simp]: "rejected_under rules (rejection rule p m) \<longleftrightarrow> rule \<in> set rules"
  by (simp add: rejected_under_def rejection_def)

lemma rejected_plain: "plain_error e \<Longrightarrow> \<not> rejected_under rules e"
  by (simp add: rejected_under_def plain_error_def)

lemma errs_or_reject:
  "errs_in plain_error r \<Longrightarrow> rule \<notin> set rules \<Longrightarrow> errs_in (\<lambda>e. \<not> rejected_under rules e) (or_reject rule p r)"
  by (cases r) (auto simp: or_reject_def rejected_plain)

definition clash_rules :: "string list" where
  "clash_rules = [''duplicate_path'', ''collision'', ''missing_target'']"

lemma validate_note_no_clash:
  assumes "pn_is_new n \<longleftrightarrow> pn_path n \<notin> set (ve_existing v)" and "pn_frontmatter n = Fm fm"
  shows "errs_in (\<lambda>e. \<not> rejected_under clash_rules e) (validate_note v now n)"
proof -
  have fm: "errs_in (\<lambda>e. \<not> rejected_under clash_rules e) (coerce_frontmatter (ve_yaml v) n)"
    using assms(2) by (cases "validate_frontmatter fm")
      (auto simp: coerce_frontmatter_def or_bad_def bad_frontmatter_def clash_rules_def validate_frontmatter_def
        as_validation_error_def isinstance_def eval_nat_numeral split: sum.splits if_splits)
  have ex: "check_existence n (ve_existing v) = Inr ()" using assms(1) by (simp add: check_existence_ok)
  have utf: "\<not> rejected_under rules (exc c m)" for rules c m by (simp add: rejected_plain)
  show ?thesis
    unfolding validate_note_def ex bindR_simps(2) check_containment_def check_path_shape_def Let_def
      check_substance_def check_note_size_def check_note_links_def
    by (intro errs_rules fm errs_or_reject resolve_in_vault_plain sanitize_title_plain)
      (auto simp: clash_rules_def body_text_def check_create_derivation_def utf
        intro!: errs_rules errs_or_reject sanitize_title_plain split: json.splits option.splits)
qed

lemma check_batch_no_clash: "distinct (pending_paths ps) \<Longrightarrow>
    errs_in (\<lambda>e. \<not> rejected_under clash_rules e) (check_batch ps lim)"
  using first_repeated_None [of "[]" "pending_paths ps"]
  by (auto simp: check_batch_def clash_rules_def intro!: errs_rules split: option.splits)

text \<open>
  C33. Drafting and validation agree. Whatever the model calls during an organize run, and whatever
  frontmatter the pipeline then attaches, validating the staged batch against the same vault never
  fails for a path staged twice, a create at an existing note, or an update of a missing one: those
  rules can only fire on batches that were not drafted by the tools.
\<close>

theorem drafted_never_clash:
  "case run_agent (write_agent env model limit) role conv ([], m) of
     (_, (ps, _)) \<Rightarrow> errs_in (\<lambda>e. \<not> rejected_under clash_rules e)
       (validate (v\<lparr>ve_existing := we_existing env\<rparr>) (map (\<lambda>n. with_frontmatter (Fm (g n)) n) ps))"
proof -
  obtain r ps m' where r: "run_agent (write_agent env model limit) role conv ([], m) = (r, (ps, m'))"
    by (cases "run_agent (write_agent env model limit) role conv ([], m)") auto
  let ?v = "v\<lparr>ve_existing := we_existing env\<rparr>"
  let ?st = "\<lambda>n. with_frontmatter (Fm (g n)) n"
  have b: "batch_ok (we_existing env) ps" using loop_batch [OF r [unfolded run_agent_def]] by simp
  have p: "pending_paths (map ?st ps) = pending_paths ps"
    by (simp add: pending_paths_def with_frontmatter_def)
  have "errs_in (\<lambda>e. \<not> rejected_under clash_rules e) (validate ?v (map ?st ps))"
    unfolding validate_def
  proof (intro errs_rules)
    show "errs_in (\<lambda>e. \<not> rejected_under clash_rules e) (check_batch (map ?st ps) (ve_limits ?v))"
      using b p by (intro check_batch_no_clash) (simp add: batch_ok_def)
    fix n assume "n \<in> set (map ?st ps)"
    with b show "errs_in (\<lambda>e. \<not> rejected_under clash_rules e) (validate_note ?v (pending_paths (map ?st ps)) n)"
      by (auto simp: batch_ok_def list_all_iff staged_ok_def with_frontmatter_def intro!: validate_note_no_clash)
  qed
  then show ?thesis by (simp add: r)
qed

section \<open>An accepted batch\<close>

definition demo_limits :: limits where
  "demo_limits = \<lparr>max_notes_per_ingest = 10, max_note_bytes = 65536, max_tool_calls = 30, max_wall_clock_s = 60,
     grep_max_matches = 50, grep_max_bytes = 65536, read_max_bytes = 32768, vocab_max_bytes = 4096,
     organize_max_attempts = 2\<rparr>"

definition demo_val :: val_env where
  "demo_val = \<lparr>ve_ucd = ascii_ucd, ve_yaml = demo_yaml, ve_fs = demo_fs, ve_root = [lit ''v''],
     ve_schema = \<lparr>folders = [lit ''p''], tag_guidance = [], raw_schema = []\<rparr>, ve_limits = demo_limits,
     ve_existing = [lit ''a.md'']\<rparr>"

definition demo_batch :: "pending_note list" where
  "demo_batch = [\<lparr>pn_path = lit ''p/T.md'', pn_body = JStr (lit ''see [[a]]''), pn_is_new = True,
     pn_folder = Some (lit ''p''), pn_title = Some (lit ''T''),
     pn_frontmatter = Fm \<lparr>title = lit ''T'', tags = [lit ''x''], sources = [], created = 1, updated = 1\<rparr>\<rparr>]"

lemma demo_accepted: "validate demo_val demo_batch = Inr ()"
  by code_simp

lemma demo_val_root: "resolve (ve_fs demo_val) (ve_root demo_val) = Inr (ve_root demo_val)"
  by code_simp


end
