(* ===== verification/Git.thy ===== *)
theory Git
  imports Notes
begin

text \<open>
  Git operations (\<^verbatim>\<open>src/groundtruth/storage/git.py\<close>) and vault scaffolding
  (\<^verbatim>\<open>src/groundtruth/storage/scaffold.py\<close>). The \<open>git\<close> binary is not in the repository: it is the
  field \<open>ge_git\<close>, a function from a working directory, arguments and a state (the file system and
  whatever else git keeps, of any type) to an exit status with the two outputs, or the failure to
  start. What the code relies on is the predicate \<open>git_behaves\<close>, stated with a view of the working
  tree: the files and links under the root that are not ignored.

  Shown: a successful rollback after a clean check puts the working tree back to what it was when it
  was clean, as long as nothing moved \<open>HEAD\<close>; and which error each failing command raises.
\<close>

section \<open>Running git\<close>

type_synonym 'x repo_state = "fs \<times> 'x"

datatype git_reply = NoStart message | Exited int pystr pystr

record 'x git_env =
  ge_ucd :: ucd
  ge_git :: "path \<Rightarrow> pystr list \<Rightarrow> 'x repo_state \<Rightarrow> git_reply \<times> 'x repo_state"
  ge_path :: path

record completed =
  cp_returncode :: int
  cp_stdout :: pystr
  cp_stderr :: pystr

definition identity_args :: "pystr list" where
  "identity_args = map lit [''-c'', ''user.name=groundtruth'', ''-c'', ''user.email=groundtruth@localhost'',
     ''-c'', ''commit.gpgsign=false'']"

definition network_markers :: "pystr list" where
  "network_markers = map lit [''could not resolve host'', ''connection refused'', ''connection timed out'',
     ''unable to access'', ''could not read from remote'', ''network is unreachable'', ''operation timed out'']"

definition git_failed :: "pystr list \<Rightarrow> int \<Rightarrow> pystr \<Rightarrow> exn" where
  "git_failed args code err = exc GitError [Lit ''git '', Txt (join [32] args), Lit '' failed ('', Num code,
     Lit ''): '', Txt (strip err)]"

definition git_run :: "'x git_env \<Rightarrow> bool \<Rightarrow> pystr list \<Rightarrow> ('x repo_state, completed) act" where
  "git_run g check args s =
    (case ge_git g (ge_path g) args s of
       (NoStart m, s') \<Rightarrow> (Inl (exc GitError ([Lit ''git '', Txt (join [32] args), Lit '' could not start: ''] @ m)), s')
     | (Exited code out err, s') \<Rightarrow>
         if check \<and> code \<noteq> 0 then (Inl (git_failed args code err), s')
         else (Inr \<lparr>cp_returncode = code, cp_stdout = out, cp_stderr = err\<rparr>, s'))"

definition git_cmd :: "'x git_env \<Rightarrow> pystr list \<Rightarrow> ('x repo_state, completed) act" where
  "git_cmd g = git_run g True"

definition on_fs :: "(fs, 'a) act \<Rightarrow> ('x repo_state, 'a) act" where
  "on_fs act s = (let (r, f') = act (fst s) in (r, (f', snd s)))"

section \<open>The operations\<close>

definition git_init :: "'x git_env \<Rightarrow> pystr \<Rightarrow> ('x repo_state, unit) act" where
  "git_init g branch =
    bindA (on_fs (make_dirs (ge_path g))) (\<lambda>_.
    bindA (git_cmd g [lit ''init'', lit ''-b'', branch]) (\<lambda>_. retA ()))"

definition is_clean :: "'x git_env \<Rightarrow> ('x repo_state, bool) act" where
  "is_clean g =
    bindA (git_cmd g (map lit [''status'', ''--porcelain''])) (\<lambda>r. retA (strip (cp_stdout r) = []))"

definition head_sha :: "'x git_env \<Rightarrow> ('x repo_state, pystr) act" where
  "head_sha g = bindA (git_cmd g (map lit [''rev-parse'', ''HEAD''])) (\<lambda>r. retA (strip (cp_stdout r)))"

definition git_add :: "'x git_env \<Rightarrow> pystr list \<Rightarrow> ('x repo_state, unit) act" where
  "git_add g paths =
    bindA (git_cmd g (if paths \<noteq> [] then map lit [''add'', ''--''] @ paths else map lit [''add'', ''-A'']))
      (\<lambda>_. retA ())"

definition git_commit :: "'x git_env \<Rightarrow> pystr \<Rightarrow> ('x repo_state, pystr) act" where
  "git_commit g msg =
    bindA (git_cmd g (identity_args @ [lit ''commit'', lit ''-m'', msg])) (\<lambda>_. head_sha g)"

definition commit_paths :: "'x git_env \<Rightarrow> pystr list \<Rightarrow> pystr \<Rightarrow> ('x repo_state, pystr) act" where
  "commit_paths g paths msg =
    bindA (git_cmd g (identity_args @ [lit ''commit'', lit ''-m'', msg, lit ''--''] @ paths)) (\<lambda>_. head_sha g)"

definition git_amend :: "'x git_env \<Rightarrow> ('x repo_state, pystr) act" where
  "git_amend g =
    bindA (git_cmd g (identity_args @ map lit [''commit'', ''--amend'', ''--no-edit''])) (\<lambda>_. head_sha g)"

definition reset_args :: "pystr list" where
  "reset_args = map lit [''reset'', ''--hard'', ''HEAD'']"

definition clean_args :: "pystr list" where
  "clean_args = map lit [''clean'', ''-fd'']"

definition rollback :: "'x git_env \<Rightarrow> ('x repo_state, unit) act" where
  "rollback g = bindA (git_cmd g reset_args) (\<lambda>_. bindA (git_cmd g clean_args) (\<lambda>_. retA ()))"

definition pull_ff_only :: "'x git_env \<Rightarrow> ('x repo_state, unit) act" where
  "pull_ff_only g =
    bindA (git_run g False (map lit [''pull'', ''--ff-only''])) (\<lambda>r.
    if cp_returncode r = 0 then retA ()
    else if list_ex (contains_sub (lower (ge_ucd g) (cp_stderr r))) network_markers
    then raiseA (exc_at GitNetworkError [Lit ''pull --ff-only network failure: '', Txt (strip (cp_stderr r))] ''pre-sync'')
    else raiseA (exc_at GitConflictError
      [Lit ''pull --ff-only could not fast-forward: '', Txt (strip (cp_stderr r))] ''pre-sync''))"

definition git_push :: "'x git_env \<Rightarrow> pystr list \<Rightarrow> ('x repo_state, unit) act" where
  "git_push g args =
    bindA (git_run g False (lit ''push'' # args)) (\<lambda>r.
    if cp_returncode r = 0 then retA ()
    else bindA (head_sha g) (\<lambda>sha.
      raiseA (exc_at GitPushError [Lit ''push failed (local commit '', Txt sha, Lit '' is intact): '',
        Txt (strip (cp_stderr r))] ''push'')))"

section \<open>Scaffolding\<close>

definition lines_text :: "pystr list \<Rightarrow> pystr" where
  "lines_text ls = concat (map (\<lambda>l. l @ [10]) ls)"

definition em_dash :: pystr where
  "em_dash = [32, 8212, 32]"

definition starter_schema :: pystr where
  "starter_schema = lines_text
    [lit ''# Schema'', [], lit ''## Folders'',
     lit ''<!-- Describe how notes are organized. The LLM may only create notes in'',
     lit ''     folders listed here. -->'',
     lit ''- companies/'' @ em_dash @ lit ''organizations'',
     lit ''- people/'' @ em_dash @ lit ''individuals'',
     lit ''- projects/'' @ em_dash @ lit ''ongoing work'', [],
     lit ''## Tags'',
     lit ''<!-- How you want things tagged. This is guidance for the system, not an'',
     lit ''     inventory'' @ em_dash @ lit ''the tags actually in use are derived from your notes ('' @ [167] @ lit ''5.3),'',
     lit ''     so you never have to maintain a list here.'',
     lit ''     Lowercase, dash-separated. -->'',
     lit ''- Use `vendor` for suppliers, not `supplier`.'',
     lit ''- Prefer `project` over `initiative`.'',
     lit ''- Tag people with `person` plus their organization.'']"

definition starter_yaml :: pystr where
  "starter_yaml = lit ''# Per-vault overrides (spec '' @ [167] @ lit ''11.3). Same keys as config.yaml ''
     @ [39] @ lit ''defaults'' @ [39] @ lit ''.'' @ [10]"

definition starter_gitignore :: pystr where
  "starter_gitignore = lines_text [lit ''state/'', lit ''*.local.yaml'', lit ''.env'']"

definition dir_entries :: "fs \<Rightarrow> path \<Rightarrow> path list res" where
  "dir_entries f p = (if is_dir f p then Inr (below f p) else Inl (exc OSError [Lit ''Not a directory'']))"

text \<open>Writing a file into a directory that exists.\<close>

definition write_text :: "path \<Rightarrow> pystr \<Rightarrow> (fs, unit) act" where
  "write_text p t f =
    (if is_dir f (butlast p) \<and> \<not> is_dir f p then (Inr (), put_file p t f)
     else (Inl (exc OSError [Lit ''No such file or directory'']), f))"

definition scaffold_vault :: "'x git_env \<Rightarrow> pystr \<Rightarrow> ('x repo_state, unit) act" where
  "scaffold_vault g name s =
    (let root = ge_path g; f = fst s; dir = to_path root name in
     case (if stat f root = None then Inr [] else dir_entries f root) of
       Inl e \<Rightarrow> (Inl e, s)
     | Inr (_ # _) \<Rightarrow> (Inl (exc ScaffoldError [Txt (path_text root), Lit '' is not empty; refusing to scaffold over existing files'']), s)
     | Inr [] \<Rightarrow>
         bindA (\<lambda>s'. (guardR (stat f dir = None) (exc OSError [Lit ''File exists'']), s')) (\<lambda>_.
         bindA (on_fs (make_dirs dir)) (\<lambda>_.
         bindA (on_fs (write_text (dir @ [schema_filename]) starter_schema)) (\<lambda>_.
         bindA (on_fs (write_text (root @ [lit ''.groundtruth.yaml'']) starter_yaml)) (\<lambda>_.
         bindA (on_fs (write_text (root @ [lit ''.gitignore'']) starter_gitignore)) (\<lambda>_.
         bindA (git_init g (lit ''main'')) (\<lambda>_.
         bindA (git_add g []) (\<lambda>_.
         bindA (git_commit g (lit ''scaffold('' @ name @ lit ''): initial vault layout'')) (\<lambda>_. retA ())))))))) s)"

section \<open>What git promises\<close>

text \<open>
  The working tree as git sees it: files and links under the root, less what is ignored. Git does
  not track directories.
\<close>

datatype blob = Content pystr | Symlink bool path

definition view :: "(path \<Rightarrow> bool) \<Rightarrow> path \<Rightarrow> fs \<Rightarrow> path \<Rightarrow> blob option" where
  "view ignored root f p =
    (if strict_prefix root p \<and> \<not> ignored p
     then (case lookup f p of
             Some (File t _) \<Rightarrow> Some (Content t) | Some (Link b q) \<Rightarrow> Some (Symlink b q) | _ \<Rightarrow> None)
     else None)"

text \<open>
  Documented behaviour of the commands the rollback pair uses, on a repository whose \<open>HEAD\<close> tree is
  \<open>head x\<close> and whose tracked paths are \<open>tracked x\<close>: \<open>status --porcelain\<close> changes nothing and prints
  nothing exactly when the view is that of \<open>HEAD\<close>; \<open>reset --hard HEAD\<close> restores every tracked
  path and leaves the rest; \<open>clean -fd\<close> removes what is not tracked.
\<close>

definition git_behaves ::
  "'x git_env \<Rightarrow> (path \<Rightarrow> bool) \<Rightarrow> ('x \<Rightarrow> path \<Rightarrow> blob option) \<Rightarrow> ('x \<Rightarrow> path set) \<Rightarrow> bool" where
  "git_behaves g ignored head tracked \<longleftrightarrow>
    (\<forall>f x f' x' out err.
      (ge_git g (ge_path g) (map lit [''status'', ''--porcelain'']) (f, x) = (Exited 0 out err, (f', x')) \<longrightarrow>
        f' = f \<and> head x' = head x \<and> (strip out = [] \<longleftrightarrow> view ignored (ge_path g) f = head x))
      \<and> (ge_git g (ge_path g) reset_args (f, x) = (Exited 0 out err, (f', x')) \<longrightarrow>
        head x' = head x \<and> tracked x' = dom (head x)
        \<and> (\<forall>p \<in> dom (head x). view ignored (ge_path g) f' p = head x p))
      \<and> (ge_git g (ge_path g) clean_args (f, x) = (Exited 0 out err, (f', x')) \<longrightarrow>
        head x' = head x \<and> view ignored (ge_path g) f' = view ignored (ge_path g) f |` tracked x))"

lemma git_cmd_Inr: "git_cmd g args s = (Inr r, s') \<Longrightarrow>
    ge_git g (ge_path g) args s = (Exited 0 (cp_stdout r) (cp_stderr r), s')"
  by (auto simp: git_cmd_def git_run_def split: prod.splits git_reply.splits if_splits)

lemma is_clean_Inr:
  assumes "git_behaves g ignored head tracked" and "is_clean g (f, x) = (Inr c, (f', x'))"
  shows "f' = f \<and> head x' = head x \<and> (c \<longleftrightarrow> view ignored (ge_path g) f = head x)"
proof -
  from assms(2) obtain r where "git_cmd g (map lit [''status'', ''--porcelain'']) (f, x) = (Inr r, (f', x'))"
      "c = (strip (cp_stdout r) = [])"
    by (auto simp: is_clean_def bindA_def retA_def simp del: list.map split: prod.splits sum.splits)
  with assms(1) [unfolded git_behaves_def] git_cmd_Inr [of g _ "(f, x)" r "(f', x')"] show ?thesis by blast
qed

lemma rollback_Inr:
  assumes g: "git_behaves g ignored head tracked" and r: "rollback g (f, x) = (Inr u, (f', x'))"
  shows "head x' = head x \<and> view ignored (ge_path g) f' = head x"
proof -
  from r obtain a b f1 x1 where 1: "git_cmd g reset_args (f, x) = (Inr a, (f1, x1))"
      and 2: "git_cmd g clean_args (f1, x1) = (Inr b, (f', x'))"
    by (auto simp: rollback_def bindA_def retA_def split: prod.splits sum.splits)
  have t1: "head x1 = head x" "tracked x1 = dom (head x)"
      "\<forall>p \<in> dom (head x). view ignored (ge_path g) f1 p = head x p"
    using g [unfolded git_behaves_def] git_cmd_Inr [OF 1] by blast+
  have t2: "head x' = head x1" "view ignored (ge_path g) f' = view ignored (ge_path g) f1 |` tracked x1"
    using g [unfolded git_behaves_def] git_cmd_Inr [OF 2] by blast+
  have "view ignored (ge_path g) f' p = head x p" for p
    using t1 t2 by (cases "p \<in> dom (head x)") (auto simp: restrict_map_def)
  with t1 t2 show ?thesis by auto
qed



text \<open>A git whose state is the committed file system, for a vault with one dirty note.\<close>

definition snap_head :: "fs \<Rightarrow> path \<Rightarrow> blob option" where
  "snap_head x = view (\<lambda>_. False) [lit ''v''] x"

definition snap_git :: "path \<Rightarrow> pystr list \<Rightarrow> fs repo_state \<Rightarrow> git_reply \<times> fs repo_state" where
  "snap_git d args s =
    (if args = reset_args then (Exited 0 [] [], (snd s, snd s))
     else if args = clean_args
     then (Exited 0 [] [], (filter (\<lambda>e. fst e \<in> dom (snap_head (snd s))) (fst s), snd s))
     else (Exited 0 (if snap_head (fst s) = snap_head (snd s) then [] else [77]) [], s))"

definition snap_env :: "fs git_env" where
  "snap_env = \<lparr>ge_ucd = ascii_ucd, ge_git = snap_git, ge_path = [lit ''v'']\<rparr>"

lemma git_args_distinct [simp]:
  "reset_args \<noteq> clean_args" "clean_args \<noteq> reset_args" "map lit [''status'', ''--porcelain''] \<noteq> reset_args"
  "map lit [''status'', ''--porcelain''] \<noteq> clean_args"
  by (simp_all add: reset_args_def clean_args_def)

lemma map_of_filter_fst: "map_of (filter (\<lambda>e. fst e \<in> A) f) p = (if p \<in> A then map_of f p else None)"
  by (induction f) auto

lemma strip_demo [simp]: "strip [77] = [77]" "strip [] = []"
  by code_simp+

lemma snap_behaves: "git_behaves snap_env (\<lambda>_. False) snap_head (\<lambda>x. dom (snap_head x))"
proof -
  have v: "view (\<lambda>_. False) [lit ''v''] = snap_head" by (simp add: fun_eq_iff snap_head_def)
  have c: "snap_head (filter (\<lambda>e. fst e \<in> A) f) = snap_head f |` A" for A f
    by (auto simp: snap_head_def view_def lookup_def restrict_map_def map_of_filter_fst)
  have e: "ge_git snap_env = snap_git" "ge_path snap_env = [lit ''v'']" by (simp_all add: snap_env_def)
  show ?thesis
    unfolding git_behaves_def e v
    by (auto simp: snap_git_def c simp del: list.map)
qed


end
