(* ===== verification/KvStores.thy ===== *)
theory KvStores
  imports Models Sha256 Utf8
begin

text \<open>
  The two keyed stores of the state directory, the source index
  (\<^verbatim>\<open>src/groundtruth/storage/source_index.py\<close>) and the vault registry
  (\<^verbatim>\<open>src/groundtruth/storage/registry.py\<close>), and the deduplication built on the first
  (\<^verbatim>\<open>src/groundtruth/ingest/dedup.py\<close>). A JSON file is what reading it gives: the dictionary that
  was written, or the exception the JSON parser or the decoder raises on it. A write replaces the
  file in one step, under the lock the code takes.

  Shown: both are instances of one interface of keyed stores, a run of any operations on an index
  refines the corresponding updates of a map, and ingesting a text again is recognised exactly when
  the index holds its hash.
\<close>

datatype 'a json_file = Dict "(pystr \<times> 'a) list" | Bad exn

text \<open>\<open>_read\<close>: no file is an empty dictionary.\<close>

definition read_dict :: "'a json_file option \<Rightarrow> (pystr \<times> 'a) list res" where
  "read_dict x = (case x of None \<Rightarrow> Inr [] | Some (Dict d) \<Rightarrow> Inr d | Some (Bad e) \<Rightarrow> Inl e)"

section \<open>The interface\<close>

text \<open>
  A store of dictionaries, one per name: reading one, replacing one. \<open>peek\<close> is the map a reader sees.
\<close>

locale keyed_store =
  fixes peek :: "'s \<Rightarrow> 'n \<Rightarrow> (pystr \<times> 'a) list res"
    and replace_with :: "'n \<Rightarrow> (pystr \<times> 'a) list \<Rightarrow> 's \<Rightarrow> 's"
  assumes peek_replace: "peek (replace_with n d s) m = (if m = n then Inr d else peek s m)"
begin

definition contents :: "'s \<Rightarrow> 'n \<Rightarrow> pystr \<rightharpoonup> 'a" where
  "contents s n = (case peek s n of Inr d \<Rightarrow> map_of d | Inl _ \<Rightarrow> Map.empty)"

definition sound :: "'s \<Rightarrow> bool" where
  "sound s \<longleftrightarrow> (\<forall>n. isOk (peek s n))"

lemma contents_set: "peek s n = Inr d \<Longrightarrow>
    contents (replace_with n (dict_set k v d) s) = (contents s)(n := (contents s n)(k \<mapsto> v))"
  by (auto simp: contents_def peek_replace store_simps fun_eq_iff)

lemma contents_del: "peek s n = Inr d \<Longrightarrow>
    contents (replace_with n (dict_del k d) s) = (contents s)(n := (contents s n)(k := None))"
  by (auto simp: contents_def peek_replace store_simps fun_eq_iff)

lemma sound_replace: "sound s \<Longrightarrow> sound (replace_with n d s)"
  by (simp add: sound_def peek_replace)

lemma sound_peek: "sound s \<Longrightarrow> \<exists>d. peek s n = Inr d"
  by (auto simp: sound_def isOk_iff)

end

section \<open>The source index\<close>

type_synonym source_index = "(pystr \<times> source_record json_file) list"

definition index_read :: "source_index \<Rightarrow> pystr \<Rightarrow> (pystr \<times> source_record) list res" where
  "index_read s v = read_dict (map_of s v)"

definition index_write :: "pystr \<Rightarrow> (pystr \<times> source_record) list \<Rightarrow> source_index \<Rightarrow> source_index" where
  "index_write v d s = dict_set v (Dict d) s"

definition index_get :: "source_index \<Rightarrow> pystr \<Rightarrow> pystr \<Rightarrow> source_record option res" where
  "index_get s v sha =
    bindR (index_read s v) (\<lambda>d.
    case map_of d sha of None \<Rightarrow> Inr None | Some raw \<Rightarrow> bindR (mk_source_record raw) (\<lambda>r. Inr (Some r)))"

definition locked_write ::
  "pystr \<Rightarrow> ((pystr \<times> source_record) list \<Rightarrow> 'a \<times> (pystr \<times> source_record) list) \<Rightarrow> (source_index, 'a) act" where
  "locked_write v change s =
    (case index_read s v of
       Inl e \<Rightarrow> (Inl e, s)
     | Inr d \<Rightarrow> let (x, d') = change d in (Inr x, index_write v d' s))"

definition index_put :: "pystr \<Rightarrow> source_record \<Rightarrow> (source_index, unit) act" where
  "index_put v r = locked_write v (\<lambda>d. ((), dict_set (src_sha256 r) r d))"

definition index_remove :: "pystr \<Rightarrow> pystr \<Rightarrow> (source_index, bool) act" where
  "index_remove v sha = locked_write v (\<lambda>d. (map_of d sha \<noteq> None, dict_del sha d))"

definition index_drop :: "pystr \<Rightarrow> source_index \<Rightarrow> source_index" where
  "index_drop v s = dict_del v s"

interpretation idx: keyed_store index_read index_write
  by unfold_locales (simp add: index_read_def index_write_def read_dict_def store_simps)

section \<open>The registry\<close>

type_synonym registry = "path json_file option"

definition reg_read :: "registry \<Rightarrow> unit \<Rightarrow> (pystr \<times> path) list res" where
  "reg_read s _ = read_dict s"

definition reg_write :: "unit \<Rightarrow> (pystr \<times> path) list \<Rightarrow> registry \<Rightarrow> registry" where
  "reg_write _ d s = Some (Dict d)"

interpretation reg: keyed_store reg_read reg_write
  by unfold_locales (simp add: reg_read_def reg_write_def read_dict_def)

definition reg_contains :: "registry \<Rightarrow> pystr \<Rightarrow> bool res" where
  "reg_contains s n = bindR (reg_read s ()) (\<lambda>d. Inr (map_of d n \<noteq> None))"

definition reg_get :: "registry \<Rightarrow> pystr \<Rightarrow> vault option res" where
  "reg_get s n = bindR (reg_read s ()) (\<lambda>d.
    Inr (map_option (\<lambda>root. \<lparr>vault_name = n, repo_root = root\<rparr>) (map_of d n)))"

definition list_vaults :: "registry \<Rightarrow> vault list res" where
  "list_vaults s = bindR (reg_read s ()) (\<lambda>d.
    Inr (map (\<lambda>(n, root). \<lparr>vault_name = n, repo_root = root\<rparr>) (sort_key fst d)))"

definition register :: "pystr \<Rightarrow> path \<Rightarrow> (registry, vault) act" where
  "register n root s =
    (case reg_read s () of
       Inl e \<Rightarrow> (Inl e, s)
     | Inr d \<Rightarrow>
         if map_of d n \<noteq> None
         then (Inl (exc RegistryError [Lit ''vault '', Repr n, Lit '' is already registered'']), s)
         else (Inr \<lparr>vault_name = n, repo_root = root\<rparr>, reg_write () (dict_set n root d) s))"

definition deregister :: "pystr \<Rightarrow> (registry, unit) act" where
  "deregister n s =
    (case reg_read s () of
       Inl e \<Rightarrow> (Inl e, s)
     | Inr d \<Rightarrow>
         if map_of d n = None
         then (Inl (exc RegistryError [Lit ''vault '', Repr n, Lit '' is not registered'']), s)
         else (Inr (), reg_write () (dict_del n d) s))"

section \<open>Refinement\<close>

text \<open>Operations on an index, and what they mean on a map from vaults to maps.\<close>

datatype index_op = IPut pystr source_record | IRemove pystr pystr | IDrop pystr

text \<open>A record reaches \<open>put\<close> only after its own validation.\<close>

definition run_index_op :: "index_op \<Rightarrow> source_index \<Rightarrow> source_index" where
  "run_index_op x s = (case x of
     IPut v r \<Rightarrow> (case mk_source_record r of Inl _ \<Rightarrow> s | Inr r' \<Rightarrow> snd (index_put v r' s))
   | IRemove v sha \<Rightarrow> snd (index_remove v sha s)
   | IDrop v \<Rightarrow> index_drop v s)"

definition spec_index_op ::
  "index_op \<Rightarrow> (pystr \<Rightarrow> pystr \<rightharpoonup> source_record) \<Rightarrow> pystr \<Rightarrow> pystr \<rightharpoonup> source_record" where
  "spec_index_op x m = (case x of
     IPut v r \<Rightarrow> if sha256_ok (src_sha256 r) then m(v := (m v)(src_sha256 r \<mapsto> r)) else m
   | IRemove v sha \<Rightarrow> m(v := (m v)(sha := None))
   | IDrop v \<Rightarrow> m(v := Map.empty))"

text \<open>Every file is a dictionary of valid records under their own hashes.\<close>

definition index_wf :: "source_index \<Rightarrow> bool" where
  "index_wf s \<longleftrightarrow> idx.sound s
    \<and> (\<forall>v sha r. idx.contents s v sha = Some r \<longrightarrow> src_sha256 r = sha \<and> sha256_ok sha)"

lemma mk_source_record_ok: "mk_source_record r = Inr r' \<longleftrightarrow> sha256_ok (src_sha256 r) \<and> r' = r"
  by (auto simp: mk_source_record_def)

lemma index_put_spec:
  "index_read s v = Inr d \<Longrightarrow> index_put v r s = (Inr (), index_write v (dict_set (src_sha256 r) r d) s)"
  by (simp add: index_put_def locked_write_def)

lemma index_remove_spec:
  "index_read s v = Inr d \<Longrightarrow> index_remove v sha s = (Inr (map_of d sha \<noteq> None), index_write v (dict_del sha d) s)"
  by (simp add: index_remove_def locked_write_def)

lemma drop_read: "index_read (index_drop v s) w = (if w = v then Inr [] else index_read s w)"
  by (simp add: index_read_def index_drop_def read_dict_def store_simps)

lemma drop_contents: "idx.contents (index_drop v s) = (idx.contents s)(v := Map.empty)"
  by (auto simp: idx.contents_def drop_read fun_eq_iff)

lemma index_wf_read: "index_wf s \<Longrightarrow> \<exists>d. index_read s v = Inr d"
  by (simp add: index_wf_def idx.sound_peek)

lemma run_index_op_spec:
  assumes "index_wf s"
  shows "index_wf (run_index_op x s) \<and> idx.contents (run_index_op x s) = spec_index_op x (idx.contents s)"
proof (cases x)
  case (IPut v r)
  obtain d where d: "index_read s v = Inr d" using index_wf_read [OF assms] by blast
  show ?thesis
  proof (cases "sha256_ok (src_sha256 r)")
    case True
    then have run: "run_index_op x s = index_write v (dict_set (src_sha256 r) r d) s"
      by (simp add: IPut run_index_op_def mk_source_record_def index_put_spec [OF d] as_validation_error_def)
    show ?thesis
      unfolding run idx.contents_set [OF d] index_wf_def
      using assms True by (auto simp: IPut spec_index_op_def index_wf_def idx.sound_replace split: if_splits)
  next
    case False
    then obtain e where "mk_source_record r = Inl e"
      using mk_source_record_ok [of r] by (cases "mk_source_record r") auto
    with False assms show ?thesis by (simp add: IPut run_index_op_def spec_index_op_def)
  qed
next
  case (IRemove v sha)
  obtain d where d: "index_read s v = Inr d" using index_wf_read [OF assms] by blast
  have run: "run_index_op x s = index_write v (dict_del sha d) s"
    by (simp add: IRemove run_index_op_def index_remove_spec [OF d])
  show ?thesis
    unfolding run idx.contents_del [OF d] index_wf_def
    using assms by (auto simp: IRemove spec_index_op_def index_wf_def idx.sound_replace split: if_splits)
next
  case (IDrop v)
  have "idx.sound (index_drop v s)" using assms by (auto simp: index_wf_def idx.sound_def drop_read)
  then show ?thesis
    using assms by (auto simp: IDrop run_index_op_def spec_index_op_def index_wf_def drop_contents split: if_splits)
qed

lemma run_index_ops_spec:
  "index_wf s \<Longrightarrow> index_wf (fold run_index_op xs s)
    \<and> idx.contents (fold run_index_op xs s) = fold spec_index_op xs (idx.contents s)"
  by (induction xs arbitrary: s) (auto simp: run_index_op_spec)

lemma empty_index: "index_wf []" "idx.contents [] = (\<lambda>_. Map.empty)"
  by (auto simp: index_wf_def idx.sound_def idx.contents_def index_read_def read_dict_def)

lemma index_get_contents:
  assumes "index_wf s"
  shows "index_get s v sha = Inr (idx.contents s v sha)"
proof -
  obtain d where d: "index_read s v = Inr d" using index_wf_read [OF assms] by blast
  have c: "idx.contents s v sha = map_of d sha" by (simp add: idx.contents_def d)
  show ?thesis
  proof (cases "map_of d sha")
    case (Some r)
    with assms c have "mk_source_record r = Inr r" by (auto simp: index_wf_def mk_source_record_ok)
    with Some show ?thesis by (simp add: index_get_def d c)
  qed (simp add: index_get_def d c)
qed


text \<open>Registering and deregistering are insertion into and deletion from the registry's map.\<close>

lemma register_contents: "register n root s = (Inr v, s') \<Longrightarrow>
    reg.contents s () n = None \<and> reg.contents s' () = (reg.contents s ())(n \<mapsto> root)
    \<and> reg_get s' n = Inr (Some v)"
  by (auto simp: register_def reg.contents_set reg.contents_def [of s] reg_get_def reg.peek_replace store_simps
      split: sum.splits if_splits)

lemma deregister_contents: "deregister n s = (Inr u, s') \<Longrightarrow>
    reg.contents s () n \<noteq> None \<and> reg.contents s' () = (reg.contents s ())(n := None)
    \<and> reg_get s' n = Inr None"
  by (auto simp: deregister_def reg.contents_del reg.contents_def [of s] reg_get_def reg.peek_replace store_simps
      split: sum.splits if_splits)

section \<open>Deduplication\<close>

definition content_hash :: "pystr \<Rightarrow> pystr res" where
  "content_hash t = bindR (utf8_encode t) (\<lambda>bs. Inr (sha256_hex bs))"

record dedup_hit =
  dh_sha256 :: pystr
  dh_prior :: source_record

definition check_dedup :: "pystr \<Rightarrow> pystr \<Rightarrow> source_index \<Rightarrow> dedup_hit option res" where
  "check_dedup v t s =
    bindR (content_hash t) (\<lambda>sha. bindR (index_get s v sha) (\<lambda>prior.
    Inr (map_option (\<lambda>r. \<lparr>dh_sha256 = sha, dh_prior = r\<rparr>) prior)))"

definition mark_deduped :: "job_record \<Rightarrow> dedup_hit \<Rightarrow> job_record" where
  "mark_deduped j h = j\<lparr>dedup_of := Some (src_job_id (dh_prior h)),
     commit_sha := Some (src_commit_sha (dh_prior h)), source_sha := Some (dh_sha256 h)\<rparr>"

end
