(* ===== verification/Vocabulary.thy ===== *)
theory Vocabulary
  imports Git KvStores "HOL-Library.Product_Lexorder"
begin

text \<open>
  The derived tag vocabulary (\<^verbatim>\<open>src/groundtruth/ingest/vocabulary.py\<close>): counting the tags of the
  notes on disk, ranking them by frequency, cutting the list to a byte budget, and the cache keyed
  by the sha of \<open>HEAD\<close>. Warnings about unparsable notes are not modelled; the notes are skipped.

  Shown: the ranking lists every tag once with its number of occurrences, most frequent first; the
  cut keeps a prefix that fits the budget and says exactly how much it left out; and a second
  derivation at the same \<open>HEAD\<close> answers the same from the cache.
\<close>

record tag_count =
  tg_tag :: pystr
  tg_count :: int

record vocabulary =
  vo_tags :: "tag_count list"
  vo_total :: int
  vo_truncated :: bool
  vo_omitted :: int
  vo_from_cache :: bool

definition tag_line :: "tag_count \<Rightarrow> pystr" where
  "tag_line t = tg_tag t @ lit '' ('' @ str_int (tg_count t) @ lit '')''"

definition render_vocabulary :: "vocabulary \<Rightarrow> pystr" where
  "render_vocabulary v = join [10] (map tag_line (vo_tags v))
    @ (if vo_truncated v
       then [10] @ lit ''[... '' @ str_int (vo_omitted v) @ lit '' more tags omitted, vocabulary truncated]'' else [])"

section \<open>Counting and ranking\<close>

type_synonym counter = "(pystr \<times> int) list"

definition count_tag :: "pystr \<Rightarrow> counter \<Rightarrow> counter" where
  "count_tag t c = dict_set t (case map_of c t of Some n \<Rightarrow> n + 1 | None \<Rightarrow> 1) c"

definition count_tags :: "pystr list \<Rightarrow> counter \<Rightarrow> counter" where
  "count_tags ts c = fold count_tag ts c"

definition order_key :: "pystr \<times> int \<Rightarrow> int \<times> pystr" where
  "order_key x = (- snd x, fst x)"

definition rank :: "counter \<Rightarrow> tag_count list" where
  "rank c = map (\<lambda>(t, n). \<lparr>tg_tag = t, tg_count = n\<rparr>) (sort_key order_key c)"

fun scan_loop :: "note_env \<Rightarrow> path \<Rightarrow> fs \<Rightarrow> path list \<Rightarrow> counter \<Rightarrow> counter res" where
  "scan_loop env root f [] c = Inr c"
| "scan_loop env root f (p # ps) c =
    (if last p = schema_filename then scan_loop env root f ps c
     else case bindR (read_text f p) (\<lambda>t. parse_note (ne_yaml env) t (rel_path root p)) of
       Inl e \<Rightarrow> if isinstance e FrontmatterError then scan_loop env root f ps c else Inl e
     | Inr n \<Rightarrow> scan_loop env root f ps (count_tags (tags (note_frontmatter n)) c))"

definition scan_tags :: "note_env \<Rightarrow> path \<Rightarrow> fs \<Rightarrow> counter res" where
  "scan_tags env root f = scan_loop env root f (markdown_files f root) []"

section \<open>The byte budget\<close>

definition vocab_of :: "tag_count list \<Rightarrow> int \<Rightarrow> bool \<Rightarrow> int \<Rightarrow> vocabulary" where
  "vocab_of kept tot trunc omitted = \<lparr>vo_tags = kept, vo_total = tot, vo_truncated = trunc,
     vo_omitted = omitted, vo_from_cache = False\<rparr>"

fun budget_loop :: "int \<Rightarrow> int \<Rightarrow> tag_count list \<Rightarrow> int \<Rightarrow> tag_count list \<Rightarrow> vocabulary res" where
  "budget_loop tot mx kept used [] = Inr (vocab_of kept tot False 0)"
| "budget_loop tot mx kept used (t # ts) =
    bindR (utf8_encode (tag_line t)) (\<lambda>bs.
    let addition = int (length bs) + (if kept \<noteq> [] then 1 else 0) in
    if kept \<noteq> [] \<and> used + addition > mx then Inr (vocab_of kept tot True (int (length (t # ts))))
    else budget_loop tot mx (kept @ [t]) (used + addition) ts)"

definition vocab_budget :: "tag_count list \<Rightarrow> int \<Rightarrow> vocabulary res" where
  "vocab_budget ranked mx = budget_loop (int (length ranked)) mx [] 0 ranked"

section \<open>Derivation with the cache\<close>

datatype vocab_cache = Cached pystr "tag_count list" | BadCache exn

type_synonym 'x vocab_state = "'x repo_state \<times> (pystr \<times> vocab_cache) list"

definition derive_vocabulary ::
  "note_env \<Rightarrow> 'x git_env \<Rightarrow> vault \<Rightarrow> int \<Rightarrow> ('x vocab_state, vocabulary) act" where
  "derive_vocabulary env g v mx st =
    (case st of (r, cs) \<Rightarrow>
     case head_sha g r of
       (Inl e, r') \<Rightarrow> (Inl e, (r', cs))
     | (Inr head, r') \<Rightarrow>
        (case (case map_of cs (vault_name v) of
                 Some (BadCache e) \<Rightarrow> Inl e
               | Some (Cached h ts) \<Rightarrow> Inr (if h = head then Some ts else None)
               | None \<Rightarrow> Inr None) of
           Inl e \<Rightarrow> (Inl e, (r', cs))
         | Inr (Some ts) \<Rightarrow>
             (bindR (vocab_budget ts mx) (\<lambda>x. Inr (x\<lparr>vo_from_cache := True\<rparr>)), (r', cs))
         | Inr None \<Rightarrow>
            (case scan_tags env (vault_dir v) (fst r') of
               Inl e \<Rightarrow> (Inl e, (r', cs))
             | Inr c \<Rightarrow> (vocab_budget (rank c) mx,
                         (r', dict_set (vault_name v) (Cached head (rank c)) cs)))))"

section \<open>The ranking\<close>

lemma map_of_count_tag: "map_of (count_tag t c) x =
    (if x = t then Some ((case map_of c t of Some n \<Rightarrow> n | None \<Rightarrow> 0) + 1) else map_of c x)"
  by (simp add: count_tag_def store_simps split: option.split)

lemma map_of_count_tags: "map_of (count_tags ts c) x =
    (if x \<in> set ts then Some ((case map_of c x of Some n \<Rightarrow> n | None \<Rightarrow> 0) + int (count_list ts x))
     else map_of c x)"
proof (induction ts arbitrary: c)
  case (Cons t ts)
  show ?case
    using Cons [of "count_tag t c"]
    by (auto simp: count_tags_def map_of_count_tag count_list_0_iff split: option.split)
qed (simp add: count_tags_def)

lemma distinct_count_tags: "distinct (map fst c) \<Longrightarrow> distinct (map fst (count_tags ts c))"
  by (induction ts arbitrary: c) (simp_all add: count_tags_def count_tag_def distinct_dict_set)

text \<open>
  The ranked vocabulary. Ranking the tags counted from any list of tag occurrences lists every
  tag that occurs, once, with the number of its occurrences, ordered by falling count and, within a
  count, by name.
\<close>

lemma rank_counts:
  "set (rank (count_tags ts [])) = (\<lambda>t. \<lparr>tg_tag = t, tg_count = int (count_list ts t)\<rparr>) ` set ts
    \<and> distinct (map tg_tag (rank (count_tags ts [])))
    \<and> sorted (map (\<lambda>x. (- tg_count x, tg_tag x)) (rank (count_tags ts [])))"
proof (intro conjI)
  let ?c = "count_tags ts []"
  have d: "distinct (map fst ?c)" by (rule distinct_count_tags) simp
  have m: "map_of ?c x = (if x \<in> set ts then Some (int (count_list ts x)) else None)" for x
    by (simp add: map_of_count_tags)
  have "(x, n) \<in> set ?c \<longleftrightarrow> x \<in> set ts \<and> n = int (count_list ts x)" for x n
    using map_of_eq_Some_iff [OF d, of x n] m [of x] by (cases "x \<in> set ts") auto
  then have "set ?c = (\<lambda>t. (t, int (count_list ts t))) ` set ts" by (auto simp: image_iff)
  then show "set (rank ?c) = (\<lambda>t. \<lparr>tg_tag = t, tg_count = int (count_list ts t)\<rparr>) ` set ts"
    by (simp add: rank_def image_image)
  have t: "map tg_tag (rank ?c) = map fst (sort_key order_key ?c)"
    by (simp add: rank_def case_prod_beta comp_def)
  show "distinct (map tg_tag (rank ?c))" using d by (simp add: t distinct_map)
  have "map (\<lambda>x. (- tg_count x, tg_tag x)) (rank ?c) = map order_key (sort_key order_key ?c)"
    by (simp add: rank_def order_key_def case_prod_beta comp_def)
  then show "sorted (map (\<lambda>x. (- tg_count x, tg_tag x)) (rank ?c))" by simp
qed

section \<open>The cut\<close>

text \<open>The bytes the rendered lines take.\<close>

definition rendered_bytes :: "tag_count list \<Rightarrow> nat" where
  "rendered_bytes ts = length (enc (join [10] (map tag_line ts)))"

lemma rendered_snoc: "int (rendered_bytes (kept @ [t])) =
    int (rendered_bytes kept) + int (length (enc (tag_line t))) + (if kept \<noteq> [] then 1 else 0)"
proof -
  have "length (enc (join [10] (ls @ [l]))) =
      length (enc (join [10] ls)) + length (enc l) + (if ls \<noteq> [] then 1 else 0)" for l and ls :: "pystr list"
    by (induction "[10::int]" ls rule: join.induct) (auto simp: enc_def enc1_def)
  from this [of "map tag_line kept" "tag_line t"] show ?thesis by (simp add: rendered_bytes_def)
qed

lemma budget_loop_spec:
  assumes "list_all (\<lambda>t. list_all encodable (tag_line t)) ts"
    and "used = int (rendered_bytes kept)" and "length kept \<le> 1 \<or> used \<le> mx"
    and "tot = int (length kept) + int (length ts)"
  shows "\<exists>k \<le> length ts. budget_loop tot mx kept used ts
      = Inr (vocab_of (kept @ take k ts) tot (k < length ts) (int (length ts - k)))
    \<and> (length (kept @ take k ts) \<le> 1 \<or> int (rendered_bytes (kept @ take k ts)) \<le> mx)
    \<and> (k < length ts \<longrightarrow> mx < int (rendered_bytes (kept @ take (Suc k) ts)))"
  using assms
proof (induction ts arbitrary: kept used)
  case (Cons t ts)
  let ?add = "int (length (enc (tag_line t))) + (if kept \<noteq> [] then 1 else 0)"
  have u: "utf8_encode (tag_line t) = Inr (enc (tag_line t))" using Cons.prems(1) by (simp add: utf8_encode_def)
  show ?case
  proof (cases "kept \<noteq> [] \<and> used + ?add > mx")
    case True
    then show ?thesis
      using u Cons.prems rendered_snoc [of kept t] by (intro exI [of _ 0]) auto
  next
    case False
    have "\<exists>k \<le> length ts. budget_loop tot mx (kept @ [t]) (used + ?add) ts
        = Inr (vocab_of ((kept @ [t]) @ take k ts) tot (k < length ts) (int (length ts - k)))
      \<and> (length ((kept @ [t]) @ take k ts) \<le> 1 \<or> int (rendered_bytes ((kept @ [t]) @ take k ts)) \<le> mx)
      \<and> (k < length ts \<longrightarrow> mx < int (rendered_bytes ((kept @ [t]) @ take (Suc k) ts)))"
      using False Cons.prems rendered_snoc [of kept t] by (intro Cons.IH) auto
    then obtain k where k: "k \<le> length ts" "budget_loop tot mx (kept @ [t]) (used + ?add) ts
        = Inr (vocab_of ((kept @ [t]) @ take k ts) tot (k < length ts) (int (length ts - k)))"
      "length ((kept @ [t]) @ take k ts) \<le> 1 \<or> int (rendered_bytes ((kept @ [t]) @ take k ts)) \<le> mx"
      "k < length ts \<longrightarrow> mx < int (rendered_bytes ((kept @ [t]) @ take (Suc k) ts))" by blast
    from False have "budget_loop tot mx kept used (t # ts) = budget_loop tot mx (kept @ [t]) (used + ?add) ts"
      using u by (cases "kept = []") (simp_all add: Let_def)
    with k show ?thesis by (intro exI [of _ "Suc k"]) simp
  qed
qed simp

text \<open>
  The byte budget of the vocabulary. The kept tags are a prefix of the ranking that renders
  within the budget, or a single tag; the vocabulary is truncated exactly when something was left
  out, one more tag would not have fitted, and the number left out is reported.
\<close>

lemma vocab_budget_prefix:
  assumes "list_all (\<lambda>t. list_all encodable (tag_line t)) ranked"
  shows "\<exists>k. vocab_budget ranked mx
      = Inr (vocab_of (take k ranked) (int (length ranked)) (k < length ranked) (int (length ranked - k)))
    \<and> (if 1 < length (take k ranked) then int (rendered_bytes (take k ranked)) \<le> mx else True)
    \<and> (if k < length ranked then mx < int (rendered_bytes (take (Suc k) ranked)) else k = length ranked)"
proof -
  have p: "0 = int (rendered_bytes [])" by (simp add: rendered_bytes_def)
  have q: "length ([] :: tag_count list) \<le> 1 \<or> (0::int) \<le> mx" by simp
  have r: "int (length ranked) = int (length ([] :: tag_count list)) + int (length ranked)" by simp
  obtain k where k: "k \<le> length ranked" "budget_loop (int (length ranked)) mx [] 0 ranked
      = Inr (vocab_of ([] @ take k ranked) (int (length ranked)) (k < length ranked) (int (length ranked - k)))"
    "length ([] @ take k ranked) \<le> 1 \<or> int (rendered_bytes ([] @ take k ranked)) \<le> mx"
    "k < length ranked \<longrightarrow> mx < int (rendered_bytes ([] @ take (Suc k) ranked))"
    using budget_loop_spec [OF assms p q r] by blast
  then show ?thesis by (intro exI [of _ k]) (auto simp: vocab_budget_def)
qed

definition demo_ranked :: "tag_count list" where
  "demo_ranked = [\<lparr>tg_tag = lit ''a'', tg_count = 3\<rparr>, \<lparr>tg_tag = lit ''b'', tg_count = 2\<rparr>]"

lemma vocab_budget_prefix_witness:
  "\<exists>k. vocab_budget demo_ranked 8 = Inr (vocab_of (take k demo_ranked) (int (length demo_ranked))
      (k < length demo_ranked) (int (length demo_ranked - k)))
    \<and> (if 1 < length (take k demo_ranked) then int (rendered_bytes (take k demo_ranked)) \<le> 8 else True)
    \<and> (if k < length demo_ranked then 8 < int (rendered_bytes (take (Suc k) demo_ranked)) else k = length demo_ranked)"
proof (rule vocab_budget_prefix)
  show "list_all (\<lambda>t. list_all encodable (tag_line t)) demo_ranked" by code_simp
qed

section \<open>The cache\<close>

text \<open>
  The cache is coherent. When a derivation succeeded on a repository whose \<open>HEAD\<close> can be read
  without changing anything, deriving again at once gives the same vocabulary, this time from the
  cache, and leaves everything as it is.
\<close>

lemma derive_cached:
  assumes "\<And>r. head_sha g r = (Inr h, r)" and "derive_vocabulary env g v mx st = (Inr x, st')"
  shows "derive_vocabulary env g v mx st' = (Inr (x\<lparr>vo_from_cache := True\<rparr>), st')"
proof -
  obtain r cs where st: "st = (r, cs)" by fastforce
  show ?thesis
    using assms(2)
    by (auto simp: st derive_vocabulary_def assms(1) store_simps
        split: option.splits vocab_cache.splits sum.splits if_splits)
qed


definition demo_head_git :: "unit git_env" where
  "demo_head_git = \<lparr>ge_ucd = ascii_ucd, ge_git = (\<lambda>_ _ s. (Exited 0 (lit ''h'') [], s)), ge_path = []\<rparr>"

definition demo_v :: vault where
  "demo_v = \<lparr>vault_name = lit ''v'', repo_root = []\<rparr>"

definition demo_vocab :: vocabulary where
  "demo_vocab = vocab_of [\<lparr>tg_tag = lit ''x'', tg_count = 1\<rparr>] 1 False 0"

lemma demo_head: "head_sha demo_head_git r = (Inr (lit ''h''), r)"
proof -
  have "strip (lit ''h'') = lit ''h''" by code_simp
  then show ?thesis
    by (simp add: head_sha_def git_cmd_def git_run_def demo_head_git_def bindA_def retA_def)
qed

lemma demo_derive: "derive_vocabulary demo_env demo_head_git demo_v 100 ((demo_vault, ()), [])
    = (Inr demo_vocab, ((demo_vault, ()), [(lit ''v'', Cached (lit ''h'') (vo_tags demo_vocab))]))"
  by code_simp

lemma derive_cached_witness:
  "derive_vocabulary demo_env demo_head_git demo_v 100
      ((demo_vault, ()), [(lit ''v'', Cached (lit ''h'') (vo_tags demo_vocab))])
    = (Inr (demo_vocab\<lparr>vo_from_cache := True\<rparr>),
       ((demo_vault, ()), [(lit ''v'', Cached (lit ''h'') (vo_tags demo_vocab))]))"
  by (rule derive_cached [OF demo_head demo_derive])

end
