(* ===== verification/Prompts.thy ===== *)
theory Prompts
  imports Models Json
begin

text \<open>
  The prompts of the ingest roles and the parsers of the tag and reduce steps
  (\<^verbatim>\<open>src/groundtruth/ingest/prompts/__init__.py\<close>). The template files are data beside the module:
  reading one is the argument \<open>templates\<close>.

  Shown: what the tag parser accepts is exactly a list of lines that are normalized tags once
  cleaned, and it returns each of them once, in order of appearance.
\<close>

definition prompt_roles :: "pystr list" where
  "prompt_roles = map lit [''tag'', ''reduce'', ''organize'']"

definition load_template :: "(pystr \<Rightarrow> pystr res) \<Rightarrow> pystr \<Rightarrow> pystr res" where
  "load_template templates role =
    (if role \<notin> set prompt_roles
     then Inl (exc ValueError [Lit ''unknown prompt role '', Repr role, Lit ''; expected one of the roles''])
     else templates role)"

text \<open>\<open>key.upper()\<close>: keyword names are ASCII.\<close>

definition upper_key :: "string \<Rightarrow> pystr" where
  "upper_key k = map (\<lambda>c. if 97 \<le> c \<and> c \<le> 122 then c - 32 else c) (lit k)"

definition slot :: "string \<Rightarrow> pystr" where
  "slot k = [123, 123] @ upper_key k @ [125, 125]"

text \<open>A value comes from a model unchecked; \<open>str.replace\<close> takes a string only. The keys are filled in
  one after the other, so a placeholder inside a value is filled by a later key.\<close>

fun fill :: "(string \<times> json) list \<Rightarrow> pystr \<Rightarrow> pystr res" where
  "fill [] t = Inr t"
| "fill ((k, JStr v) # kvs) t = fill kvs (replace_all t (slot k) v)"
| "fill ((k, _) # kvs) t = Inl (exc TypeError [Lit ''replace() argument 2 must be str''])"

definition render_prompt :: "(pystr \<Rightarrow> pystr res) \<Rightarrow> pystr \<Rightarrow> (string \<times> json) list \<Rightarrow> pystr res" where
  "render_prompt templates role kvs = bindR (load_template templates role) (fill kvs)"

section \<open>Parsing what the model answers\<close>

definition clean_line :: "pystr \<Rightarrow> pystr" where
  "clean_line l = strip (strip_by (\<lambda>c. c = 96) (strip (lstrip_by (\<lambda>c. c = 45 \<or> c = 42) (strip l))))"

definition malformed_answer :: "message \<Rightarrow> exn" where
  "malformed_answer m = exc_at MalformedLLMOutputError m ''llm''"

text \<open>\<open>_NORMALIZED_TAG\<close> is the pattern of \<open>models/note.py\<close>.\<close>

fun tags_loop :: "pystr list \<Rightarrow> pystr list \<Rightarrow> pystr list res" where
  "tags_loop acc [] = Inr acc"
| "tags_loop acc (l # ls) =
    (let t = clean_line l in
     if t = [] then tags_loop acc ls
     else if \<not> tag_ok t
     then Inl (malformed_answer [Lit ''tag '', Repr t, Lit '' is not normalized (lowercase, hyphen-separated)''])
     else tags_loop (if t \<in> set acc then acc else acc @ [t]) ls)"

definition parse_tags :: "pystr \<Rightarrow> pystr list res" where
  "parse_tags raw =
    bindR (tags_loop [] (splitlines raw)) (\<lambda>ts.
    bindR (guardR (ts \<noteq> []) (malformed_answer [Lit ''tag step produced no tags''])) (\<lambda>_. Inr ts))"

definition parse_reduced_items :: "pystr \<Rightarrow> pystr list res" where
  "parse_reduced_items raw =
    (let items = filter (\<lambda>l. l \<noteq> []) (map clean_line (splitlines raw)) in
     bindR (guardR (items \<noteq> []) (malformed_answer [Lit ''reduce step produced no items''])) (\<lambda>_. Inr items))"

section \<open>What is accepted\<close>

definition candidates :: "pystr \<Rightarrow> pystr list" where
  "candidates raw = filter (\<lambda>l. l \<noteq> []) (map clean_line (splitlines raw))"

text \<open>A cleaned line ends in no white space, so the trailing newline that \<open>$\<close> tolerates is excluded.\<close>

lemma clean_line_tag: "clean_line l \<noteq> [] \<Longrightarrow> tag_ok (clean_line l) \<longleftrightarrow> normalized_tag (clean_line l)"
proof -
  assume ne: "clean_line l \<noteq> []"
  then have "\<not> is_space (last (clean_line l))"
    using strip_by_edges [of is_space] unfolding clean_line_def strip_def by blast
  then have "last (clean_line l) \<noteq> 10" by (auto simp: is_space_def)
  then have "clean_line l \<noteq> j @ [10]" for j by (metis last_snoc)
  then show ?thesis using tag_ok_iff [of "clean_line l"] by blast
qed

lemma uniq_acc_cong: "set s = set s' \<Longrightarrow> uniq_acc s xs = uniq_acc s' xs"
proof (induction xs arbitrary: s s')
  case (Cons x xs)
  from Cons.IH [OF Cons.prems] Cons.IH [of "x # s" "x # s'"] Cons.prems show ?case by simp
qed simp

lemma tags_loop_spec:
  "if list_all normalized_tag (filter (\<lambda>l. l \<noteq> []) (map clean_line ls))
   then tags_loop acc ls = Inr (acc @ uniq_acc acc (filter (\<lambda>l. l \<noteq> []) (map clean_line ls)))
   else \<exists>e. tags_loop acc ls = Inl e \<and> ecls e = MalformedLLMOutputError"
proof (induction ls arbitrary: acc)
  case (Cons l ls)
  let ?cs = "filter (\<lambda>l. l \<noteq> []) (map clean_line ls)"
  show ?case
  proof (cases "clean_line l = []")
    case True
    with Cons.IH [of acc] show ?thesis by simp
  next
    case False
    note tag = clean_line_tag [OF False]
    show ?thesis
    proof (cases "normalized_tag (clean_line l)")
      case True
      have "uniq_acc (clean_line l # acc) ?cs = uniq_acc (acc @ [clean_line l]) ?cs"
        by (rule uniq_acc_cong) simp
      with Cons.IH [of acc] Cons.IH [of "acc @ [clean_line l]"] True False show ?thesis
        by (auto simp: tag Let_def)
    qed (use False in \<open>auto simp: tag Let_def malformed_answer_def\<close>)
  qed
qed simp

text \<open>
  The tag parser coerces nothing. It answers when every non-empty line of the model's reply, once
  its bullet, quotes and blanks are removed, is a normalized tag, and there is at least one; then its
  answer is those tags, each once, in order of appearance. In every other case it rejects the reply
  as malformed. In particular no tag with the trailing newline that the pattern of the model class
  tolerates gets through.
\<close>

lemma parse_tags_accepts:
  "case parse_tags raw of
     Inr ts \<Rightarrow> candidates raw \<noteq> [] \<and> list_all normalized_tag (candidates raw) \<and> ts = uniq (candidates raw)
   | Inl e \<Rightarrow> ecls e = MalformedLLMOutputError
       \<and> \<not> (candidates raw \<noteq> [] \<and> list_all normalized_tag (candidates raw))"
proof (cases "list_all normalized_tag (candidates raw)")
  case True
  then have t: "tags_loop [] (splitlines raw) = Inr (uniq (candidates raw))"
    using tags_loop_spec [of "splitlines raw" "[]"] by (simp add: Let_def candidates_def uniq_def)
  have "uniq (candidates raw) = [] \<longleftrightarrow> candidates raw = []"
    by (metis set_empty set_uniq)
  with True show ?thesis
    by (cases "candidates raw = []") (simp_all add: parse_tags_def t malformed_answer_def)
next
  case False
  then obtain e where "tags_loop [] (splitlines raw) = Inl e" "ecls e = MalformedLLMOutputError"
    using tags_loop_spec [of "splitlines raw" "[]"] by (auto simp: Let_def candidates_def)
  with False show ?thesis by (simp add: parse_tags_def)
qed

text \<open>Tags that were parsed pass the frontmatter validator.\<close>

lemma parse_tags_ok: "parse_tags raw = Inr ts \<Longrightarrow> ts \<noteq> [] \<and> list_all tag_ok ts"
proof -
  assume p: "parse_tags raw = Inr ts"
  have "list_all normalized_tag (candidates raw) \<and> ts = uniq (candidates raw)"
  proof (cases "list_all normalized_tag (candidates raw)")
    case True
    with p tags_loop_spec [of "splitlines raw" "[]"] show ?thesis
      by (auto simp: Let_def candidates_def uniq_def parse_tags_def)
  next
    case False
    with p tags_loop_spec [of "splitlines raw" "[]"] show ?thesis
      by (auto simp: Let_def candidates_def parse_tags_def)
  qed
  then show ?thesis using p by (auto simp: list_all_iff tag_ok_iff parse_tags_def)
qed

end
