(* ===== verification/CommitMessage.thy ===== *)
theory CommitMessage
  imports Redaction Text
begin

text \<open>
  The commit message of an ingest (\<^verbatim>\<open>src/groundtruth/ingest/commit_message.py\<close>): action, vault, notes,
  tags, source hash, job, and a redacted excerpt of the source text.
\<close>

definition excerpt_max_chars :: nat where
  "excerpt_max_chars = 200"

definition join_names :: "pystr list \<Rightarrow> pystr" where
  "join_names = join (lit '', '')"

definition clipped :: "pystr \<Rightarrow> pystr" where
  "clipped excerpt = take excerpt_max_chars (join [32] (words excerpt))"

definition notes_line :: "pystr list \<Rightarrow> pystr list \<Rightarrow> pystr" where
  "notes_line new upd =
    (let parts = (if new \<noteq> [] then [lit ''created '' @ join_names new] else [])
               @ (if upd \<noteq> [] then [lit ''updated '' @ join_names upd] else [])
     in if parts \<noteq> [] then join [32, 183, 32] parts else lit ''none'')"

definition format_commit_message ::
  "ucd \<Rightarrow> pystr \<Rightarrow> pystr \<Rightarrow> pystr list \<Rightarrow> pystr list \<Rightarrow> pystr list \<Rightarrow> pystr \<Rightarrow> pystr \<Rightarrow> pystr \<Rightarrow> pystr" where
  "format_commit_message u vault subject new upd tgs sha jid excerpt =
    lit ''ingest('' @ vault @ lit ''): '' @ subject @ [10, 10]
    @ lit ''notes:   '' @ notes_line new upd @ [10]
    @ lit ''tags:    '' @ join_names tgs @ [10]
    @ lit ''source:  sha256:'' @ sha @ [10]
    @ lit ''job:     '' @ jid @ [10, 10]
    @ strip (redact u (clipped excerpt)) @ [10]"

end
