(* ===== verification/Archive.thy ===== *)
theory Archive
  imports Notes Json
begin

text \<open>
  The raw archive (\<^verbatim>\<open>src/groundtruth/ingest/archive.py\<close>): the ingested text and its manifest under
  \<open>external/\<close> of the repository. \<open>json.loads\<close> is an argument, as in theory \<open>Llm\<close>.

  Shown: writing an archive changes no file, directory or link that exists, so an archived text is
  immutable; and recording the commit afterwards changes nothing but the manifest.
\<close>

section \<open>Standard library\<close>

text \<open>\<open>date.isoformat()\<close> of a date given by its proleptic Gregorian ordinal (day 1 is 0001-01-01).\<close>

definition civil :: "date \<Rightarrow> int \<times> int \<times> int" where
  "civil n =
    (let z = n + 305; era = z div 146097; doe = z mod 146097;
         yoe = (doe - doe div 1460 + doe div 36524 - doe div 146096) div 365;
         doy = doe - (365 * yoe + yoe div 4 - yoe div 100);
         mp = (5 * doy + 2) div 153;
         d = doy - (153 * mp + 2) div 5 + 1;
         m = (if mp < 10 then mp + 3 else mp - 9)
     in (yoe + era * 400 + (if m \<le> 2 then 1 else 0), m, d))"

definition padded :: "nat \<Rightarrow> int \<Rightarrow> pystr" where
  "padded w i = (let t = str_int i in replicate (w - length t) 48 @ t)"

definition isoformat :: "date \<Rightarrow> pystr" where
  "isoformat n = (case civil n of (y, m, d) \<Rightarrow> padded 4 y @ [45] @ padded 2 m @ [45] @ padded 2 d)"

text \<open>\<open>json.dumps(j, indent=2)\<close>.\<close>

fun json_indented :: "nat \<Rightarrow> json \<Rightarrow> pystr" where
  "json_indented k (JArr xs) =
    (if xs = [] then [91, 93]
     else let nl = 10 # replicate (k + 2) 32 in
       [91] @ nl @ join ([44] @ nl) (map (json_indented (k + 2)) xs) @ [10] @ replicate k 32 @ [93])"
| "json_indented k (JObj d) =
    (if d = [] then [123, 125]
     else let nl = 10 # replicate (k + 2) 32 in
       [123] @ nl @ join ([44] @ nl) (map (\<lambda>(f, v). json_string f @ lit '': '' @ json_indented (k + 2) v) d)
         @ [10] @ replicate k 32 @ [125])"
| "json_indented k j = json_dumps j"

definition json_pretty :: "json \<Rightarrow> pystr" where
  "json_pretty = json_indented 0"

text \<open>\<open>Path.exists\<close> and \<open>Path.write_text\<close>: links are followed, a hard link stays one, and the file is
  opened before the text is encoded.\<close>

definition path_exists :: "fs \<Rightarrow> path \<Rightarrow> bool" where
  "path_exists f p \<longleftrightarrow> stat f p \<noteq> None"

definition put_text :: "path \<Rightarrow> pystr \<Rightarrow> fs \<Rightarrow> fs" where
  "put_text p t f = dict_set p (File t (case lookup f p of Some (File _ n) \<Rightarrow> n | _ \<Rightarrow> 1)) f"

definition save_text :: "path \<Rightarrow> pystr \<Rightarrow> (fs, unit) act" where
  "save_text p t f =
    (case resolve f p of
       Inl e \<Rightarrow> (Inl e, f)
     | Inr q \<Rightarrow>
         if q = [] \<or> lookup f q = Some Dir \<or> lookup f (butlast q) \<noteq> Some Dir
         then (Inl (exc OSError [Lit ''cannot open'']), f)
         else case utf8_encode t of
           Inl e \<Rightarrow> (Inl e, put_text q [] f)
         | Inr _ \<Rightarrow> (Inr (), put_text q t f))"

section \<open>The archive\<close>

record archive_result =
  text_path :: path
  manifest_path :: path

definition archive_dir :: "path \<Rightarrow> path" where
  "archive_dir root = root @ [lit ''external'']"

definition text_file :: "path \<Rightarrow> pystr \<Rightarrow> path" where
  "text_file root sha = archive_dir root @ [sha @ lit ''.txt'']"

definition manifest_file :: "path \<Rightarrow> pystr \<Rightarrow> path" where
  "manifest_file root sha = archive_dir root @ [sha @ lit ''.json'']"

definition manifest_of :: "pystr \<Rightarrow> pystr \<Rightarrow> pystr \<Rightarrow> date \<Rightarrow> pystr list \<Rightarrow> json" where
  "manifest_of sha label jid day touched = JObj
    [(lit ''hash'', JStr sha), (lit ''ingested_at'', JStr (isoformat day)), (lit ''source_label'', JStr label),
     (lit ''job_id'', JStr jid), (lit ''commit_sha'', JNull), (lit ''notes_touched'', JArr (map JStr touched))]"

text \<open>\<open>if not path.exists(): path.write_text(text)\<close>.\<close>

definition save_new :: "path \<Rightarrow> pystr \<Rightarrow> (fs, unit) act" where
  "save_new p t f = (if path_exists f p then (Inr (), f) else save_text p t f)"

definition write_archive ::
  "path \<Rightarrow> pystr \<Rightarrow> pystr \<Rightarrow> pystr \<Rightarrow> pystr \<Rightarrow> date \<Rightarrow> pystr list \<Rightarrow> bool \<Rightarrow> (fs, archive_result option) act" where
  "write_archive root sha text label jid day touched enabled =
    (if \<not> enabled then retA None
     else bindA (make_dirs (archive_dir root)) (\<lambda>_.
          bindA (save_new (text_file root sha) text) (\<lambda>_.
          bindA (save_new (manifest_file root sha) (json_pretty (manifest_of sha label jid day touched))) (\<lambda>_.
          retA (Some \<lparr>text_path = text_file root sha, manifest_path = manifest_file root sha\<rparr>)))))"

text \<open>\<open>manifest["commit_sha"] = commit_sha\<close> on whatever the file holds.\<close>

fun set_item :: "pystr \<Rightarrow> json \<Rightarrow> json \<Rightarrow> json res" where
  "set_item k v (JObj d) = Inr (JObj (dict_set k v d))"
| "set_item k v _ = Inl (exc TypeError [Lit ''object does not support item assignment''])"

definition set_commit_sha :: "(pystr \<Rightarrow> json option) \<Rightarrow> path \<Rightarrow> pystr \<Rightarrow> pystr \<Rightarrow> (fs, unit) act" where
  "set_commit_sha loads root sha commit f =
    (case bindR (read_text f (manifest_file root sha)) (\<lambda>t.
          bindR (case loads t of Some j \<Rightarrow> Inr j | None \<Rightarrow> Inl (exc JSONDecodeError [Lit ''Expecting value'']))
            (set_item (lit ''commit_sha'') (JStr commit))) of
       Inl e \<Rightarrow> (Inl e, f)
     | Inr j \<Rightarrow> save_text (manifest_file root sha) (json_pretty j) f)"

section \<open>Nothing that exists is changed\<close>

definition preserves :: "fs \<Rightarrow> fs \<Rightarrow> bool" where
  "preserves f g \<longleftrightarrow> (\<forall>q. lookup f q \<noteq> None \<longrightarrow> lookup g q = lookup f q)"

lemma preserves_refl [simp]: "preserves f f"
  by (simp add: preserves_def)

lemma preserves_trans: "preserves f g \<Longrightarrow> preserves g h \<Longrightarrow> preserves f h"
  by (simp add: preserves_def)

lemma preserves_make_dirs: "preserves f (snd (make_dirs p f))"
  by (simp add: preserves_def make_dirs_def path_simps)

lemma lookup_put_text: "p \<noteq> [] \<Longrightarrow> q \<noteq> p \<Longrightarrow> lookup (put_text p t f) q = lookup f q"
  by (simp add: lookup_def put_text_def store_simps)

lemma preserves_save_new: "preserves f (snd (save_new p t f))"
proof (cases "path_exists f p")
  case False
  show ?thesis
  proof (cases "resolve f p")
    case (Inr q)
    with False have "lookup f q = None" by (simp add: path_exists_def stat_def)
    then have "preserves f (put_text q x f)" if "q \<noteq> []" for x
      using lookup_put_text [OF that] unfolding preserves_def by metis
    with False Inr show ?thesis by (auto simp: save_new_def save_text_def split: sum.split)
  qed (use False in \<open>simp add: save_new_def save_text_def\<close>)
qed (simp add: save_new_def)

lemma preserves_bindA:
  assumes "preserves f (snd (m f))" and "\<And>x g. preserves g (snd (k x g))"
  shows "preserves f (snd (bindA m k f))"
  using assms preserves_trans unfolding bindA_def by (cases "m f") (auto split: sum.split)

lemma write_archive_preserves: "preserves f (snd (write_archive root sha text label jid day touched enabled f))"
  unfolding write_archive_def
  by (cases enabled) (auto intro!: preserves_bindA preserves_make_dirs preserves_save_new)

lemma save_text_other: "q \<noteq> p' \<Longrightarrow> resolve f p = Inr p' \<Longrightarrow> lookup (snd (save_text p t f)) q = lookup f q"
  by (auto simp: save_text_def lookup_put_text split: sum.split)

lemma set_commit_sha_other: "resolve f (manifest_file root sha) = Inr m \<Longrightarrow> q \<noteq> m \<Longrightarrow>
    lookup (snd (set_commit_sha loads root sha commit f)) q = lookup f q"
  by (auto simp: set_commit_sha_def save_text_other split: sum.split)

text \<open>
  C38. The archive is append-only. Whatever its arguments and whether or not it fails, writing an
  archive leaves every existing file, directory and link as it is, the archived text of the same
  hash included; and recording the commit sha touches no path but the one the manifest's resolves to.
\<close>

theorem archive_append_only:
  "(case lookup f q of Some n \<Rightarrow>
      lookup (snd (write_archive root sha text label jid day touched enabled f)) q = Some n | None \<Rightarrow> True)
   \<and> (if resolve f (manifest_file root sha) = Inr q then True
      else lookup (snd (set_commit_sha loads root sha commit f)) q = lookup f q)"
proof (intro conjI)
  show "case lookup f q of Some n \<Rightarrow>
      lookup (snd (write_archive root sha text label jid day touched enabled f)) q = Some n | None \<Rightarrow> True"
    using write_archive_preserves unfolding preserves_def by (auto split: option.split)
  show "if resolve f (manifest_file root sha) = Inr q then True
      else lookup (snd (set_commit_sha loads root sha commit f)) q = lookup f q"
  proof (cases "resolve f (manifest_file root sha)")
    case (Inl e)
    then have "set_commit_sha loads root sha commit f = (Inl (exc OSError [Lit ''cannot read'']), f)"
      by (simp add: set_commit_sha_def read_text_def stat_def)
    then show ?thesis by simp
  next
    case (Inr m)
    then show ?thesis using set_commit_sha_other [OF Inr] by auto
  qed
qed

end
