(* ===== verification/Config.thy ===== *)
theory Config
  imports Llm Budget Fs
begin

text \<open>
  Configuration (\<^verbatim>\<open>src/groundtruth/config\<close>): the precedence merge, the scan for literal secrets,
  the model roles, and loading of the global and of a vault's configuration. A YAML document is a
  value of the type of theory \<open>Json\<close> with text keys. PyYAML and the validation by pydantic are
  arguments.

  Shown: a merged configuration has the more specific value wherever that file sets a leaf and the
  more general one wherever it says nothing; and what the scan accepts, key by key: it does not look
  below a key that ends in \<open>_env\<close>.
\<close>

section \<open>Values\<close>

type_synonym mapping = "(pystr \<times> json) list"

record server_config =
  sv_bind :: pystr
  sv_port :: int
  sv_auth :: pystr
  sv_mcp_endpoint :: pystr
  sv_bearer_token_env :: "pystr option"

record global_config =
  gc_server :: server_config
  gc_state_dir :: pystr
  gc_job_retention_days :: int
  gc_vaults :: "(pystr \<times> pystr) list"
  gc_llm_logging :: bool
  gc_llm_timeout_s :: pystr                \<comment> \<open>a float, kept as its text\<close>

record vault_config =
  vc_raw_archive :: bool
  vc_auto_push :: bool
  vc_allow_schema_writes :: bool
  vc_models :: "(pystr \<times> model_config) list"
  vc_limits :: limits

definition entry :: "string \<Rightarrow> json \<Rightarrow> pystr \<times> json" where
  "entry k v = (lit k, v)"

definition builtin_defaults :: mapping where
  "builtin_defaults =
    [entry ''raw_archive'' (JBool True), entry ''auto_push'' (JBool False),
     entry ''allow_schema_writes'' (JBool False),
     entry ''models'' (JObj
       [entry ''default'' (JObj
          [entry ''base_url'' (JStr (lit ''http://localhost:11434/v1'')), entry ''model'' (JStr (lit ''qwen2.5:14b'')),
           entry ''api_key_env'' (JStr (lit ''GT_API_KEY''))]),
        entry ''tag'' (JObj [entry ''model'' (JStr (lit ''qwen2.5:7b''))]),
        entry ''reduce'' (JObj [entry ''model'' (JStr (lit ''qwen2.5:14b''))]),
        entry ''answer'' (JObj [entry ''model'' (JStr (lit ''qwen2.5:32b''))])]),
     entry ''limits'' (JObj
       [entry ''max_notes_per_ingest'' (JInt 10), entry ''max_note_bytes'' (JInt 65536),
        entry ''max_tool_calls'' (JInt 30), entry ''max_wall_clock_s'' (JInt 60),
        entry ''grep_max_matches'' (JInt 50), entry ''grep_max_bytes'' (JInt 65536),
        entry ''read_max_bytes'' (JInt 32768), entry ''vocab_max_bytes'' (JInt 4096),
        entry ''organize_max_attempts'' (JInt 2)])]"

section \<open>The merge\<close>

function deep_merge :: "mapping \<Rightarrow> mapping \<Rightarrow> mapping" where
  "deep_merge base [] = base"
| "deep_merge base ((k, v) # over) =
    deep_merge (dict_set k (case (map_of base k, v) of
        (Some (JObj b), JObj o') \<Rightarrow> JObj (deep_merge b o') | _ \<Rightarrow> v) base) over"
  by pat_completeness auto
termination
  by (relation "measure (\<lambda>(b, o'). size_list (size_prod (\<lambda>x. 0) size) o')") auto

section \<open>The scan for secrets\<close>

text \<open>\<open>(?i)(api[_-]?key|secret|password|passwd|token|credential)$\<close> and \<open>^[A-Za-z_][A-Za-z0-9_]*$\<close>.\<close>

definition secret_key_re :: re where
  "secret_key_re = Seq (Grp 1 (AltL
     [SeqL [StrCi (lit ''api''), Opt (Cls False [Rng 95 95, Rng 45 45]), StrCi (lit ''key'')],
      StrCi (lit ''secret''), StrCi (lit ''password''), StrCi (lit ''passwd''), StrCi (lit ''token''),
      StrCi (lit ''credential'')])) Eol"

definition env_name_re :: re where
  "env_name_re = SeqL [Bos, Cls False [Rng 65 90, Rng 97 122, Rng 95 95],
     Star True (Cls False [Rng 65 90, Rng 97 122, Rng 48 57, Rng 95 95]), Eol]"

definition secret_key :: "pystr \<Rightarrow> bool" where
  "secret_key k \<longleftrightarrow> re_search (\<lambda>_. False) secret_key_re k \<noteq> None"

definition env_name :: "pystr \<Rightarrow> bool" where
  "env_name s \<longleftrightarrow> re_match (\<lambda>_. False) env_name_re s \<noteq> None"

definition env_suffix :: "pystr \<Rightarrow> bool" where
  "env_suffix k \<longleftrightarrow> ends_with k (lit ''_env'')"

definition env_value_ok :: "json \<Rightarrow> bool" where
  "env_value_ok v = (case v of JStr s \<Rightarrow> env_name s | _ \<Rightarrow> True)"

definition full_key :: "pystr \<Rightarrow> pystr \<Rightarrow> pystr" where
  "full_key path k = (if path = [] then k else path @ [46] @ k)"

definition env_name_error :: "pystr \<Rightarrow> json \<Rightarrow> exn" where
  "env_name_error full v = exc ConfigError ([Txt full, Lit '': ''] @ (case v of JStr s \<Rightarrow> [Repr s] | _ \<Rightarrow> [])
     @ [Lit '' is not a valid environment variable name; config references secrets by env var name only''])"

definition secret_error :: "pystr \<Rightarrow> pystr \<Rightarrow> exn" where
  "secret_error full k = exc ConfigError [Txt full, Lit '': config must not contain a literal secret; use '',
     Txt k, Lit ''_env naming an environment variable instead'']"

function scan_secrets :: "pystr \<Rightarrow> json \<Rightarrow> unit res"
  and scan_items :: "pystr \<Rightarrow> mapping \<Rightarrow> unit res"
  and scan_list :: "pystr \<Rightarrow> nat \<Rightarrow> json list \<Rightarrow> unit res" where
  "scan_secrets path (JObj d) = scan_items path d"
| "scan_secrets path (JArr xs) = scan_list path 0 xs"
| "scan_secrets path JNull = Inr ()"
| "scan_secrets path (JBool b) = Inr ()"
| "scan_secrets path (JInt i) = Inr ()"
| "scan_secrets path (JFloat t n) = Inr ()"
| "scan_secrets path (JStr s) = Inr ()"
| "scan_items path [] = Inr ()"
| "scan_items path ((k, v) # kvs) =
    (let full = full_key path k in
     bindR (if env_suffix k then guardR (env_value_ok v) (env_name_error full v)
            else if secret_key k then Inl (secret_error full k)
            else scan_secrets full v) (\<lambda>_. scan_items path kvs))"
| "scan_list path i [] = Inr ()"
| "scan_list path i (x # xs) =
    bindR (scan_secrets (path @ [91] @ nat_digits i @ [93]) x) (\<lambda>_. scan_list path (Suc i) xs)"
  by pat_completeness auto
termination
  by (relation "measure (\<lambda>x. case x of Inl (_, j) \<Rightarrow> 2 * size j
        | Inr (Inl (_, d)) \<Rightarrow> Suc (2 * size_list (size_prod (\<lambda>x. 0) size) d)
        | Inr (Inr (_, _, xs)) \<Rightarrow> Suc (2 * size_list size xs))") auto

section \<open>Files\<close>

text \<open>
  \<open>cf_yaml\<close> is \<open>yaml.safe_load\<close>, \<open>cf_vault_model\<close> and \<open>cf_global_model\<close> are pydantic's
  \<open>model_validate\<close> of the two classes; each may raise.
\<close>

record config_env =
  cf_fs :: fs
  cf_cwd :: path
  cf_environ :: "(pystr \<times> pystr) list"
  cf_cli :: "pystr option"
  cf_yaml :: "pystr \<Rightarrow> json res"
  cf_vault_model :: "mapping \<Rightarrow> vault_config res"
  cf_global_model :: "mapping \<Rightarrow> global_config res"

definition default_global_path :: path where
  "default_global_path = [lit ''etc'', lit ''groundtruth'', lit ''config.yaml'']"

definition resolve_global_config_path :: "config_env \<Rightarrow> path" where
  "resolve_global_config_path c =
    (case cf_cli c of
       Some p \<Rightarrow> to_path (cf_cwd c) p
     | None \<Rightarrow>
         (case map_of (cf_environ c) (lit ''GT_CONFIG'') of
            Some p \<Rightarrow> if p \<noteq> [] then to_path (cf_cwd c) p else default_global_path
          | None \<Rightarrow> default_global_path))"

definition load_yaml_mapping :: "config_env \<Rightarrow> path \<Rightarrow> mapping res" where
  "load_yaml_mapping c p =
    (if stat (cf_fs c) p = None then Inr []
     else bindR (read_text (cf_fs c) p) (\<lambda>text.
     bindR (cf_yaml c text) (\<lambda>loaded.
     case loaded of JNull \<Rightarrow> Inr [] | JObj d \<Rightarrow> Inr d
     | _ \<Rightarrow> Inl (exc ConfigError [Txt (path_text p), Lit '': expected a YAML mapping at the top level'']))))"

definition load_global_config :: "config_env \<Rightarrow> global_config res" where
  "load_global_config c =
    (let p = resolve_global_config_path c in
     bindR (load_yaml_mapping c p) (\<lambda>data.
     bindR (scan_secrets [] (JObj data)) (\<lambda>_.
     bindR (guardR (map_of data (lit ''state_dir'') \<noteq> None)
       (exc ConfigError [Txt (path_text p), Lit '': 'state_dir' is required''])) (\<lambda>_.
     cf_global_model c data))))"

section \<open>The model roles\<close>

text \<open>\<open>dict(j)\<close>: a mapping, or an iterable of pairs with text keys.\<close>

definition pair_of :: "json \<Rightarrow> (pystr \<times> json) res" where
  "pair_of j = bindR (elements j) (\<lambda>xs.
     case xs of [JStr k, v] \<Rightarrow> Inr (k, v)
     | [_, _] \<Rightarrow> Inl (exc TypeError [Lit ''keys are text''])
     | _ \<Rightarrow> Inl (exc ValueError [Lit ''dictionary update sequence element has wrong length'']))"

definition to_dict :: "json \<Rightarrow> mapping res" where
  "to_dict j = (case j of
     JObj d \<Rightarrow> Inr d
   | _ \<Rightarrow> bindR (elements j) (\<lambda>xs. bindR (mapR pair_of xs) (\<lambda>kvs.
            Inr (foldl (\<lambda>d (k, v). dict_set k v d) [] kvs))))"

text \<open>\<open>{**a, **b}\<close>; the operand of \<open>**\<close> must be a mapping.\<close>

definition overlay :: "mapping \<Rightarrow> mapping \<Rightarrow> mapping" where
  "overlay a b = foldl (\<lambda>d (k, v). dict_set k v d) a b"

definition splat :: "json \<Rightarrow> mapping res" where
  "splat j = (case j of JObj d \<Rightarrow> Inr d | _ \<Rightarrow> Inl (exc TypeError [Lit ''object is not a mapping'']))"

definition value_or_empty :: "pystr \<Rightarrow> mapping \<Rightarrow> json" where
  "value_or_empty k d = (case map_of d k of Some v \<Rightarrow> or_else v (JObj []) | None \<Rightarrow> JObj [])"

definition params_key :: pystr where
  "params_key = lit ''params''"

definition resolve_role :: "mapping \<Rightarrow> mapping \<Rightarrow> pystr \<Rightarrow> json \<Rightarrow> json res" where
  "resolve_role dflt dflt_params role spec =
    (let sd = (case spec of JObj d \<Rightarrow> d | _ \<Rightarrow> []) in
     if role = lit ''default'' then Inr (JObj sd)
     else bindR (splat (value_or_empty params_key sd)) (\<lambda>ps.
       let merged = overlay dflt sd; role_params = overlay dflt_params ps in
       Inr (JObj (if role_params \<noteq> [] then dict_set params_key (JObj role_params) merged else merged))))"

definition resolve_model_roles :: "json \<Rightarrow> mapping res" where
  "resolve_model_roles models =
    bindR (get_key (lit ''default'') (JObj []) models) (\<lambda>dj.
    bindR (to_dict dj) (\<lambda>dflt.
    bindR (to_dict (value_or_empty params_key dflt)) (\<lambda>dflt_params.
    bindR (splat models) (\<lambda>ms.
    mapR (\<lambda>(role, spec). bindR (resolve_role dflt dflt_params role spec) (\<lambda>r. Inr (role, r))) ms))))"

section \<open>A vault's configuration\<close>

definition merged_config :: "mapping \<Rightarrow> mapping \<Rightarrow> mapping" where
  "merged_config g v = deep_merge (deep_merge builtin_defaults g) v"

definition not_registered :: "pystr \<Rightarrow> path \<Rightarrow> exn" where
  "not_registered vault p = exc ConfigError [Lit ''vault '', Repr vault, Lit '' is not registered in '',
     Txt (path_text p), Lit ''; pass repo_root explicitly if there is no global config'']"

definition vault_root :: "config_env \<Rightarrow> mapping \<Rightarrow> pystr \<Rightarrow> path res" where
  "vault_root c g vault =
    (let p = resolve_global_config_path c in
     case value_or_empty (lit ''vaults'') g of
       JObj reg \<Rightarrow>
         (case map_of reg vault of
            None \<Rightarrow> Inl (not_registered vault p)
          | Some (JStr r) \<Rightarrow> Inr (to_path (cf_cwd c) r)
          | Some _ \<Rightarrow> Inl (exc TypeError [Lit ''argument should be a str or an os.PathLike object'']))
     | _ \<Rightarrow> Inl (not_registered vault p))"

definition defaults_of :: "path \<Rightarrow> mapping \<Rightarrow> mapping res" where
  "defaults_of p g = (case value_or_empty (lit ''defaults'') g of
     JObj d \<Rightarrow> Inr d
   | _ \<Rightarrow> Inl (exc ConfigError [Txt (path_text p), Lit '': 'defaults' must be a mapping'']))"

definition repo_of :: "config_env \<Rightarrow> mapping \<Rightarrow> pystr \<Rightarrow> path option \<Rightarrow> path res" where
  "repo_of c g vault given_root =
    (case given_root of Some r \<Rightarrow> Inr r | None \<Rightarrow> vault_root c g vault)"

definition load_vault_config :: "config_env \<Rightarrow> pystr \<Rightarrow> path option \<Rightarrow> vault_config res" where
  "load_vault_config c vault given_root =
    (let p = resolve_global_config_path c in
     bindR (load_yaml_mapping c p) (\<lambda>g.
     bindR (scan_secrets [] (JObj g)) (\<lambda>_.
     bindR (defaults_of p g) (\<lambda>global_defaults.
     bindR (repo_of c g vault given_root) (\<lambda>root.
     bindR (load_yaml_mapping c (root @ [lit ''.groundtruth.yaml''])) (\<lambda>vault_data.
     bindR (scan_secrets [] (JObj vault_data)) (\<lambda>_.
     let merged = merged_config global_defaults vault_data in
     bindR (resolve_model_roles (value_or_empty (lit ''models'') merged)) (\<lambda>roles.
     cf_vault_model c (dict_set (lit ''models'') (JObj roles) merged)))))))))"

section \<open>Precedence\<close>

text \<open>The leaf a document has at a path of keys, and whether it says nothing about that path: it
  stops at a key that is missing from a mapping.\<close>

fun leaf_at :: "pystr list \<Rightarrow> mapping \<Rightarrow> json option" where
  "leaf_at [] d = None"
| "leaf_at (k # ks) d = (case map_of d k of
     None \<Rightarrow> None
   | Some (JObj d') \<Rightarrow> leaf_at ks d'
   | Some v \<Rightarrow> if ks = [] then Some v else None)"

fun silent :: "pystr list \<Rightarrow> mapping \<Rightarrow> bool" where
  "silent [] d = False"
| "silent (k # ks) d = (case map_of d k of
     None \<Rightarrow> True
   | Some (JObj d') \<Rightarrow> silent ks d'
   | Some v \<Rightarrow> False)"

text \<open>No mapping of the document has a key twice, as in a Python \<open>dict\<close>.\<close>

fun wf_json :: "json \<Rightarrow> bool" where
  "wf_json (JObj d) = (distinct (map fst d) \<and> list_all (\<lambda>(k, v). wf_json v) d)"
| "wf_json _ = True"

definition merge_value :: "json option \<Rightarrow> json \<Rightarrow> json" where
  "merge_value old v = (case (old, v) of (Some (JObj b), JObj o') \<Rightarrow> JObj (deep_merge b o') | _ \<Rightarrow> v)"

lemma deep_merge_Cons:
  "deep_merge base ((k, v) # over) = deep_merge (dict_set k (merge_value (map_of base k) v) base) over"
  by (simp add: merge_value_def)

declare deep_merge.simps(2) [simp del]

lemma map_of_deep_merge:
  "distinct (map fst over) \<Longrightarrow> map_of (deep_merge base over) k =
    (case map_of over k of None \<Rightarrow> map_of base k | Some v \<Rightarrow> Some (merge_value (map_of base k) v))"
proof (induction over arbitrary: base)
  case Nil
  then show ?case by simp
next
  case (Cons kv over)
  obtain k' v where kv: "kv = (k', v)" by (cases kv)
  have "k' \<notin> fst ` set over" "distinct (map fst over)" using Cons.prems kv by auto
  then have "map_of over k' = None" "distinct (map fst over)" by (simp_all add: map_of_eq_None_iff)
  then show ?case
    by (auto simp: kv deep_merge_Cons Cons.IH store_simps split: option.splits)
qed

lemma wf_json_value: "wf_json (JObj d) \<Longrightarrow> map_of d k = Some v \<Longrightarrow> wf_json v"
  by (auto simp: list_all_iff dest!: map_of_SomeD)

lemma leaf_at_merge:
  "wf_json (JObj over) \<Longrightarrow>
    leaf_at ks (deep_merge base over) = (if silent ks over then leaf_at ks base else leaf_at ks over)"
proof (induction ks arbitrary: base over)
  case Nil
  then show ?case by simp
next
  case (Cons k ks)
  have look: "map_of (deep_merge base over) k =
      (case map_of over k of None \<Rightarrow> map_of base k | Some v \<Rightarrow> Some (merge_value (map_of base k) v))"
    using Cons.prems by (simp add: map_of_deep_merge)
  show ?case
  proof (cases "map_of over k")
    case None
    with look show ?thesis by simp
  next
    case (Some v)
    show ?thesis
    proof (cases "\<exists>o'. v = JObj o'")
      case True
      then obtain o' where v: "v = JObj o'" by blast
      with wf_json_value [OF Cons.prems Some] have IH: "leaf_at ks (deep_merge b o') =
          (if silent ks o' then leaf_at ks b else leaf_at ks o')" for b
        by (intro Cons.IH) simp
      show ?thesis
      proof (cases "\<exists>b. map_of base k = Some (JObj b)")
        case True
        then show ?thesis using look Some v IH by (auto simp: merge_value_def)
      next
        case False
        then have m: "merge_value (map_of base k) v = v"
          by (auto simp: merge_value_def split: option.splits json.splits)
        have "leaf_at ks o' = None" if "silent ks o'"
          using that by (induction ks arbitrary: o') (auto split: option.splits json.splits if_splits)
        moreover have "leaf_at (k # ks) base = None" if "silent ks o'"
          using that False by (cases ks) (auto split: option.splits json.splits)
        ultimately show ?thesis using look Some v m by simp
      qed
    next
      case False
      then have "merge_value (map_of base k) v = v"
        by (auto simp: merge_value_def split: option.splits json.splits)
      with False look Some show ?thesis by (cases v) auto
    qed
  qed
qed

lemma wf_dict_set: "wf_json (JObj d) \<Longrightarrow> wf_json v \<Longrightarrow> wf_json (JObj (dict_set k v d))"
proof -
  assume d: "wf_json (JObj d)" and v: "wf_json v"
  have "set (dict_set k v d) \<subseteq> insert (k, v) (set d)"
    unfolding dict_set_def by (induction d) auto
  with d v show ?thesis by (auto simp: list_all_iff distinct_dict_set)
qed

lemma wf_merge_value:
  assumes "wf_json v" and "wf_json (JObj base)"
    and "\<And>b o'. v = JObj o' \<Longrightarrow> wf_json (JObj b) \<Longrightarrow> wf_json (JObj (deep_merge b o'))"
  shows "wf_json (merge_value (map_of base k) v)"
  using assms wf_json_value [OF assms(2), of k]
  by (auto simp: merge_value_def split: option.splits json.splits simp del: wf_json.simps(1))

lemma wf_deep_merge:
  "wf_json (JObj base) \<Longrightarrow> wf_json (JObj over) \<Longrightarrow> wf_json (JObj (deep_merge base over))"
proof (induction base over rule: deep_merge.induct)
  case (1 base)
  then show ?case by simp
next
  case (2 base k v over)
  have v: "wf_json v" and over: "wf_json (JObj over)" using 2(4) by auto
  have "wf_json (merge_value (map_of base k) v)"
  proof (cases "\<exists>b o'. map_of base k = Some (JObj b) \<and> v = JObj o'")
    case True
    then obtain b o' where b: "map_of base k = Some (JObj b)" "v = JObj o'" by blast
    with 2(1) [of "Some (JObj b)" v "JObj b" b o'] wf_json_value [OF 2(3) b(1)] v
    show ?thesis by (simp add: merge_value_def)
  next
    case False
    then have "merge_value (map_of base k) v = v"
      by (auto simp: merge_value_def split: option.splits json.splits)
    with v show ?thesis by simp
  qed
  then have "wf_json (JObj (dict_set k (merge_value (map_of base k) v) base))"
    by (rule wf_dict_set [OF 2(3)])
  with 2(2) over show ?case by (simp add: deep_merge_Cons merge_value_def)
qed

lemma wf_builtin: "wf_json (JObj builtin_defaults)"
  by (simp add: builtin_defaults_def entry_def)

section \<open>What the scan accepts\<close>

text \<open>\<open>re_search\<close> of a pattern that ends in \<open>$\<close>.\<close>

lemma re_search_suffix:
  assumes "lang w r P"
  shows "re_search w (Seq r Eol) s \<noteq> None \<longleftrightarrow>
    (\<exists>a x. P x \<and> (s = a @ x \<or> s = a @ x @ [10]))"
proof -
  have "re_search w (Seq r Eol) s \<noteq> None \<longleftrightarrow>
      (\<exists>a b q t. s = a @ b \<and> rmatch w r (rev a, b) (q, t) \<and> (t = [] \<or> t = [10]))"
    unfolding re_search_None by (auto simp: rmatch_Seq rmatch_Eol)
  also have "\<dots> \<longleftrightarrow> (\<exists>a x t. s = a @ x @ t \<and> P x \<and> (t = [] \<or> t = [10]))"
    unfolding langD [OF assms] by blast
  also have "\<dots> \<longleftrightarrow> (\<exists>a x. P x \<and> (s = a @ x \<or> s = a @ x @ [10]))"
    by (metis append_Nil2)
  finally show ?thesis .
qed

text \<open>Case folding as \<open>re.IGNORECASE\<close> does it on the letters of the pattern.\<close>

definition fold_case :: "uchar \<Rightarrow> uchar" where
  "fold_case c = (if 65 \<le> c \<and> c \<le> 90 then c + 32 else if c = 8490 then 107
     else if c = 383 then 115 else if c = 304 \<or> c = 305 then 105 else c)"

definition small :: "uchar \<Rightarrow> bool" where
  "small c \<longleftrightarrow> 97 \<le> c \<and> c \<le> 122"

lemma fold_case_iff:
  "small c \<Longrightarrow> fold_case d = c \<longleftrightarrow> d = c \<or> d = c - 32 \<or> c = 107 \<and> d = 8490 \<or> c = 115 \<and> d = 383
    \<or> c = 105 \<and> (d = 304 \<or> d = 305)"
  unfolding fold_case_def small_def by presburger

lemma lang_Ci: "small c \<Longrightarrow> lang w (Ci c) (\<lambda>x. \<exists>d. x = [d] \<and> fold_case d = c)"
  unfolding Ci_def by (rule lang_cong [OF lang_Cls]) (simp add: cls_ok_def fold_case_iff, fastforce split: if_splits)

lemma lang_StrCi: "list_all small s \<Longrightarrow> lang w (StrCi s) (\<lambda>x. map fold_case x = s)"
proof (induction s)
  case Nil
  then show ?case by (simp add: lang_Eps)
next
  case (Cons c s)
  then have "lang w (Seq (Ci c) (StrCi s)) (\<lambda>z. \<exists>x y. z = x @ y \<and> (\<exists>d. x = [d] \<and> fold_case d = c) \<and> map fold_case y = s)"
    by (intro lang_Seq lang_Ci Cons.IH) simp_all
  with Cons.prems show ?case by (simp add: small_def) (erule lang_cong, fastforce simp: Cons_eq_map_conv intro: exI [of _ "[_]"])
qed

definition secret_words :: "pystr list" where
  "secret_words = map lit [''api_key'', ''api-key'', ''apikey'', ''secret'', ''password'', ''passwd'',
     ''token'', ''credential'']"

definition names_secret :: "pystr \<Rightarrow> bool" where
  "names_secret k \<longleftrightarrow> list_ex (ends_with (map fold_case k)) secret_words"

lemma lang_dash: "lang w (Opt (Cls False [Rng 95 95, Rng 45 45])) (\<lambda>x. x = [] \<or> x = [95] \<or> x = [45])"
  unfolding Opt_def by (rule lang_cong [OF lang_Alt [OF lang_Cls lang_Eps]]) (auto simp: cls_ok_def)

lemma small_words:
  "list_all small (lit ''api'')" "list_all small (lit ''key'')" "list_all small (lit ''secret'')"
  "list_all small (lit ''password'')" "list_all small (lit ''passwd'')" "list_all small (lit ''token'')"
  "list_all small (lit ''credential'')"
  by (simp_all add: small_def)

lemma fold_case_dash: "fold_case c = 95 \<longleftrightarrow> c = 95" "fold_case c = 45 \<longleftrightarrow> c = 45"
  unfolding fold_case_def by presburger+

definition secret_core :: re where
  "secret_core = Grp 1 (AltL
     [SeqL [StrCi (lit ''api''), Opt (Cls False [Rng 95 95, Rng 45 45]), StrCi (lit ''key'')],
      StrCi (lit ''secret''), StrCi (lit ''password''), StrCi (lit ''passwd''), StrCi (lit ''token''),
      StrCi (lit ''credential'')])"

lemma fold_dash: "map fold_case u = [95] \<longleftrightarrow> u = [95]" "map fold_case u = [45] \<longleftrightarrow> u = [45]"
  by (auto simp: map_eq_Cons_conv fold_case_dash)

lemma map_appendE:
  assumes "map f z = a @ b"
  obtains x y where "z = x @ y" and "map f x = a" and "map f y = b"
  using assms unfolding map_eq_append_conv by blast

lemma fold_infix:
  "(\<exists>x y. z = x @ y \<and> map fold_case x = a \<and>
     (\<exists>u v. y = u @ v \<and> (u = [] \<or> u = [95] \<or> u = [45]) \<and> map fold_case v = b)) \<longleftrightarrow>
   map fold_case z = a @ b \<or> map fold_case z = a @ [95] @ b \<or> map fold_case z = a @ [45] @ b" (is "?l \<longleftrightarrow> ?r")
proof -
  have "?l \<longleftrightarrow> (\<exists>x u v. z = x @ u @ v \<and> map fold_case x = a \<and>
      (map fold_case u = [] \<or> map fold_case u = [95] \<or> map fold_case u = [45]) \<and> map fold_case v = b)"
    unfolding fold_dash list.map_disc_iff by blast
  also have "\<dots> \<longleftrightarrow> (\<exists>d. (d = [] \<or> d = [95] \<or> d = [45]) \<and> map fold_case z = a @ d @ b)"
    (is "_ \<longleftrightarrow> ?m")
  proof
    assume ?m
    then obtain d where d: "d = [] \<or> d = [95] \<or> d = [45]" and "map fold_case z = a @ d @ b" by blast
    from this(2) obtain x y where z: "z = x @ y" "map fold_case x = a" and y: "map fold_case y = d @ b"
      by (rule map_appendE)
    from y obtain u v where "y = u @ v" "map fold_case u = d" "map fold_case v = b"
      by (rule map_appendE)
    with z d have "z = x @ u @ v" by simp
    with z(2) \<open>map fold_case u = d\<close> \<open>map fold_case v = b\<close> d show "\<exists>x u v. z = x @ u @ v \<and> map fold_case x = a \<and>
        (map fold_case u = [] \<or> map fold_case u = [95] \<or> map fold_case u = [45]) \<and> map fold_case v = b"
      by (intro exI [of _ x] exI [of _ u] exI [of _ v]) simp
  qed fastforce
  also have "\<dots> \<longleftrightarrow> ?r" by (auto simp: ex_disj_distrib conj_disj_distribR)
  finally show ?thesis .
qed

lemma lang_secret: "lang w secret_core (\<lambda>x. map fold_case x \<in> set secret_words)"
proof -
  have api: "lang w (Seq (StrCi (lit ''api'')) (Seq (Opt (Cls False [Rng 95 95, Rng 45 45])) (StrCi (lit ''key''))))
      (\<lambda>z. map fold_case z = lit ''api'' @ lit ''key'' \<or> map fold_case z = lit ''api'' @ [95] @ lit ''key''
        \<or> map fold_case z = lit ''api'' @ [45] @ lit ''key'')"
    by (rule lang_cong [OF lang_Seq [OF lang_StrCi lang_Seq [OF lang_dash lang_StrCi]]])
      (simp_all only: small_words fold_infix)
  show ?thesis
    unfolding secret_core_def AltL.simps SeqL.simps
    by (rule lang_cong [OF lang_Grp [OF lang_Alt [OF api lang_Alt [OF lang_StrCi lang_Alt [OF lang_StrCi
        lang_Alt [OF lang_StrCi lang_Alt [OF lang_StrCi lang_StrCi]]]]]]])
      (simp_all only: small_words, auto simp: secret_words_def)
qed

lemma secret_key_iff: "secret_key k \<longleftrightarrow> names_secret k \<or> (\<exists>k'. k = k' @ [10] \<and> names_secret k')"
proof -
  have fold: "names_secret s \<longleftrightarrow> (\<exists>a x. map fold_case x \<in> set secret_words \<and> s = a @ x)" for s
    by (fastforce simp: names_secret_def list_ex_iff ends_with_iff map_eq_append_conv)
  have "secret_key k \<longleftrightarrow> re_search (\<lambda>_. False) (Seq secret_core Eol) k \<noteq> None"
    by (simp only: secret_key_def secret_key_re_def secret_core_def)
  also have "\<dots> \<longleftrightarrow> names_secret k \<or> (\<exists>k'. k = k' @ [10] \<and> names_secret k')"
    unfolding re_search_suffix [OF lang_secret] fold append_assoc [symmetric] by blast
  finally show ?thesis .
qed

text \<open>An shell_name of the shell.\<close>

definition shell_name :: "pystr \<Rightarrow> bool" where
  "shell_name s = (case s of [] \<Rightarrow> False | c # cs \<Rightarrow>
     (small c \<or> 65 \<le> c \<and> c \<le> 90 \<or> c = 95)
     \<and> list_all (\<lambda>d. small d \<or> 65 \<le> d \<and> d \<le> 90 \<or> d = 95 \<or> 48 \<le> d \<and> d \<le> 57) cs)"

lemma lang_identifier: "lang w (Seq (Cls False [Rng 65 90, Rng 97 122, Rng 95 95])
    (Star True (Cls False [Rng 65 90, Rng 97 122, Rng 48 57, Rng 95 95]))) shell_name"
proof (rule lang_cong [OF lang_Seq [OF lang_Cls lang_Star_Cls]])
  fix z
  have first: "cls_ok w False [Rng 65 90, Rng 97 122, Rng 95 95] c \<longleftrightarrow> small c \<or> 65 \<le> c \<and> c \<le> 90 \<or> c = 95" for c
    by (auto simp: cls_ok_def small_def)
  have rest: "cls_ok w False [Rng 65 90, Rng 97 122, Rng 48 57, Rng 95 95] =
      (\<lambda>d. small d \<or> 65 \<le> d \<and> d \<le> 90 \<or> d = 95 \<or> 48 \<le> d \<and> d \<le> 57)"
    by (rule ext) (auto simp: cls_ok_def small_def)
  show "(\<exists>x y. z = x @ y \<and> (\<exists>c. x = [c] \<and> cls_ok w False [Rng 65 90, Rng 97 122, Rng 95 95] c)
      \<and> list_all (cls_ok w False [Rng 65 90, Rng 97 122, Rng 48 57, Rng 95 95]) y) \<longleftrightarrow> shell_name z"
    unfolding first rest shell_name_def
    by (cases z) (simp, fastforce intro: exI [of _ "[_]"])
qed

lemma env_name_iff: "env_name s \<longleftrightarrow> shell_name s \<or> (\<exists>s'. s = s' @ [10] \<and> shell_name s')"
  using re_match_anchored [OF lang_identifier]
  by (simp add: env_name_def env_name_re_def re_match_Seq_assoc)

text \<open>A document the scan accepts: every key in sight that ends in \<open>_env\<close> and has a text names a
  variable, and no other key in sight names a secret. What is below an \<open>_env\<close> key is out of sight.\<close>

fun clean :: "json \<Rightarrow> bool" where
  "clean (JObj d) = list_all (\<lambda>(k, v). if env_suffix k then env_value_ok v else \<not> secret_key k \<and> clean v) d"
| "clean (JArr xs) = list_all clean xs"
| "clean _ = True"

lemma scan_clean:
  "scan_secrets path j = Inr () \<longleftrightarrow> clean j"
  "scan_items path d = Inr () \<longleftrightarrow> clean (JObj d)"
  "scan_list path i xs = Inr () \<longleftrightarrow> clean (JArr xs)"
proof (induction path j and path d and path i xs rule: scan_secrets_scan_items_scan_list.induct)
  case (9 path k v kvs)
  then show ?case by (auto simp: Let_def)
qed simp_all

lemma clean_dict_set:
  "clean (JObj d) \<Longrightarrow> (if env_suffix k then env_value_ok v else \<not> secret_key k \<and> clean v) \<Longrightarrow>
    clean (JObj (dict_set k v d))"
  unfolding dict_set_def by (induction d) (auto split: if_splits)

lemma clean_value: "clean (JObj d) \<Longrightarrow> map_of d k = Some v \<Longrightarrow> \<not> env_suffix k \<Longrightarrow> clean v"
  by (auto simp: list_all_iff dest!: map_of_SomeD)

lemma clean_deep_merge:
  "clean (JObj base) \<Longrightarrow> clean (JObj over) \<Longrightarrow> clean (JObj (deep_merge base over))"
proof (induction base over rule: deep_merge.induct)
  case (1 base)
  then show ?case by simp
next
  case (2 base k v over)
  have v: "if env_suffix k then env_value_ok v else \<not> secret_key k \<and> clean v" and over: "clean (JObj over)"
    using 2(4) by auto
  have "if env_suffix k then env_value_ok (merge_value (map_of base k) v)
      else \<not> secret_key k \<and> clean (merge_value (map_of base k) v)"
  proof (cases "\<exists>b o'. map_of base k = Some (JObj b) \<and> v = JObj o'")
    case True
    then obtain b o' where b: "map_of base k = Some (JObj b)" "v = JObj o'" by blast
    with 2(1) [of "Some (JObj b)" v "JObj b" b o'] clean_value [OF 2(3) b(1)] v
    show ?thesis by (cases "env_suffix k") (simp_all add: merge_value_def env_value_ok_def del: clean.simps)
  next
    case False
    then have "merge_value (map_of base k) v = v"
      by (auto simp: merge_value_def split: option.splits json.splits)
    with v show ?thesis by simp
  qed
  then have "clean (JObj (dict_set k (merge_value (map_of base k) v) base))"
    by (rule clean_dict_set [OF 2(3)])
  with 2(2) over show ?case by (simp add: deep_merge_Cons merge_value_def)
qed

section \<open>Properties\<close>

text \<open>
  C23. The precedence of the configuration, most specific first: \<open>.groundtruth.yaml\<close>, the global
  \<open>defaults\<close>, the built-in defaults. At every path of keys the merged document has the leaf of the
  most specific document that says anything there: each leaf of a vault's file wins, a key the
  vault's file leaves out falls through level by level, nested maps merge, and no key appears twice.
\<close>

theorem config_precedence:
  assumes "wf_json (JObj g)" and "wf_json (JObj v)"
  shows "wf_json (JObj (merged_config g v))
    \<and> leaf_at ks (merged_config g v) =
        (if \<not> silent ks v then leaf_at ks v
         else if \<not> silent ks g then leaf_at ks g
         else leaf_at ks builtin_defaults)"
proof
  show "wf_json (JObj (merged_config g v))"
    unfolding merged_config_def by (intro wf_deep_merge wf_builtin assms)
  show "leaf_at ks (merged_config g v) =
      (if \<not> silent ks v then leaf_at ks v else if \<not> silent ks g then leaf_at ks g else leaf_at ks builtin_defaults)"
    by (simp only: merged_config_def leaf_at_merge [OF assms(1)] leaf_at_merge [OF assms(2)] if_not_P split: if_split) blast
qed

definition demo_defaults :: mapping where
  "demo_defaults = [entry ''limits'' (JObj [entry ''max_tool_calls'' (JInt 5), entry ''max_note_bytes'' (JInt 9)])]"

definition demo_vault_file :: mapping where
  "demo_vault_file = [entry ''limits'' (JObj [entry ''max_tool_calls'' (JInt 7)])]"

theorem config_precedence_witness:
  "leaf_at [lit ''limits'', lit ''max_tool_calls''] (merged_config demo_defaults demo_vault_file) = Some (JInt 7)
    \<and> leaf_at [lit ''limits'', lit ''max_note_bytes''] (merged_config demo_defaults demo_vault_file) = Some (JInt 9)
    \<and> leaf_at [lit ''limits'', lit ''grep_max_matches''] (merged_config demo_defaults demo_vault_file) = Some (JInt 50)"
proof -
  have g: "wf_json (JObj demo_defaults)" and v: "wf_json (JObj demo_vault_file)"
    by (simp_all add: demo_defaults_def demo_vault_file_def entry_def)
  show ?thesis
    unfolding config_precedence [OF g v, THEN conjunct2]
    by (simp add: demo_defaults_def demo_vault_file_def entry_def builtin_defaults_def)
qed

lemma load_vault_config_ok:
  "load_vault_config c vault given = Inr cfg \<longleftrightarrow>
    (\<exists>g d root v roles.
      load_yaml_mapping c (resolve_global_config_path c) = Inr g \<and> clean (JObj g)
      \<and> defaults_of (resolve_global_config_path c) g = Inr d
      \<and> repo_of c g vault given = Inr root
      \<and> load_yaml_mapping c (root @ [lit ''.groundtruth.yaml'']) = Inr v \<and> clean (JObj v)
      \<and> resolve_model_roles (value_or_empty (lit ''models'') (merged_config d v)) = Inr roles
      \<and> cf_vault_model c (dict_set (lit ''models'') (JObj roles) (merged_config d v)) = Inr cfg)"
proof -
  have one: "(\<exists>u::unit. P u) \<longleftrightarrow> P ()" for P by (metis (full_types) old.unit.exhaust)
  show ?thesis unfolding load_vault_config_def Let_def bindR_eq_Inr one scan_clean by blast
qed

lemma defaults_clean: "defaults_of p g = Inr d \<Longrightarrow> clean (JObj g) \<Longrightarrow> clean (JObj d)"
proof -
  assume d: "defaults_of p g = Inr d" and g: "clean (JObj g)"
  from d have "value_or_empty (lit ''defaults'') g = JObj d"
    by (auto simp: defaults_of_def split: json.splits)
  then have "d = [] \<or> map_of g (lit ''defaults'') = Some (JObj d)"
    by (auto simp: value_or_empty_def or_else_def simp del: lit_Cons split: option.splits if_splits)
  moreover have "\<not> env_suffix (lit ''defaults'')" by code_simp
  ultimately show ?thesis using clean_value [OF g, of "lit ''defaults''" "JObj d"]
    by (elim disjE) (simp, simp del: clean.simps lit_Cons)
qed

lemma clean_builtin: "clean (JObj builtin_defaults)"
  by code_simp

text \<open>The same without the regular expressions: a line of text is a text that may end in one newline.\<close>

definition line_of :: "(pystr \<Rightarrow> bool) \<Rightarrow> pystr \<Rightarrow> bool" where
  "line_of P s \<longleftrightarrow> P s \<or> (s \<noteq> [] \<and> last s = 10 \<and> P (butlast s))"

fun secret_free :: "json \<Rightarrow> bool" where
  "secret_free (JObj d) = list_all (\<lambda>(k, v).
     if ends_with k (lit ''_env'') then (case v of JStr s \<Rightarrow> line_of shell_name s | _ \<Rightarrow> True)
     else \<not> line_of names_secret k \<and> secret_free v) d"
| "secret_free (JArr xs) = list_all secret_free xs"
| "secret_free _ = True"

lemma line_of_iff: "line_of P s \<longleftrightarrow> P s \<or> (\<exists>s'. s = s' @ [10] \<and> P s')"
  unfolding line_of_def by (metis append_butlast_last_id butlast_snoc last_snoc snoc_eq_iff_butlast)

lemma clean_iff: "clean j \<longleftrightarrow> secret_free j"
proof (induction j)
  case (JArr xs)
  then show ?case by (simp add: list_all_iff)
next
  case (JObj d)
  have entry: "(\<lambda>(k, v). if env_suffix k then env_value_ok v else \<not> secret_key k \<and> clean v) x =
      (\<lambda>(k, v). if ends_with k (lit ''_env'') then (case v of JStr s \<Rightarrow> line_of shell_name s | _ \<Rightarrow> True)
         else \<not> line_of names_secret k \<and> secret_free v) x" if "x \<in> set d" for x
  proof -
    obtain k v where x: "x = (k, v)" by (cases x)
    have "clean v \<longleftrightarrow> secret_free v" using JObj.IH [OF that, of v] x by simp
    then show ?thesis
      by (simp only: x prod.case env_suffix_def env_value_ok_def env_name_iff secret_key_iff line_of_iff)
  qed
  show ?case unfolding clean.simps secret_free.simps by (rule list.pred_cong [OF refl entry])
qed simp_all

text \<open>
  C30. What a vault's configuration is made of. A load that returns has read the global file and the
  vault's file, found both free of literal secrets, taken the repository from the caller or from the
  registry, merged the two over the built-in defaults, and handed to validation that merge with the
  model roles resolved. In the merge every key in sight that ends in \<open>_env\<close> and has a text names an
  environment variable, and no other key in sight names a secret.
\<close>

theorem loaded_config:
  "(\<exists>cfg. load_vault_config c vault given = Inr cfg) \<longleftrightarrow>
    (\<exists>g d root v roles cfg.
      load_yaml_mapping c (resolve_global_config_path c) = Inr g
      \<and> secret_free (JObj g)
      \<and> defaults_of (resolve_global_config_path c) g = Inr d
      \<and> repo_of c g vault given = Inr root
      \<and> load_yaml_mapping c (root @ [lit ''.groundtruth.yaml'']) = Inr v
      \<and> secret_free (JObj v)
      \<and> secret_free (JObj (merged_config d v))
      \<and> resolve_model_roles (value_or_empty (lit ''models'') (merged_config d v)) = Inr roles
      \<and> cf_vault_model c (dict_set (lit ''models'') (JObj roles) (merged_config d v)) = Inr cfg)"
proof -
  have "clean (JObj (merged_config d v))"
    if "defaults_of p g = Inr d" "clean (JObj g)" "clean (JObj v)" for p g d v
    unfolding merged_config_def
    by (intro clean_deep_merge clean_builtin that(3) defaults_clean [OF that(1,2)])
  then show ?thesis unfolding load_vault_config_ok clean_iff [symmetric] by blast
qed

end
