(* ===== verification/Stages.thy ===== *)
theory Stages
  imports Validator Vocabulary Prompts CommitMessage Archive Config
begin

text \<open>
  The stages of the ingest pipeline (\<^verbatim>\<open>src/groundtruth/ingest/pipeline.py\<close>) up to an accepted batch: the
  world a run acts on, the accumulator, the timed stages, survey, reduce, tagging, and the organize
  loop with its retries and the last-resort link downgrade. Log lines are not modelled.

  Shown: none of these steps writes to the repository, the job store, the source index or the
  vocabulary cache, and a batch that leaves the organize loop was accepted by the validator against the
  vault as it is.
\<close>

section \<open>The world of a run\<close>

record accum =
  ac_tokens :: "(string \<times> token_counts) list"
  ac_timings :: "(string \<times> int) list"
  ac_downgrades :: "(pystr \<times> pystr list) list"
  ac_current :: string

text \<open>The last two fields are the outside world (the model servers and the clocks) and the
  accumulator of the run.\<close>

record ('x, 's) world =
  w_repo :: "'x repo_state"
  w_jobs :: job_dir
  w_index :: source_index
  w_caches :: "(pystr \<times> vocab_cache) list"
  w_srv :: 's
  w_acc :: accum

text \<open>The arguments of \<open>run\<close>.\<close>

record ingest =
  in_job_id :: pystr
  in_vault :: vault
  in_text :: pystr
  in_source_label :: pystr
  in_config :: vault_config
  in_today :: date

text \<open>What the pipeline is built from and what is outside the repository: clocks, model, git, regular
  expression compiler, JSON parser, template files. \<open>en_note\<close> holds the Unicode data, YAML and the
  note repository's date.\<close>

record ('x, 's) env =
  en_store :: store_cfg
  en_now :: "'s clock"
  en_mono :: "'s clock"
  en_note :: note_env
  en_git :: "'x git_env"
  en_model :: "'s model"
  en_compile :: "pystr \<Rightarrow> (pystr \<Rightarrow> bool) res"
  en_loads :: "pystr \<Rightarrow> json option"
  en_templates :: "pystr \<Rightarrow> pystr res"

abbreviation en_ucd :: "('x, 's) env \<Rightarrow> ucd" where
  "en_ucd env \<equiv> ne_ucd (en_note env)"

definition git_of :: "('x, 's) env \<Rightarrow> ingest \<Rightarrow> 'x git_env" where
  "git_of env q = (en_git env)\<lparr>ge_path := repo_root (in_vault q)\<rparr>"

definition in_limits :: "ingest \<Rightarrow> limits" where
  "in_limits q = vc_limits (in_config q)"

definition in_root :: "ingest \<Rightarrow> path" where
  "in_root q = vault_dir (in_vault q)"

text \<open>Actions on a part of the world, and results lifted to actions.\<close>

definition liftR :: "'a res \<Rightarrow> ('w, 'a) act" where
  "liftR r w = (r, w)"

definition on_repo :: "('x repo_state, 'a) act \<Rightarrow> (('x, 's) world, 'a) act" where
  "on_repo m w = (let (r, x) = m (w_repo w) in (r, w\<lparr>w_repo := x\<rparr>))"

definition on_index :: "(source_index, 'a) act \<Rightarrow> (('x, 's) world, 'a) act" where
  "on_index m w = (let (r, x) = m (w_index w) in (r, w\<lparr>w_index := x\<rparr>))"

definition on_srv :: "('s, 'a) act \<Rightarrow> (('x, 's) world, 'a) act" where
  "on_srv m w = (let (r, s) = m (w_srv w) in (r, w\<lparr>w_srv := s\<rparr>))"

definition on_acc :: "(accum \<Rightarrow> accum) \<Rightarrow> ('x, 's) world \<Rightarrow> ('x, 's) world" where
  "on_acc f w = w\<lparr>w_acc := f (w_acc w)\<rparr>"

section \<open>Accumulator and stages\<close>

definition add_role :: "string \<Rightarrow> llm_usage \<Rightarrow> accum \<Rightarrow> accum" where
  "add_role role u a = a\<lparr>ac_tokens := dict_set role
     (add_counts (case map_of (ac_tokens a) role of Some c \<Rightarrow> c | None \<Rightarrow> zero_counts) (counts_of_usage u))
     (ac_tokens a)\<rparr>"

definition add_timing :: "string \<Rightarrow> int \<Rightarrow> accum \<Rightarrow> accum" where
  "add_timing name t a = a\<lparr>ac_timings := dict_set name
     ((case map_of (ac_timings a) name of Some x \<Rightarrow> x | None \<Rightarrow> 0) + t) (ac_timings a)\<rparr>"

definition stage ::
  "('x, 's) env \<Rightarrow> string \<Rightarrow> (('x, 's) world, 'a) act \<Rightarrow> (('x, 's) world, 'a) act" where
  "stage env name m w =
    (let (t0, s0) = en_mono env (w_srv w);
         (r, w1) = m (on_acc (\<lambda>a. a\<lparr>ac_current := name\<rparr>) (w\<lparr>w_srv := s0\<rparr>));
         (t1, s1) = en_mono env (w_srv w1)
     in (r, on_acc (add_timing name (t1 - t0)) (w1\<lparr>w_srv := s1\<rparr>)))"

definition stage_failure :: "string \<Rightarrow> message \<Rightarrow> bool \<Rightarrow> exn" where
  "stage_failure st m back =
    \<lparr>ecls = StageFailureError, emsg = m, estage = Some st, eattr = RollbackAttr back\<rparr>"

text \<open>\<open>outcome.error or default\<close>.\<close>

definition error_or :: "ucd \<Rightarrow> message option \<Rightarrow> string \<Rightarrow> message" where
  "error_or u e d = (case e of Some m \<Rightarrow> if render u m = [] then [Lit d] else m | None \<Rightarrow> [Lit d])"

section \<open>Survey and reduce\<close>

definition survey_instruction :: pystr where
  "survey_instruction =
    lit ''You are surveying an Obsidian vault to find the notes that the text below ''
    @ lit ''relates to, so it can be integrated without creating duplicates. Read ''
    @ lit ''schema.md first, then use ls/grep/read. Report the vault-relative paths of ''
    @ lit ''the relevant notes, or say '' @ [39] @ lit ''none'' @ [39, 46, 10, 10]"

definition tool_env_of :: "('x, 's) env \<Rightarrow> 's tool_env" where
  "tool_env_of env = \<lparr>te_ucd = en_ucd env, te_compile = en_compile env, te_clock = en_mono env\<rparr>"

definition survey :: "('x, 's) env \<Rightarrow> ingest \<Rightarrow> (('x, 's) world, json) act" where
  "survey env q w =
    (case run_agent (ro_agent (tool_env_of env) (fst (w_repo w)) (in_root q) (en_model env)
              (max_tool_calls (in_limits q)))
            (lit ''reduce'') (Prompt (survey_instruction @ in_text q))
            (new_budget (en_mono env) (Some (from_limits (in_limits q))) (w_srv w)) of
       (Inl e, (b, s)) \<Rightarrow> (Inl e, w\<lparr>w_srv := s\<rparr>)
     | (Inr out, (b, s)) \<Rightarrow>
         (case ao_status out of
            Exhausted \<Rightarrow> Inl (stage_failure ''retrieval''
              [Lit ''retrieval budget exhausted; failing the job rather than risk a duplicate note ('', Txt [167],
               Lit ''7.4). Raise max_tool_calls for this vault.'']
              True)
          | Failed \<Rightarrow> Inl (stage_failure ''retrieval'' (error_or (en_ucd env) (ao_error out) ''retrieval failed'') True)
          | Completed \<Rightarrow> Inr (or_else (ao_final_text out) (JStr (lit ''none''))),
          on_acc (add_role ''survey'' (ao_usage out)) (w\<lparr>w_srv := s\<rparr>)))"

definition user_message :: "pystr \<Rightarrow> json" where
  "user_message t = chat ''user'' (JStr t)"

definition complete_role ::
  "('x, 's) env \<Rightarrow> string \<Rightarrow> json list \<Rightarrow> (('x, 's) world, llm_response) act" where
  "complete_role env role ms w =
    (case en_model env (lit role) ms [] (w_srv w) of
       (Inl e, s) \<Rightarrow>
         (Inl (if isinstance e GroundtruthError \<and> \<not> is_transient e
               then stage_failure ''llm'' (emsg e) True else e), w\<lparr>w_srv := s\<rparr>)
     | (Inr r, s) \<Rightarrow> (Inr r, on_acc (add_role role (lr_usage r)) (w\<lparr>w_srv := s\<rparr>)))"

text \<open>\<open>response.text or ""\<close>, read as text by the parsers.\<close>

definition reply_text :: "llm_response \<Rightarrow> pystr res" where
  "reply_text r = (case or_else (lr_text r) (JStr []) of
     JStr s \<Rightarrow> Inr s | _ \<Rightarrow> Inl (exc AttributeError [Lit ''object has no attribute splitlines'']))"

definition reduce_step :: "('x, 's) env \<Rightarrow> ingest \<Rightarrow> schema \<Rightarrow> (('x, 's) world, pystr list) act" where
  "reduce_step env q sch =
    bindA (liftR (render_prompt (en_templates env) (lit ''reduce'')
      [(''schema_md'', JStr (raw_schema sch)), (''input_text'', JStr (in_text q))])) (\<lambda>p.
    bindA (complete_role env ''reduce'' [user_message p]) (\<lambda>r.
    liftR (bindR (reply_text r) parse_reduced_items)))"

section \<open>Tagging and stamping\<close>

definition tag_attempts :: nat where
  "tag_attempts = 2"

definition tag_retry :: "pystr \<Rightarrow> pystr" where
  "tag_retry err = lit ''That was not a usable tag list: '' @ err
     @ lit ''. Reply with ONLY the tags '' @ [8212] @ lit '' one per line, lowercase and hyphen-separated, ''
     @ lit ''no prose, no numbering, no parentheses.''"

definition loop_unreachable :: exn where
  "loop_unreachable = exc AssertionError [Lit ''unreachable: the loop returns or re-raises'']"

fun tag_loop :: "('x, 's) env \<Rightarrow> nat list \<Rightarrow> json list \<Rightarrow> (('x, 's) world, pystr list) act" where
  "tag_loop env [] ms = raiseA loop_unreachable"
| "tag_loop env (attempt # rest) ms =
    bindA (complete_role env ''tag'' ms) (\<lambda>r.
    case bindR (reply_text r) parse_tags of
      Inr ts \<Rightarrow> retA ts
    | Inl e \<Rightarrow>
        if \<not> isinstance e MalformedLLMOutputError then raiseA e
        else if attempt = tag_attempts then raiseA (stage_failure ''llm'' (emsg e) True)
        else tag_loop env rest (ms @ [chat ''assistant'' (or_else (lr_text r) (JStr [])),
               user_message (tag_retry (render (en_ucd env) (emsg e)))]))"

definition tag_step ::
  "('x, 's) env \<Rightarrow> schema \<Rightarrow> pystr \<Rightarrow> json \<Rightarrow> pystr \<Rightarrow> (('x, 's) world, pystr list) act" where
  "tag_step env sch vocab body p =
    bindA (liftR (render_prompt (en_templates env) (lit ''tag'')
      [(''schema_md'', JStr (raw_schema sch)), (''derived_vocabulary'', JStr vocab), (''note_path'', JStr p),
       (''input_text'', body)])) (\<lambda>t.
    tag_loop env [1..<tag_attempts + 1] [user_message t])"

definition note_stem :: "pystr \<Rightarrow> pystr" where
  "note_stem p = removesuffix (last_field 47 p) (lit ''.md'')"

definition stamp_note :: "pending_note \<Rightarrow> pystr list \<Rightarrow> pystr \<Rightarrow> date \<Rightarrow> pending_note res" where
  "stamp_note n ts sha day =
    bindR (validate_frontmatter
      \<lparr>title = (case pn_title n of Some t \<Rightarrow> if t = [] then note_stem (pn_path n) else t
                | None \<Rightarrow> note_stem (pn_path n)),
       tags = ts, sources = [sha], created = day, updated = day\<rparr>) (\<lambda>fm.
    Inr (with_frontmatter (Fm fm) n))"

fun stamp_all ::
  "('x, 's) env \<Rightarrow> ingest \<Rightarrow> schema \<Rightarrow> pystr \<Rightarrow> pystr \<Rightarrow> pending_note list \<Rightarrow>
    (('x, 's) world, pending_note list) act" where
  "stamp_all env q sch vocab sha [] = retA []"
| "stamp_all env q sch vocab sha (n # ns) =
    bindA (stage env ''llm'' (tag_step env sch vocab (pn_body n) (pn_path n))) (\<lambda>ts.
    bindA (liftR (stamp_note n ts sha (in_today q))) (\<lambda>n'.
    bindA (stamp_all env q sch vocab sha ns) (\<lambda>ns'. retA (n' # ns'))))"

section \<open>The organize loop\<close>

definition note_path_listing :: "pystr list \<Rightarrow> pystr" where
  "note_path_listing existing =
    (if existing = [] then lit ''(the vault has no notes yet)''
     else join [10] (map (\<lambda>p. lit ''- '' @ p) (take 1000 (sort (uniq existing)))))"

definition no_writes_feedback :: pystr where
  "no_writes_feedback =
    lit ''You finished without calling create_note or update_note, so nothing would be ''
    @ lit ''saved. Every ingest must write at least one note. Go through the distilled ''
    @ lit ''items again and call the write tools now.''"

definition dash :: pystr where
  "dash = [32, 8212, 32]"

definition retry_hints :: "(string \<times> pystr) list" where
  "retry_hints =
    [(''link_integrity'', lit ''A [[wikilink]] may point only at a note listed under '' @ [39]
       @ lit ''Every note path in the vault'' @ [39]
       @ lit '' or one you create in this same batch. Write every other reference as plain text, not a link.''),
     (''collision'', lit ''That path already exists'' @ dash
       @ lit ''call update_note(path, body) for it instead of create_note.''),
     (''missing_target'', lit ''That path does not exist yet'' @ dash
       @ lit ''call create_note(folder, title, body) instead of update_note.''),
     (''folder'', lit ''Create notes only in a folder that is declared verbatim in the schema'' @ dash
       @ lit ''do not add a sub-folder of your own (`projects/x/ci/` is not allowed if ''
       @ lit ''only `projects/x/` is declared). Put the note in the closest declared folder instead.''),
     (''note_count'', lit ''Too many notes touched. Consolidate to one note per topic or entity ''
       @ lit ''(never one per claim) and update existing notes instead of adding near-duplicates.''),
     (''duplicate_path'', lit ''You staged the same path twice'' @ dash @ lit ''merge those into one call.''),
     (''filename'', lit ''Keep the title plain: no slashes, no leading dots, no path segments.''),
     (''note_substance'', lit ''You created a note but left its body a stub ('' @ [39] @ lit ''placeholder'' @ [39]
       @ lit '', a lone heading, only links). Write the full note body in the same create_note ''
       @ lit ''call, or do not create that note at all'' @ dash @ lit ''there is no second pass.'')]"

text \<open>The \<open>rule\<close> and \<open>note_path\<close> of a rejection.\<close>

definition rule_of :: "exn \<Rightarrow> string" where
  "rule_of e = (case eattr e of RuleAttr r _ \<Rightarrow> r | _ \<Rightarrow> [])"

definition rejected_path :: "exn \<Rightarrow> pystr" where
  "rejected_path e = (case eattr e of RuleAttr _ p \<Rightarrow> p | _ \<Rightarrow> [])"

definition retry_hint :: "exn \<Rightarrow> schema \<Rightarrow> pystr" where
  "retry_hint e sch =
    (let hint = (case map_of retry_hints (rule_of e) of Some h \<Rightarrow> h | None \<Rightarrow> []) in
     if rule_of e = ''folder''
     then let names = join (lit '', '') (sort (folders sch)) in
       hint @ [10] @ lit ''The only folders you may use: '' @ (if names = [] then lit ''(none)'' else names)
     else hint)"

definition retry_feedback :: "ucd \<Rightarrow> exn \<Rightarrow> schema \<Rightarrow> pystr" where
  "retry_feedback u e sch =
    strip (lit ''STOP'' @ dash @ lit ''the validator rejected the notes and nothing was saved:'' @ [10, 10]
      @ lit ''    '' @ render u (emsg e) @ [10, 10] @ retry_hint e sch @ [10, 10]
      @ lit ''Redo the ENTIRE batch of create_note / update_note calls from scratch'' @ dash
      @ lit ''the previous calls were all discarded. Do not repeat the rejected output.'')"

text \<open>The validator's view of the vault.\<close>

definition val_env_of :: "('x, 's) env \<Rightarrow> ingest \<Rightarrow> schema \<Rightarrow> pystr list \<Rightarrow> fs \<Rightarrow> val_env" where
  "val_env_of env q sch existing f =
    \<lparr>ve_ucd = en_ucd env, ve_yaml = ne_yaml (en_note env), ve_fs = f, ve_root = in_root q, ve_schema = sch,
     ve_limits = in_limits q, ve_existing = existing\<rparr>"

definition run_validate ::
  "('x, 's) env \<Rightarrow> ingest \<Rightarrow> schema \<Rightarrow> pystr list \<Rightarrow> pending_note list \<Rightarrow> (('x, 's) world, unit) act" where
  "run_validate env q sch existing ps w = (validate (val_env_of env q sch existing (fst (w_repo w))) ps, w)"

text \<open>The last resort: strip the markup of every dangling link of the rejected note, the first staged
  under that path.\<close>

definition downgrade_note ::
  "pystr list \<Rightarrow> pystr list \<Rightarrow> pending_note \<Rightarrow> (pending_note \<times> pystr list) res" where
  "downgrade_note existing now n =
    (case pn_body n of
       JStr b \<Rightarrow>
         (let (b', stripped) = downgrade_links b (uniq (map link_target (check_links (extract_links b) existing now)))
          in Inr (n\<lparr>pn_body := JStr b'\<rparr>, stripped))
     | _ \<Rightarrow> Inl (exc AttributeError [Lit ''object has no attribute split'']))"

fun downgrade_first ::
  "pystr \<Rightarrow> pystr list \<Rightarrow> pystr list \<Rightarrow> pending_note list \<Rightarrow> (pending_note list \<times> pystr list) res" where
  "downgrade_first p existing now [] = Inr ([], [])"
| "downgrade_first p existing now (n # ns) =
    (if pn_path n \<noteq> p
     then bindR (downgrade_first p existing now ns) (\<lambda>(ns', stripped). Inr (n # ns', stripped))
     else bindR (downgrade_note existing now n) (\<lambda>(n', stripped). Inr (n' # ns, stripped)))"

definition downgrade_dangling ::
  "pystr \<Rightarrow> pystr list \<Rightarrow> pending_note list \<Rightarrow> (('x, 's) world, pending_note list) act" where
  "downgrade_dangling p existing ps w =
    (case downgrade_first p existing (pending_paths ps) ps of
       Inl e \<Rightarrow> (Inl e, w)
     | Inr (ps', stripped) \<Rightarrow>
         (Inr ps', if stripped = [] then w
                   else on_acc (\<lambda>a. a\<lparr>ac_downgrades := dict_set p stripped (ac_downgrades a)\<rparr>) w))"

definition write_env_of :: "('x, 's) env \<Rightarrow> ingest \<Rightarrow> pystr list \<Rightarrow> fs \<Rightarrow> 's write_env" where
  "write_env_of env q existing f = \<lparr>we_ucd = en_ucd env, we_fs = f, we_root = in_root q,
     we_existing = existing, we_clock = en_mono env\<rparr>"

definition run_organize_agent ::
  "('x, 's) env \<Rightarrow> ingest \<Rightarrow> budget \<Rightarrow> pystr list \<Rightarrow> conversation \<Rightarrow>
    (('x, 's) world, pending_note list \<times> json list \<times> budget) act" where
  "run_organize_agent env q b existing conv w =
    (case run_agent (write_agent (write_env_of env q existing (fst (w_repo w))) (en_model env)
              (max_tool_calls (in_limits q)))
            (lit ''organize'') conv ([], (b, w_srv w)) of
       (Inl e, (ps, (b', s))) \<Rightarrow> (Inl e, w\<lparr>w_srv := s\<rparr>)
     | (Inr out, (ps, (b', s))) \<Rightarrow>
         (case ao_status out of
            Exhausted \<Rightarrow> Inl (stage_failure ''llm'' [Lit ''organize budget exhausted''] True)
          | Failed \<Rightarrow> Inl (stage_failure ''llm'' (error_or (en_ucd env) (ao_error out) ''organize failed'') True)
          | Completed \<Rightarrow> Inr (ps, ao_messages out, b'),
          on_acc (add_role ''organize'' (ao_usage out)) (w\<lparr>w_srv := s\<rparr>)))"

text \<open>One attempt: an accepted batch, or the conversation and the budget of the next attempt.\<close>

datatype attempt_result = Accepted "pending_note list" | Again "json list" budget

text \<open>What follows a rejection: a retry with the rejection fed back, or, on the last attempt and for
  dangling links only, the downgrade and a second validation.\<close>

definition after_rejection ::
  "('x, 's) env \<Rightarrow> ingest \<Rightarrow> schema \<Rightarrow> pystr list \<Rightarrow> bool \<Rightarrow> pending_note list \<Rightarrow> json list \<Rightarrow> budget \<Rightarrow> exn \<Rightarrow>
    (('x, 's) world, attempt_result) act" where
  "after_rejection env q sch existing final ps ms b e =
    (if \<not> isinstance e ValidationRejectionError then raiseA e
     else if \<not> final then retA (Again (ms @ [user_message (retry_feedback (en_ucd env) e sch)]) b)
     else if rule_of e \<noteq> ''link_integrity'' then raiseA e
     else bindA (downgrade_dangling (rejected_path e) existing ps) (\<lambda>ps'.
          bindA (stage env ''write-validation'' (run_validate env q sch existing ps')) (\<lambda>_.
          retA (Accepted ps'))))"

definition organize_attempt ::
  "('x, 's) env \<Rightarrow> ingest \<Rightarrow> schema \<Rightarrow> pystr \<Rightarrow> pystr list \<Rightarrow> pystr \<Rightarrow> bool \<Rightarrow> budget \<Rightarrow> conversation \<Rightarrow>
    (('x, 's) world, attempt_result) act" where
  "organize_attempt env q sch vocab existing sha final b conv =
    bindA (stage env ''llm'' (run_organize_agent env q b existing conv)) (\<lambda>(drafted, ms, b').
    if drafted = [] then
      (if final then raiseA (stage_failure ''llm'' [Lit ''organize produced no writes''] True)
       else retA (Again (ms @ [user_message no_writes_feedback]) b'))
    else
      bindA (stamp_all env q sch vocab sha drafted) (\<lambda>ps.
      tryA (bindA (stage env ''write-validation'' (run_validate env q sch existing ps)) (\<lambda>_. retA (Accepted ps)))
        (after_rejection env q sch existing final ps ms b')))"

fun organize_loop ::
  "('x, 's) env \<Rightarrow> ingest \<Rightarrow> schema \<Rightarrow> pystr \<Rightarrow> pystr list \<Rightarrow> pystr \<Rightarrow> nat \<Rightarrow> nat list \<Rightarrow> budget \<Rightarrow> conversation \<Rightarrow>
    (('x, 's) world, pending_note list) act" where
  "organize_loop env q sch vocab existing sha cap [] b conv = raiseA loop_unreachable"
| "organize_loop env q sch vocab existing sha cap (n # ns) b conv =
    bindA (organize_attempt env q sch vocab existing sha (n = cap) b conv) (\<lambda>x.
    case x of
      Accepted ps \<Rightarrow> retA ps
    | Again ms b' \<Rightarrow> organize_loop env q sch vocab existing sha cap ns b' (Dialogue ms))"

definition organize_attempts :: "ingest \<Rightarrow> nat" where
  "organize_attempts q = nat (max 1 (organize_max_attempts (in_limits q)))"

text \<open>One budget for the whole step.\<close>

definition organize_budget :: "('x, 's) env \<Rightarrow> ingest \<Rightarrow> (('x, 's) world, budget) act" where
  "organize_budget env q =
    on_srv (\<lambda>s. case new_budget (en_mono env) (Some (from_limits (in_limits q))) s of (b, s') \<Rightarrow> (Inr b, s'))"

definition organize_and_validate ::
  "('x, 's) env \<Rightarrow> ingest \<Rightarrow> schema \<Rightarrow> pystr \<Rightarrow> json \<Rightarrow> pystr list \<Rightarrow> pystr list \<Rightarrow> pystr \<Rightarrow>
    (('x, 's) world, pending_note list) act" where
  "organize_and_validate env q sch vocab relevant reduced existing sha =
    bindA (liftR (render_prompt (en_templates env) (lit ''organize'')
      [(''schema_md'', JStr (raw_schema sch)), (''derived_vocabulary'', JStr vocab),
       (''existing_notes'', relevant), (''existing_note_paths'', JStr (note_path_listing existing)),
       (''input_items'', JStr (join [10] (map (\<lambda>i. lit ''- '' @ i) reduced)))])) (\<lambda>base.
    bindA (organize_budget env q) (\<lambda>b.
    organize_loop env q sch vocab existing sha (organize_attempts q) [1..<organize_attempts q + 1] b (Prompt base)))"

section \<open>Steps that write nothing\<close>

definition same_disk :: "('x, 's) world \<Rightarrow> ('x, 's) world \<Rightarrow> bool" where
  "same_disk w w' \<longleftrightarrow> w_repo w' = w_repo w \<and> w_jobs w' = w_jobs w \<and> w_index w' = w_index w
     \<and> w_caches w' = w_caches w"

lemma same_disk_refl [simp]: "same_disk w w"
  by (simp add: same_disk_def)

lemma same_disk_trans: "same_disk w w' \<Longrightarrow> same_disk w' w'' \<Longrightarrow> same_disk w w''"
  by (simp add: same_disk_def)

lemma same_disk_upd [simp]:
  "same_disk w (v\<lparr>w_srv := s\<rparr>) \<longleftrightarrow> same_disk w v" "same_disk w (on_acc f v) \<longleftrightarrow> same_disk w v"
  by (simp_all add: same_disk_def on_acc_def)

lemma same_disk_fs: "same_disk w w' \<Longrightarrow> fst (w_repo w') = fst (w_repo w)"
  by (simp add: same_disk_def)

text \<open>Started where \<open>A\<close> holds of the file system, the step writes nothing, and its value satisfies \<open>Q\<close>.\<close>

definition quiet :: "(fs \<Rightarrow> bool) \<Rightarrow> (('x, 's) world, 'a) act \<Rightarrow> (fs \<Rightarrow> 'a \<Rightarrow> bool) \<Rightarrow> bool" where
  "quiet A m Q \<longleftrightarrow> (\<forall>w. A (fst (w_repo w)) \<longrightarrow> same_disk w (snd (m w))
     \<and> (case fst (m w) of Inr x \<Rightarrow> Q (fst (w_repo w)) x | Inl _ \<Rightarrow> True))"

named_theorems quiet_intros \<open>rules for steps that write nothing\<close>

lemma quietI: "(\<And>w r w'. A (fst (w_repo w)) \<Longrightarrow> m w = (r, w') \<Longrightarrow> same_disk w w'
    \<and> (case r of Inr x \<Rightarrow> Q (fst (w_repo w)) x | Inl _ \<Rightarrow> True)) \<Longrightarrow> quiet A m Q"
  unfolding quiet_def by (metis prod.collapse)

lemma quietD: "quiet A m Q \<Longrightarrow> A (fst (w_repo w)) \<Longrightarrow> m w = (r, w') \<Longrightarrow>
    same_disk w w' \<and> (case r of Inr x \<Rightarrow> Q (fst (w_repo w)) x | Inl _ \<Rightarrow> True)"
  unfolding quiet_def by (metis fst_conv snd_conv)

lemma quiet_weaken: "quiet A m Q \<Longrightarrow> (\<And>f. B f \<Longrightarrow> A f) \<Longrightarrow> (\<And>f x. Q f x \<Longrightarrow> R f x) \<Longrightarrow> quiet B m R"
  unfolding quiet_def by (auto split: sum.splits)

lemma quiet_bindA:
  assumes m: "quiet A m P" and k: "\<And>x. quiet (\<lambda>f. A f \<and> P f x) (k x) Q"
  shows "quiet A (bindA m k) Q"
proof (rule quietI)
  fix w :: "('a, 'b) world" and r w'
  assume a: "A (fst (w_repo w))" and b: "bindA m k w = (r, w')"
  obtain x w1 where m1: "m w = (x, w1)" by (cases "m w")
  note q = quietD [OF m a m1]
  show "same_disk w w' \<and> (case r of Inr x \<Rightarrow> Q (fst (w_repo w)) x | Inl _ \<Rightarrow> True)"
  proof (cases x)
    case (Inr y)
    with b m1 have "k y w1 = (r, w')" by (simp add: bindA_def)
    from quietD [OF k _ this] q a Inr same_disk_fs [of w w1] same_disk_trans [of w w1 w'] show ?thesis
      by (cases r) auto
  qed (use b m1 q in \<open>auto simp: bindA_def\<close>)
qed

lemma quiet_tryA:
  assumes m: "quiet A m Q" and h: "\<And>e. quiet A (h e) Q"
  shows "quiet A (tryA m h) Q"
proof (rule quietI)
  fix w :: "('a, 'b) world" and r w'
  assume a: "A (fst (w_repo w))" and b: "tryA m h w = (r, w')"
  obtain x w1 where m1: "m w = (x, w1)" by (cases "m w")
  note q = quietD [OF m a m1]
  show "same_disk w w' \<and> (case r of Inr x \<Rightarrow> Q (fst (w_repo w)) x | Inl _ \<Rightarrow> True)"
  proof (cases x)
    case (Inl e)
    with b m1 have "h e w1 = (r, w')" by (simp add: tryA_def)
    from quietD [OF h _ this] q a same_disk_fs [of w w1] same_disk_trans [of w w1 w'] show ?thesis
      by (cases r) auto
  qed (use b m1 q in \<open>auto simp: tryA_def\<close>)
qed

lemma quiet_when: "(P \<Longrightarrow> quiet A m Q) \<Longrightarrow> quiet (\<lambda>f. A f \<and> P) m Q"
  unfolding quiet_def by blast

lemma quiet_basic [quiet_intros]:
  "(\<And>f. A f \<Longrightarrow> Q f x) \<Longrightarrow> quiet A (retA x) Q"
  "quiet A (raiseA e) Q"
  "(\<And>f y. A f \<Longrightarrow> r = Inr y \<Longrightarrow> Q f y) \<Longrightarrow> quiet A (liftR r) Q"
  by (auto simp: quiet_def liftR_def split: sum.split)

lemma quiet_stage [quiet_intros]:
  assumes "quiet A m Q"
  shows "quiet A (stage env name m) Q"
proof (rule quietI)
  fix w :: "('a, 'b) world" and r w'
  assume a: "A (fst (w_repo w))" and s: "stage env name m w = (r, w')"
  let ?w = "on_acc (\<lambda>a. a\<lparr>ac_current := name\<rparr>) (w\<lparr>w_srv := snd (en_mono env (w_srv w))\<rparr>)"
  obtain x w1 where m1: "m ?w = (x, w1)" by (cases "m ?w")
  have fs: "w_repo ?w = w_repo w" by (simp add: on_acc_def)
  have d: "same_disk w ?w" by (simp add: same_disk_def on_acc_def)
  from s m1 have "r = x" "same_disk w1 w'"
    by (auto simp: stage_def Let_def split: prod.splits)
  with quietD [OF assms _ m1] a fs d same_disk_trans show
    "same_disk w w' \<and> (case r of Inr x \<Rightarrow> Q (fst (w_repo w)) x | Inl _ \<Rightarrow> True)" by metis
qed

text \<open>The steps that talk to the model.\<close>

lemma quiet_survey [quiet_intros]: "quiet A (survey env q) (\<lambda>_ _. True)"
  unfolding quiet_def survey_def by (auto split: prod.splits sum.splits)

lemma quiet_complete_role [quiet_intros]: "quiet A (complete_role env role ms) (\<lambda>_ _. True)"
  unfolding quiet_def complete_role_def by (auto split: prod.splits sum.splits)

lemma quiet_reduce [quiet_intros]: "quiet A (reduce_step env q sch) (\<lambda>_ _. True)"
  unfolding reduce_step_def
  by (rule quiet_bindA [where P = "\<lambda>_ _. True"], rule quiet_intros, simp,
      rule quiet_bindA, rule quiet_intros, rule quiet_intros, simp)

lemma quiet_tag_loop: "quiet A (tag_loop env ns ms) (\<lambda>_ ts. ts \<noteq> [] \<and> list_all tag_ok ts)"
proof (induction ns arbitrary: A ms)
  case (Cons n ns)
  show ?case
    unfolding tag_loop.simps
  proof (rule quiet_bindA [OF quiet_complete_role])
    fix r
    show "quiet (\<lambda>f. A f \<and> True) (case bindR (reply_text r) parse_tags of Inr ts \<Rightarrow> retA ts
      | Inl e \<Rightarrow> if \<not> isinstance e MalformedLLMOutputError then raiseA e
                 else if n = tag_attempts then raiseA (stage_failure ''llm'' (emsg e) True)
                 else tag_loop env ns (ms @ [chat ''assistant'' (or_else (lr_text r) (JStr [])),
                        user_message (tag_retry (render (en_ucd env) (emsg e)))]))
      (\<lambda>_ ts. ts \<noteq> [] \<and> list_all tag_ok ts)"
    proof (cases "bindR (reply_text r) parse_tags")
      case (Inr ts)
      then have "ts \<noteq> [] \<and> list_all tag_ok ts" using parse_tags_ok by auto
      then show ?thesis unfolding Inr sum.case by (intro quiet_intros) simp
    qed (simp add: Cons.IH quiet_intros del: isinstance_cases)
  qed
qed (simp add: quiet_intros)

text \<open>Tagging and stamping: the note keeps everything but its frontmatter, which names this source.\<close>

definition stamped :: "pystr \<Rightarrow> pending_note \<Rightarrow> bool" where
  "stamped sha n \<longleftrightarrow> (case pn_frontmatter n of Fm fm \<Rightarrow> sources fm = [sha] \<and> tags fm \<noteq> [] \<and> frontmatter_ok fm | _ \<Rightarrow> False)"

lemma quiet_tag_step: "quiet A (tag_step env sch vocab body p) (\<lambda>_ ts. ts \<noteq> [] \<and> list_all tag_ok ts)"
  unfolding tag_step_def
  by (rule quiet_bindA [where P = "\<lambda>_ _. True"], rule quiet_intros, simp, rule quiet_tag_loop)

lemma stamp_note_ok: "stamp_note n ts sha day = Inr n' \<Longrightarrow> ts \<noteq> [] \<Longrightarrow>
    stamped sha n' \<and> pn_path n' = pn_path n \<and> pn_body n' = pn_body n \<and> pn_is_new n' = pn_is_new n"
  by (auto simp: stamp_note_def stamped_def validate_frontmatter_ok with_frontmatter_def)

lemma quiet_stamp_all: "quiet A (stamp_all env q sch vocab sha ns) (\<lambda>_ ps. list_all (stamped sha) ps
    \<and> pending_paths ps = pending_paths ns)"
proof (induction ns arbitrary: A)
  case (Cons n ns)
  show ?case
    unfolding stamp_all.simps
    apply (rule quiet_bindA)
     apply (rule quiet_stage, rule quiet_tag_step)
    apply (rule quiet_bindA [where P = "\<lambda>_ n'. stamped sha n' \<and> pn_path n' = pn_path n"])
     apply (rule quiet_intros, use stamp_note_ok in blast)
    apply (rule quiet_bindA [OF Cons.IH])
    apply (rule quiet_intros, simp add: pending_paths_def)
    done
qed (simp add: quiet_intros pending_paths_def)

section \<open>The gate\<close>

text \<open>The batch was accepted against the vault, and every note names the source.\<close>

definition passed ::
  "('x, 's) env \<Rightarrow> ingest \<Rightarrow> schema \<Rightarrow> pystr list \<Rightarrow> pystr \<Rightarrow> fs \<Rightarrow> pending_note list \<Rightarrow> bool" where
  "passed env q sch existing sha f ps \<longleftrightarrow>
    validate (val_env_of env q sch existing f) ps = Inr () \<and> list_all (stamped sha) ps"

lemma quiet_validate: "quiet A (stage env name (run_validate env' q sch existing ps))
    (\<lambda>f _. validate (val_env_of env' q sch existing f) ps = Inr ())"
  by (rule quiet_stage) (auto simp: quiet_def run_validate_def split: sum.split)

lemma downgrade_first_stamped: "downgrade_first p ex now ps = Inr (ps', stripped) \<Longrightarrow>
    list_all (stamped sha) ps \<Longrightarrow> list_all (stamped sha) ps'"
  by (induction ps arbitrary: ps' stripped)
    (auto simp: downgrade_note_def stamped_def split: if_splits json.splits prod.splits)

lemma quiet_downgrade: "list_all (stamped sha) ps \<Longrightarrow>
    quiet A (downgrade_dangling p ex ps) (\<lambda>_ ps'. list_all (stamped sha) ps')"
  by (auto simp: quiet_def downgrade_dangling_def split: sum.splits prod.splits dest: downgrade_first_stamped)

lemma quiet_run_organize: "quiet A (run_organize_agent env q b existing conv) (\<lambda>_ _. True)"
  unfolding quiet_def run_organize_agent_def by (auto split: prod.splits sum.splits)

definition attempt_passed ::
  "('x, 's) env \<Rightarrow> ingest \<Rightarrow> schema \<Rightarrow> pystr list \<Rightarrow> pystr \<Rightarrow> fs \<Rightarrow> attempt_result \<Rightarrow> bool" where
  "attempt_passed env q sch existing sha f x =
    (case x of Accepted ps \<Rightarrow> passed env q sch existing sha f ps | Again _ _ \<Rightarrow> True)"

lemma quiet_accept: "list_all (stamped sha) ps \<Longrightarrow>
    quiet A (bindA (stage env name (run_validate env' q sch existing ps)) (\<lambda>_. retA (Accepted ps)))
      (attempt_passed env' q sch existing sha)"
  by (rule quiet_bindA [OF quiet_validate], rule quiet_intros) (simp add: attempt_passed_def passed_def)

lemma quiet_after_rejection:
  assumes "list_all (stamped sha) ps"
  shows "quiet A (after_rejection env q sch existing final ps ms b e) (attempt_passed env q sch existing sha)"
proof -
  have down: "quiet A (bindA (downgrade_dangling p existing ps) (\<lambda>ps'.
      bindA (stage env ''write-validation'' (run_validate env q sch existing ps')) (\<lambda>_. retA (Accepted ps'))))
      (attempt_passed env q sch existing sha)" for p
    by (intro quiet_bindA [OF quiet_downgrade [OF assms]] quiet_when quiet_accept)
  show ?thesis
    unfolding after_rejection_def
    using down by (auto simp: attempt_passed_def simp del: isinstance_cases intro!: quiet_intros)
qed

lemma quiet_attempt:
  "quiet A (organize_attempt env q sch vocab existing sha final b conv) (attempt_passed env q sch existing sha)"
  unfolding organize_attempt_def
proof (rule quiet_bindA [OF quiet_stage [OF quiet_run_organize]])
  fix x :: "pending_note list \<times> json list \<times> budget"
  obtain drafted ms b' where x: "x = (drafted, ms, b')" by (cases x)
  let ?A = "\<lambda>f. A f \<and> True"
  have "quiet ?A (bindA (stamp_all env q sch vocab sha drafted) (\<lambda>ps.
      tryA (bindA (stage env ''write-validation'' (run_validate env q sch existing ps)) (\<lambda>_. retA (Accepted ps)))
        (after_rejection env q sch existing final ps ms b'))) (attempt_passed env q sch existing sha)"
    by (intro quiet_bindA [OF quiet_stamp_all] quiet_when quiet_tryA)
      (auto intro: quiet_accept quiet_after_rejection)
  then show "quiet ?A (case x of (drafted, ms, b') \<Rightarrow>
      if drafted = [] then
        if final then raiseA (stage_failure ''llm'' [Lit ''organize produced no writes''] True)
        else retA (Again (ms @ [user_message no_writes_feedback]) b')
      else bindA (stamp_all env q sch vocab sha drafted) (\<lambda>ps.
        tryA (bindA (stage env ''write-validation'' (run_validate env q sch existing ps)) (\<lambda>_. retA (Accepted ps)))
          (after_rejection env q sch existing final ps ms b'))) (attempt_passed env q sch existing sha)"
    by (auto simp: x attempt_passed_def intro!: quiet_intros)
qed

lemma quiet_loop:
  "quiet A (organize_loop env q sch vocab existing sha cap ns b conv) (passed env q sch existing sha)"
proof (induction ns arbitrary: A b conv)
  case (Cons n ns)
  show ?case
    unfolding organize_loop.simps
  proof (rule quiet_bindA [OF quiet_attempt])
    fix x
    show "quiet (\<lambda>f. A f \<and> attempt_passed env q sch existing sha f x)
        (case x of Accepted ps \<Rightarrow> retA ps
         | Again ms b' \<Rightarrow> organize_loop env q sch vocab existing sha cap ns b' (Dialogue ms))
        (passed env q sch existing sha)"
      by (cases x) (auto simp: attempt_passed_def Cons.IH intro!: quiet_intros)
  qed
qed (simp add: quiet_intros)

lemma quiet_budget: "quiet A (organize_budget env q) (\<lambda>_ _. True)"
  by (auto simp: quiet_def organize_budget_def on_srv_def split: prod.split)

lemma quiet_organize:
  "quiet A (organize_and_validate env q sch vocab relevant reduced existing sha) (passed env q sch existing sha)"
  unfolding organize_and_validate_def
  by (rule quiet_bindA [where P = "\<lambda>_ _. True"], rule quiet_intros, simp,
      rule quiet_bindA [OF quiet_budget], rule quiet_loop)

text \<open>
  C2. Nothing reaches the disk on the way to a batch, and no batch gets past the gate. Whatever the
  model answers, over all attempts of the organize step and through the final link downgrade, the
  repository, the job store, the source index and the vocabulary cache stay as they are; and if the
  step returns a batch, the validator accepts exactly that batch in the current vault, and every note
  of it carries valid frontmatter with at least one tag and the ingested source as its only source.
\<close>

theorem organize_gate:
  "case organize_and_validate env q sch vocab relevant reduced existing sha w of
     (r, w') \<Rightarrow> w_repo w' = w_repo w \<and> w_jobs w' = w_jobs w \<and> w_index w' = w_index w \<and> w_caches w' = w_caches w
       \<and> (case r of
            Inr ps \<Rightarrow> validate (val_env_of env q sch existing (fst (w_repo w))) ps = Inr ()
              \<and> list_all (\<lambda>n. case pn_frontmatter n of
                   Fm fm \<Rightarrow> sources fm = [sha] \<and> tags fm \<noteq> [] \<and> frontmatter_ok fm | _ \<Rightarrow> False) ps
          | Inl _ \<Rightarrow> True)"
proof -
  obtain r w' where o: "organize_and_validate env q sch vocab relevant reduced existing sha w = (r, w')"
    by (cases "organize_and_validate env q sch vocab relevant reduced existing sha w")
  have s: "stamped sha = (\<lambda>n. case pn_frontmatter n of
      Fm fm \<Rightarrow> sources fm = [sha] \<and> tags fm \<noteq> [] \<and> frontmatter_ok fm | _ \<Rightarrow> False)"
    by (simp add: fun_eq_iff stamped_def)
  from quietD [OF quiet_organize [where A = "\<lambda>_. True"] TrueI o] show ?thesis
    by (auto simp: o same_disk_def passed_def s split: sum.splits)
qed

end
