(* ===== verification/Frames.thy ===== *)
theory Frames
  imports Stages
begin

text \<open>
  What a step of a run may change, as a relation between the world before and the world after. The
  locale \<open>frame\<close> holds the rules for composing steps that stay within such a relation, and \<open>world_frame\<close>
  what they give for the steps of the pipeline when the relation watches only the job store and the source
  index: every stage up to an accepted batch stays within it. \<open>Pipeline\<close> and \<open>JobFrame\<close> interpret it.
\<close>

section \<open>Steps within a relation\<close>

text \<open>From a state that satisfies \<open>P\<close> the step ends within \<open>R\<close>, and its value, if it gives one, in \<open>Q\<close>.\<close>

definition acts :: "('s \<Rightarrow> bool) \<Rightarrow> ('s \<Rightarrow> 's \<Rightarrow> bool) \<Rightarrow> ('s, 'a) act \<Rightarrow> ('a \<Rightarrow> bool) \<Rightarrow> bool" where
  "acts P R m Q \<longleftrightarrow> (\<forall>s. P s \<longrightarrow> R s (snd (m s)) \<and> (\<forall>x. fst (m s) = Inr x \<longrightarrow> Q x))"

named_theorems acts_intros \<open>rules for composing steps\<close>

lemma actsI: "(\<And>s r s'. P s \<Longrightarrow> m s = (r, s') \<Longrightarrow> R s s' \<and> (\<forall>x. r = Inr x \<longrightarrow> Q x)) \<Longrightarrow> acts P R m Q"
  unfolding acts_def by (metis prod.collapse)

lemma actsD: "acts P R m Q \<Longrightarrow> P s \<Longrightarrow> m s = (r, s') \<Longrightarrow> R s s' \<and> (\<forall>x. r = Inr x \<longrightarrow> Q x)"
  unfolding acts_def by (metis fst_conv snd_conv)

lemma acts_any: "acts P R m Q \<Longrightarrow> acts P R m (\<lambda>_. True)"
  by (simp add: acts_def)

lemma acts_if [acts_intros]: "(b \<Longrightarrow> acts P R m Q) \<Longrightarrow> (\<not> b \<Longrightarrow> acts P R m' Q) \<Longrightarrow> acts P R (if b then m else m') Q"
  by simp

text \<open>An operation that looks at the state first.\<close>

lemma acts_at: "(\<And>s. acts P R (m s) Q) \<Longrightarrow> acts P R (\<lambda>s. m s s) Q"
  by (simp add: acts_def)

locale frame =
  fixes P :: "'s \<Rightarrow> bool" and R :: "'s \<Rightarrow> 's \<Rightarrow> bool"
  assumes R_refl: "P s \<Longrightarrow> R s s"
    and R_trans: "R s t \<Longrightarrow> R t u \<Longrightarrow> R s u"
    and R_keeps: "P s \<Longrightarrow> R s t \<Longrightarrow> P t"
begin

lemma acts_bindA:
  assumes m: "acts P R m V" and k: "\<And>x. V x \<Longrightarrow> acts P R (k x) Q"
  shows "acts P R (bindA m k) Q"
proof (rule actsI)
  fix s r s'
  assume p: "P s" and b: "bindA m k s = (r, s')"
  obtain x t where m1: "m s = (x, t)" by (cases "m s")
  note 1 = actsD [OF m p m1]
  show "R s s' \<and> (\<forall>x. r = Inr x \<longrightarrow> Q x)"
  proof (cases x)
    case (Inl e)
    with b m1 1 show ?thesis by (auto simp: bindA_def)
  next
    case (Inr y)
    from b m1 Inr have "k y t = (r, s')" by (simp add: bindA_def)
    with 1 Inr actsD [OF k] R_keeps [OF p] show ?thesis using R_trans by blast
  qed
qed

lemma acts_tryA [acts_intros]:
  assumes m: "acts P R m Q" and h: "\<And>e. acts P R (h e) Q"
  shows "acts P R (tryA m h) Q"
proof (rule actsI)
  fix s r s'
  assume p: "P s" and b: "tryA m h s = (r, s')"
  obtain x t where m1: "m s = (x, t)" by (cases "m s")
  note 1 = actsD [OF m p m1]
  show "R s s' \<and> (\<forall>x. r = Inr x \<longrightarrow> Q x)"
  proof (cases x)
    case (Inr y)
    with b m1 1 show ?thesis by (auto simp: tryA_def)
  next
    case (Inl e)
    from b m1 Inl have "h e t = (r, s')" by (simp add: tryA_def)
    with 1 actsD [OF h] R_keeps [OF p] show ?thesis using R_trans by blast
  qed
qed

text \<open>Without a condition on the value handed on.\<close>

lemma acts_then [acts_intros]:
  "acts P R m (\<lambda>_. True) \<Longrightarrow> (\<And>x. acts P R (k x) Q) \<Longrightarrow> acts P R (bindA m k) Q"
  by (rule acts_bindA)

lemma acts_value:
  "Q x \<Longrightarrow> acts P R (retA x) Q" "(\<And>x. r = Inr x \<Longrightarrow> Q x) \<Longrightarrow> acts P R (liftR r) Q"
  by (simp_all add: acts_def R_refl liftR_def)

lemma acts_basic [acts_intros]:
  "acts P R (retA x) (\<lambda>_. True)" "acts P R (raiseA e) Q" "acts P R (liftR r) (\<lambda>_. True)"
  by (simp_all add: acts_def R_refl liftR_def)

end

section \<open>Relations that watch jobs and index only\<close>

locale world_frame = frame P R for P :: "('x, 's) world \<Rightarrow> bool" and R :: "('x, 's) world \<Rightarrow> ('x, 's) world \<Rightarrow> bool" +
  assumes unwatched: "P w \<Longrightarrow> w_jobs w' = w_jobs w \<Longrightarrow> w_index w' = w_index w \<Longrightarrow> R w w'"
begin

lemma acts_still:
  assumes "\<And>w. w_jobs (snd (m w)) = w_jobs w \<and> w_index (snd (m w)) = w_index w"
  shows "acts P R m (\<lambda>_. True)"
  using assms by (simp add: acts_def unwatched)

lemma acts_on_repo [acts_intros]: "acts P R (on_repo a) (\<lambda>_. True)"
  by (rule acts_still) (simp add: on_repo_def split: prod.split)

lemma acts_quiet: "quiet (\<lambda>_. True) m Q \<Longrightarrow> acts P R m (\<lambda>_. True)"
  by (rule acts_still) (simp add: quiet_def same_disk_def)

lemma acts_stage [acts_intros]:
  assumes "acts P R m Q"
  shows "acts P R (stage env name m) Q"
proof (rule actsI)
  fix w :: "('x, 's) world" and r w'
  let ?w = "on_acc (\<lambda>a. a\<lparr>ac_current := name\<rparr>) (w\<lparr>w_srv := snd (en_mono env (w_srv w))\<rparr>)"
  assume p: "P w" and s: "stage env name m w = (r, w')"
  obtain x w1 where m: "m ?w = (x, w1)" by (cases "m ?w")
  have a: "R w ?w" by (rule unwatched [OF p]) (simp_all add: on_acc_def)
  note p1 = R_keeps [OF p a]
  note b = actsD [OF assms p1 m]
  then have "R w w1" using a R_trans by blast
  moreover have "x = r" "R w1 w'"
    using s m R_keeps [OF p1, of w1] b by (auto simp: stage_def Let_def on_acc_def intro!: unwatched split: prod.splits)
  ultimately show "R w w' \<and> (\<forall>x. r = Inr x \<longrightarrow> Q x)" using b R_trans by blast
qed

end

end
