(* ===== verification/Pipeline.thy ===== *)
theory Pipeline
  imports Frames
begin

text \<open>
  The ingest run (\<^verbatim>\<open>src/groundtruth/ingest/pipeline.py\<close>, \<open>IngestPipeline.run\<close> and \<open>_fail\<close>): the job
  record, the clean-tree check, deduplication, pre-sync, the stages of theory \<open>Stages\<close>, archive, notes,
  commit, index and push, and the two handlers with their rollback. Log lines are not modelled.

  Shown: a run that returns has stored a terminal record, and a failed one whose failure came after
  the tree was found clean leaves the working tree as \<open>HEAD\<close> has it; after a successful run the source
  index recognises the text; and a \<open>git status\<close> that fails makes the run reset a tree it never
  found clean.
\<close>

section \<open>The job record\<close>

definition save_job :: "('x, 's) env \<Rightarrow> job_record \<Rightarrow> (('x, 's) world, job_record) act" where
  "save_job env j w =
    (let (t, s) = en_now env (w_srv w); (r, d) = update_job (en_store env) t j (w_jobs w)
     in (r, w\<lparr>w_srv := s, w_jobs := d\<rparr>))"

definition open_job :: "('x, 's) env \<Rightarrow> ingest \<Rightarrow> (('x, 's) world, job_record) act" where
  "open_job env q w =
    (case load_job (w_jobs w) (in_job_id q) of
       Inl e \<Rightarrow> (Inl e, w)
     | Inr (Some j) \<Rightarrow> (Inr j, w)
     | Inr None \<Rightarrow>
         (let (t, s) = en_now env (w_srv w);
              (r, d) = create_job (en_store env) t (new_job (in_job_id q) (vault_name (in_vault q))) (w_jobs w)
          in (r, w\<lparr>w_srv := s, w_jobs := d\<rparr>)))"

text \<open>What happens before the handlers are in place.\<close>

definition begin_run :: "('x, 's) env \<Rightarrow> ingest \<Rightarrow> (('x, 's) world, pystr \<times> job_record) act" where
  "begin_run env q =
    bindA (liftR (content_hash (in_text q))) (\<lambda>sha.
    bindA (open_job env q) (\<lambda>j.
    bindA (liftR (bindR (utf8_encode (in_text q)) (\<lambda>bs.
      transitioned_to (j\<lparr>source_sha := Some sha, source_bytes := Some (int (length bs))\<rparr>) RUNNING))) (\<lambda>j'.
    bindA (save_job env j') (\<lambda>job. retA (sha, job)))))"

section \<open>Checks before the work\<close>

definition require_clean :: "('x, 's) env \<Rightarrow> ingest \<Rightarrow> (('x, 's) world, unit) act" where
  "require_clean env q =
    bindA (on_repo (is_clean (git_of env q))) (\<lambda>c.
    if c then retA ()
    else raiseA (stage_failure ''clean-tree''
      [Lit ''working tree is dirty; refusing to ingest ('', Txt [167], Lit ''7.1)''] False))"

definition pull :: "('x, 's) env \<Rightarrow> ingest \<Rightarrow> (('x, 's) world, unit) act" where
  "pull env q =
    tryA (on_repo (pull_ff_only (git_of env q)))
      (\<lambda>e. raiseA (if isinstance e GitConflictError then stage_failure ''pre-sync'' (emsg e) False else e))"

definition find_hit :: "ingest \<Rightarrow> (('x, 's) world, dedup_hit option) act" where
  "find_hit q w = (check_dedup (vault_name (in_vault q)) (in_text q) (w_index w), w)"

definition finish_deduped :: "('x, 's) env \<Rightarrow> job_record \<Rightarrow> dedup_hit \<Rightarrow> (('x, 's) world, job_record) act" where
  "finish_deduped env job h =
    bindA (liftR (transitioned_to ((mark_deduped job h)\<lparr>notes_updated := notes_touched (dh_prior h)\<rparr>) SUCCEEDED))
      (save_job env)"

section \<open>What the stages work from\<close>

definition read_schema :: "('x, 's) env \<Rightarrow> ingest \<Rightarrow> (('x, 's) world, schema) act" where
  "read_schema env q w = (load_schema (en_ucd env) (fst (w_repo w)) (in_root q), w)"

definition derive :: "('x, 's) env \<Rightarrow> ingest \<Rightarrow> (('x, 's) world, vocabulary) act" where
  "derive env q w =
    (case derive_vocabulary (en_note env) (git_of env q) (in_vault q) (vocab_max_bytes (in_limits q))
            (w_repo w, w_caches w) of
       (r, (rp, cs)) \<Rightarrow> (r, w\<lparr>w_repo := rp, w_caches := cs\<rparr>))"

definition existing_paths :: "('x, 's) env \<Rightarrow> ingest \<Rightarrow> (('x, 's) world, pystr list) act" where
  "existing_paths env q w =
    (bindR (list_notes (en_note env) (in_root q) (fst (w_repo w)) None) (\<lambda>ns. Inr (map note_path ns)), w)"

text \<open>From the pull to an accepted batch.\<close>

definition draft :: "('x, 's) env \<Rightarrow> ingest \<Rightarrow> pystr \<Rightarrow> (('x, 's) world, pending_note list) act" where
  "draft env q sha =
    bindA (if vc_auto_push (in_config q) then stage env ''pre-sync'' (pull env q) else retA ()) (\<lambda>_.
    bindA (read_schema env q) (\<lambda>sch.
    bindA (derive env q) (\<lambda>vocab.
    bindA (existing_paths env q) (\<lambda>existing.
    bindA (stage env ''retrieval'' (survey env q)) (\<lambda>relevant.
    bindA (stage env ''llm'' (reduce_step env q sch)) (\<lambda>reduced.
    organize_and_validate env q sch (render_vocabulary vocab) relevant reduced existing sha))))))"

section \<open>Publishing a batch\<close>

definition frontmatter_of :: "pending_note \<Rightarrow> frontmatter res" where
  "frontmatter_of n = (case pn_frontmatter n of Fm fm \<Rightarrow> Inr fm | _ \<Rightarrow> Inl (exc AssertionError []))"

definition note_of :: "pending_note \<Rightarrow> vault_note res" where
  "note_of n =
    bindR (frontmatter_of n) (\<lambda>fm.
    case pn_body n of
      JStr b \<Rightarrow> Inr \<lparr>note_path = pn_path n, note_frontmatter = fm, note_body = b\<rparr>
    | _ \<Rightarrow> Inl (exc PydanticValidationError [Lit ''Input should be a valid string'']))"

fun write_notes :: "('x, 's) env \<Rightarrow> ingest \<Rightarrow> pending_note list \<Rightarrow> (('x, 's) world, unit) act" where
  "write_notes env q [] = retA ()"
| "write_notes env q (n # ns) =
    bindA (liftR (note_of n)) (\<lambda>x.
    bindA (on_repo (on_fs (write_note (en_note env) (in_root q) x))) (\<lambda>_. write_notes env q ns))"

definition batch_tags :: "pending_note list \<Rightarrow> pystr list res" where
  "batch_tags ps = bindR (mapR frontmatter_of ps) (\<lambda>fms. Inr (sort (uniq (concat (map tags fms)))))"

definition new_paths :: "pending_note list \<Rightarrow> pystr list" where
  "new_paths ps = map pn_path (filter pn_is_new ps)"

definition updated_paths :: "pending_note list \<Rightarrow> pystr list" where
  "updated_paths ps = map pn_path (filter (\<lambda>n. \<not> pn_is_new n) ps)"

definition subject_line :: "pystr list \<Rightarrow> pystr list \<Rightarrow> pystr" where
  "subject_line new upd =
    (let names = map note_stem (new @ upd); head = join (lit '', '') (take 3 names) in
     if names = [] then lit ''no notes''
     else if length names \<le> 3 then head else head @ lit '' +'' @ str_int (int (length names) - 3))"

definition commit_text :: "('x, 's) env \<Rightarrow> ingest \<Rightarrow> pystr \<Rightarrow> pending_note list \<Rightarrow> pystr list \<Rightarrow> pystr" where
  "commit_text env q sha ps ts =
    format_commit_message (en_ucd env) (vault_name (in_vault q)) (subject_line (new_paths ps) (updated_paths ps))
      (map note_stem (new_paths ps)) (map note_stem (updated_paths ps)) ts sha (in_job_id q) (in_text q)"

text \<open>Archive, notes, commit, and the manifest's commit folded into the same commit.\<close>

definition commit_batch ::
  "('x, 's) env \<Rightarrow> ingest \<Rightarrow> pystr \<Rightarrow> pending_note list \<Rightarrow> (('x, 's) world, pystr) act" where
  "commit_batch env q sha ps =
    (let g = git_of env q; root = repo_root (in_vault q) in
     bindA (liftR (batch_tags ps)) (\<lambda>ts.
     bindA (on_repo (on_fs (write_archive root sha (in_text q) (in_source_label q) (in_job_id q) (in_today q)
              (new_paths ps @ updated_paths ps) (vc_raw_archive (in_config q))))) (\<lambda>archive.
     bindA (write_notes env q ps) (\<lambda>_.
     bindA (on_repo (git_add g [])) (\<lambda>_.
     bindA (on_repo (git_commit g (commit_text env q sha ps ts))) (\<lambda>c.
     case archive of
       None \<Rightarrow> retA c
     | Some _ \<Rightarrow>
         bindA (on_repo (on_fs (set_commit_sha (en_loads env) root sha c))) (\<lambda>_.
         bindA (on_repo (git_add g [])) (\<lambda>_.
         on_repo (git_amend g))))))))) "

definition record_source ::
  "ingest \<Rightarrow> pystr \<Rightarrow> pending_note list \<Rightarrow> pystr \<Rightarrow> (('x, 's) world, unit) act" where
  "record_source q sha ps c =
    bindA (liftR (mk_source_record \<lparr>src_sha256 = sha, src_job_id = in_job_id q, src_commit_sha = c,
      notes_touched = new_paths ps @ updated_paths ps, ingested_at = in_today q,
      source_label = Some (in_source_label q)\<rparr>)) (\<lambda>r.
    on_index (index_put (vault_name (in_vault q)) r))"

text \<open>A failed push is reported in the record of a job that succeeded.\<close>

definition push :: "('x, 's) env \<Rightarrow> ingest \<Rightarrow> (('x, 's) world, message option) act" where
  "push env q =
    (if vc_auto_push (in_config q)
     then tryA (bindA (on_repo (git_push (git_of env q) [])) (\<lambda>_. retA None))
            (\<lambda>e. if isinstance e GitPushError then retA (Some (emsg e)) else raiseA e)
     else retA None)"

definition finished ::
  "job_record \<Rightarrow> pystr \<Rightarrow> pending_note list \<Rightarrow> message option \<Rightarrow> accum \<Rightarrow> job_record" where
  "finished job c ps err a = job\<lparr>commit_sha := Some c, notes_created := new_paths ps,
     notes_updated := updated_paths ps, token_usage := ac_tokens a, stage_timings := ac_timings a,
     link_downgrades := ac_downgrades a, error := err\<rparr>"

definition finish :: "('x, 's) env \<Rightarrow> job_record \<Rightarrow> pystr \<Rightarrow> pending_note list \<Rightarrow> message option \<Rightarrow>
    (('x, 's) world, job_record) act" where
  "finish env job c ps err w =
    bindA (liftR (transitioned_to (finished job c ps err (w_acc w)) SUCCEEDED)) (save_job env) w"

definition publish ::
  "('x, 's) env \<Rightarrow> ingest \<Rightarrow> pystr \<Rightarrow> job_record \<Rightarrow> pending_note list \<Rightarrow> (('x, 's) world, job_record) act" where
  "publish env q sha job ps =
    bindA (commit_batch env q sha ps) (\<lambda>c.
    bindA (record_source q sha ps c) (\<lambda>_.
    bindA (push env q) (\<lambda>err. finish env job c ps err)))"

section \<open>The run\<close>

definition ingest_body :: "('x, 's) env \<Rightarrow> ingest \<Rightarrow> pystr \<Rightarrow> job_record \<Rightarrow> (('x, 's) world, job_record) act" where
  "ingest_body env q sha job =
    bindA (stage env ''clean-tree'' (require_clean env q)) (\<lambda>_.
    bindA (find_hit q) (\<lambda>hit.
    case hit of
      Some h \<Rightarrow> finish_deduped env job h
    | None \<Rightarrow> bindA (draft env q sha) (publish env q sha job)))"

definition failed_record :: "job_record \<Rightarrow> string \<Rightarrow> message \<Rightarrow> accum \<Rightarrow> job_record" where
  "failed_record job st m a = job\<lparr>failure_stage := Some st, error := Some m, stage_timings := ac_timings a,
     token_usage := ac_tokens a\<rparr>"

definition fail_job ::
  "('x, 's) env \<Rightarrow> ingest \<Rightarrow> job_record \<Rightarrow> string \<Rightarrow> message \<Rightarrow> bool \<Rightarrow> (('x, 's) world, job_record) act" where
  "fail_job env q job st m back =
    bindA (if back then on_repo (rollback (git_of env q)) else retA ()) (\<lambda>_ w.
    bindA (liftR (transitioned_to (failed_record job st m (w_acc w)) FAILED)) (save_job env) w)"

definition wants_rollback :: "exn \<Rightarrow> bool" where
  "wants_rollback e = (case eattr e of RollbackAttr b \<Rightarrow> b | _ \<Rightarrow> True)"

definition on_error ::
  "('x, 's) env \<Rightarrow> ingest \<Rightarrow> job_record \<Rightarrow> exn \<Rightarrow> (('x, 's) world, job_record) act" where
  "on_error env q job e w =
    (if isinstance e StageFailureError
     then fail_job env q job (case estage e of Some st \<Rightarrow> st | None \<Rightarrow> []) (emsg e) (wants_rollback e) w
     else if isinstance e GroundtruthError then
       (if is_transient e then bindA (on_repo (rollback (git_of env q))) (\<lambda>_. raiseA e) w
        else fail_job env q job (ac_current (w_acc w)) (emsg e) True w)
     else raiseA e w)"

definition new_accum :: accum where
  "new_accum = \<lparr>ac_tokens = [], ac_timings = [], ac_downgrades = [], ac_current = ''init''\<rparr>"

definition run_ingest :: "('x, 's) env \<Rightarrow> ingest \<Rightarrow> (('x, 's) world, job_record) act" where
  "run_ingest env q w =
    bindA (begin_run env q) (\<lambda>(sha, job). tryA (ingest_body env q sha job) (on_error env q job))
      (w\<lparr>w_acc := new_accum\<rparr>)"

section \<open>Saving and failing\<close>

text \<open>What a save that succeeds leaves: the record, stored, and nothing else changed.\<close>

lemma save_job_Inr:
  assumes "save_job env j w = (Inr r, w')"
  shows "job_state r = job_state j" "failure_stage r = failure_stage j" "error r = error j" "commit_sha r = commit_sha j"
    "load_job (w_jobs w') (job_id r) = Inr (Some r)" "w_repo w' = w_repo w" "w_index w' = w_index w"
    "token_usage r = token_usage j" "w_acc w' = w_acc w"
proof -
  obtain t s where n: "en_now env (w_srv w) = (t, s)" by (cases "en_now env (w_srv w)")
  obtain x d where u: "update_job (en_store env) t j (w_jobs w) = (x, d)"
    by (cases "update_job (en_store env) t j (w_jobs w)")
  from assms have x: "x = Inr r" and w': "w' = w\<lparr>w_srv := s, w_jobs := d\<rparr>"
    by (auto simp: save_job_def n u)
  from u [unfolded x update_job_Inr] obtain old where old: "r = stamp t old j" "storable (en_store env) r"
      "d = (w_jobs w)\<lparr>job_files := dict_set (job_id j) (Stored r, t) (job_files (w_jobs w))\<rparr>" by blast
  show "job_state r = job_state j" "failure_stage r = failure_stage j" "error r = error j" "commit_sha r = commit_sha j"
    "token_usage r = token_usage j"
    by (simp_all add: old(1) stamp_def)
  have "job_id j = job_id r" by (simp add: old(1))
  with old(2,3) show "load_job (w_jobs w') (job_id r) = Inr (Some r)"
    by (simp add: w' load_job_def check_id_def storable_def store_simps)
  show "w_repo w' = w_repo w" "w_index w' = w_index w" "w_acc w' = w_acc w" by (simp_all add: w')
qed

lemma save_job_repo: "w_repo (snd (save_job env j w)) = w_repo w" "w_index (snd (save_job env j w)) = w_index w"
  "w_acc (snd (save_job env j w)) = w_acc w"
  by (auto simp: save_job_def split: prod.split)

lemma save_transition_Inr:
  assumes "bindA (liftR (transitioned_to j st)) (save_job env) w = (Inr r, w')"
  shows "job_state r = st" "failure_stage r = failure_stage j" "error r = error j" "commit_sha r = commit_sha j"
    "load_job (w_jobs w') (job_id r) = Inr (Some r)" "w_repo w' = w_repo w" "w_index w' = w_index w"
    "token_usage r = token_usage j" "w_acc w' = w_acc w"
proof -
  from assms have s: "save_job env (j\<lparr>job_state := st\<rparr>) w = (Inr r, w')"
    by (auto simp: bindA_ok liftR_def)
  show "job_state r = st" "failure_stage r = failure_stage j" "error r = error j" "commit_sha r = commit_sha j"
    "load_job (w_jobs w') (job_id r) = Inr (Some r)" "w_repo w' = w_repo w" "w_index w' = w_index w"
    "token_usage r = token_usage j" "w_acc w' = w_acc w"
    using save_job_Inr [OF s] by simp_all
qed

lemma save_transition_repo:
  "bindA (liftR (transitioned_to j st)) (save_job env) w = (x, w') \<Longrightarrow>
    w_repo w' = w_repo w \<and> w_index w' = w_index w \<and> w_acc w' = w_acc w"
  using save_job_repo [of env "j\<lparr>job_state := st\<rparr>" w]
  by (auto simp: bindA_def liftR_def transitioned_to_def simp del: transitioned_to_eq_Inr split: if_splits)

text \<open>\<open>_fail\<close>: the record is stored as failed; the repository is rolled back when asked to.\<close>

lemma fail_job_Inr:
  assumes "fail_job env q job st m back w = (Inr r, w')"
  shows "job_state r = FAILED" "failure_stage r = Some st" "error r = Some m"
    "load_job (w_jobs w') (job_id r) = Inr (Some r)"
    "if back then rollback (git_of env q) (w_repo w) = (Inr (), w_repo w') else w_repo w' = w_repo w"
proof -
  from assms obtain w1 where
    1: "(if back then on_repo (rollback (git_of env q)) else retA ()) w = (Inr (), w1)"
    and 2: "bindA (liftR (transitioned_to (failed_record job st m (w_acc w1)) FAILED)) (save_job env) w1 = (Inr r, w')"
    using bindA_ok [THEN iffD1, OF assms [unfolded fail_job_def]] by auto
  note s = save_transition_Inr [OF 2]
  show "job_state r = FAILED" "failure_stage r = Some st" "error r = Some m"
    "load_job (w_jobs w') (job_id r) = Inr (Some r)"
    using s by (simp_all add: failed_record_def)
  show "if back then rollback (git_of env q) (w_repo w) = (Inr (), w_repo w') else w_repo w' = w_repo w"
    using 1 s(6) by (auto simp: on_repo_def split: if_splits prod.splits)
qed

section \<open>The source index\<close>

text \<open>The steps of a run, but the saves and \<open>record_source\<close>, change neither jobs nor index.\<close>

context world_frame
begin

lemma acts_reads [acts_intros]:
  "acts P R (find_hit q) (\<lambda>_. True)" "acts P R (read_schema env q) (\<lambda>_. True)"
  "acts P R (existing_paths env q) (\<lambda>_. True)" "acts P R (derive env q) (\<lambda>_. True)"
  by (rule acts_still; simp add: find_hit_def read_schema_def existing_paths_def derive_def split: prod.split)+

lemma acts_draft: "acts P R (draft env q sha) (\<lambda>_. True)"
  unfolding draft_def pull_def
  by (intro acts_intros acts_quiet [OF quiet_survey] acts_quiet [OF quiet_reduce]
      acts_quiet [OF quiet_organize])

lemma acts_write_notes: "acts P R (write_notes env q ps) (\<lambda>_. True)"
  by (induction ps) (simp_all only: write_notes.simps acts_intros)

lemma acts_commit: "acts P R (commit_batch env q sha ps) (\<lambda>_. True)"
  unfolding commit_batch_def Let_def
  by (intro acts_intros acts_write_notes) (simp add: acts_intros split: option.split)

lemma acts_push: "acts P R (push env q) (\<lambda>_. True)"
  unfolding push_def by (intro acts_intros)

lemma acts_require: "acts P R (require_clean env q) (\<lambda>_. True)"
  unfolding require_clean_def by (intro acts_intros)

end

definition same_index :: "('x, 's) world \<Rightarrow> ('x, 's) world \<Rightarrow> bool" where
  "same_index w w' \<longleftrightarrow> w_index w' = w_index w"

interpretation ix: world_frame "\<lambda>_. True" same_index
  by unfold_locales (simp_all add: same_index_def)

lemma index_kept: "acts (\<lambda>_. True) same_index m Q \<Longrightarrow> m w = (r, w') \<Longrightarrow> w_index w' = w_index w"
  using actsD [of "\<lambda>_. True" same_index m Q] by (simp add: same_index_def)

text \<open>The accepted source is found again by its text.\<close>

lemma record_source_Inr:
  assumes "index_wf (w_index w)" and "content_hash (in_text q) = Inr sha"
    and "record_source q sha ps c w = (Inr u, w')"
  shows "\<exists>h. check_dedup (vault_name (in_vault q)) (in_text q) (w_index w') = Inr (Some h)
    \<and> src_commit_sha (dh_prior h) = c"
proof -
  define r where "r = \<lparr>src_sha256 = sha, src_job_id = in_job_id q, src_commit_sha = c,
      notes_touched = new_paths ps @ updated_paths ps, ingested_at = in_today q,
      source_label = Some (in_source_label q)\<rparr>"
  have ok: "mk_source_record r = Inr r"
    using assms(3) by (auto simp: record_source_def r_def [symmetric] bindA_ok liftR_def mk_source_record_ok)
  obtain d where d: "index_read (w_index w) (vault_name (in_vault q)) = Inr d" using index_wf_read [OF assms(1)] by blast
  have "w_index w' = index_write (vault_name (in_vault q)) (dict_set sha r d) (w_index w)"
    using assms(3) by (auto simp: record_source_def r_def [symmetric] bindA_ok liftR_def ok on_index_def
        index_put_spec [OF d]) (simp add: r_def)
  then have "index_get (w_index w') (vault_name (in_vault q)) sha = Inr (Some r)"
    by (simp add: index_get_def idx.peek_replace store_simps ok)
  then show ?thesis by (simp add: check_dedup_def assms(2) r_def)
qed

definition recognised :: "ingest \<Rightarrow> job_record \<Rightarrow> ('x, 's) world \<Rightarrow> bool" where
  "recognised q r w \<longleftrightarrow> (\<exists>h. check_dedup (vault_name (in_vault q)) (in_text q) (w_index w) = Inr (Some h)
     \<and> commit_sha r = Some (src_commit_sha (dh_prior h)))"

lemma publish_Inr:
  assumes "publish env q sha job ps w = (Inr r, w')"
  shows "job_state r = SUCCEEDED" "load_job (w_jobs w') (job_id r) = Inr (Some r)"
    "index_wf (w_index w) \<Longrightarrow> content_hash (in_text q) = Inr sha \<Longrightarrow> recognised q r w'"
proof -
  from assms obtain c w1 w2 err w3 where
    1: "commit_batch env q sha ps w = (Inr c, w1)" and 2: "record_source q sha ps c w1 = (Inr (), w2)"
    and 3: "push env q w2 = (Inr err, w3)" and 4: "finish env job c ps err w3 = (Inr r, w')"
    unfolding publish_def by (auto simp: bindA_ok [of "commit_batch _ _ _ _"] bindA_ok [of "record_source _ _ _ _"]
        bindA_ok [of "push _ _"])
  note s = save_transition_Inr [OF 4 [unfolded finish_def]]
  show "job_state r = SUCCEEDED" "load_job (w_jobs w') (job_id r) = Inr (Some r)" using s by simp_all
  assume wf: "index_wf (w_index w)" and h: "content_hash (in_text q) = Inr sha"
  have "index_wf (w_index w1)" using wf index_kept [OF ix.acts_commit 1] by simp
  from record_source_Inr [OF this h 2] show "recognised q r w'"
    using s(4,7) index_kept [OF ix.acts_push 3] by (auto simp: recognised_def finished_def)
qed

lemma finish_deduped_Inr:
  assumes "finish_deduped env job h w = (Inr r, w')"
    and "check_dedup (vault_name (in_vault q)) (in_text q) (w_index w) = Inr (Some h)"
  shows "job_state r = SUCCEEDED" "load_job (w_jobs w') (job_id r) = Inr (Some r)" "recognised q r w'"
  using save_transition_Inr [OF assms(1) [unfolded finish_deduped_def]] assms(2)
  by (simp_all add: recognised_def mark_deduped_def)

lemma ingest_body_Inr:
  assumes "ingest_body env q sha job w = (Inr r, w')"
  shows "job_state r = SUCCEEDED \<and> load_job (w_jobs w') (job_id r) = Inr (Some r)
    \<and> (index_wf (w_index w) \<and> content_hash (in_text q) = Inr sha \<longrightarrow> recognised q r w')"
proof -
  from assms obtain w1 hit w2 where
    1: "stage env ''clean-tree'' (require_clean env q) w = (Inr (), w1)" and 2: "find_hit q w1 = (Inr hit, w2)"
    and 3: "(case hit of Some h \<Rightarrow> finish_deduped env job h
             | None \<Rightarrow> bindA (draft env q sha) (publish env q sha job)) w2 = (Inr r, w')"
    unfolding ingest_body_def by (auto simp: bindA_ok [of "stage _ _ _"] bindA_ok [of "find_hit _"])
  have i1: "w_index w1 = w_index w" by (rule index_kept [OF ix.acts_stage [OF ix.acts_require] 1])
  from 2 have f: "check_dedup (vault_name (in_vault q)) (in_text q) (w_index w2) = Inr hit" "w_index w2 = w_index w1"
    by (auto simp: find_hit_def)
  show ?thesis
  proof (cases hit)
    case None
    with 3 obtain ps w3 where d: "draft env q sha w2 = (Inr ps, w3)" and p: "publish env q sha job ps w3 = (Inr r, w')"
      by (auto simp: bindA_ok [of "draft _ _ _"])
    from publish_Inr [OF p] index_kept [OF ix.acts_draft d] i1 f(2) show ?thesis by auto
  next
    case (Some h)
    with 3 f have "finish_deduped env job h w2 = (Inr r, w')"
      "check_dedup (vault_name (in_vault q)) (in_text q) (w_index w2) = Inr (Some h)" by simp_all
    from finish_deduped_Inr [OF this] show ?thesis by simp
  qed
qed

lemma begin_run_Inr:
  assumes "begin_run env q w = (Inr (sha, job), w')"
  shows "content_hash (in_text q) = Inr sha" "w_index w' = w_index w" "w_repo w' = w_repo w"
    "w_acc w' = w_acc w"
proof -
  have o: "w_index v' = w_index v \<and> w_repo v' = w_repo v \<and> w_acc v' = w_acc v" if "open_job env q v = (x, v')" for v x v'
    using that by (auto simp: open_job_def split: sum.splits option.splits prod.splits)
  from assms obtain j w1 j' where h: "content_hash (in_text q) = Inr sha" and 1: "open_job env q w = (Inr j, w1)"
    and 2: "save_job env j' w1 = (Inr job, w')"
    by (auto simp: begin_run_def bindA_ok liftR_def)
  show "content_hash (in_text q) = Inr sha" "w_index w' = w_index w" "w_repo w' = w_repo w"
    "w_acc w' = w_acc w"
    using h o [OF 1] save_job_Inr(6,7,9) [OF 2] by simp_all
qed

section \<open>What a run returns\<close>

lemma on_error_Inr:
  assumes "on_error env q job e w = (Inr r, w')"
  shows "job_state r = FAILED \<and> error r = Some (emsg e) \<and> load_job (w_jobs w') (job_id r) = Inr (Some r)
    \<and> (if isinstance e StageFailureError \<and> \<not> wants_rollback e then w_repo w' = w_repo w
       else rollback (git_of env q) (w_repo w) = (Inr (), w_repo w'))"
proof -
  from assms consider
      st where "isinstance e StageFailureError" "fail_job env q job st (emsg e) (wants_rollback e) w = (Inr r, w')"
    | st where "\<not> isinstance e StageFailureError" "fail_job env q job st (emsg e) True w = (Inr r, w')"
    by (auto simp: on_error_def bindA_ok simp del: isinstance_cases split: if_splits)
  then show ?thesis
  proof cases
    case (1 st)
    with fail_job_Inr [OF 1(2)] show ?thesis by (simp split: if_splits)
  next
    case (2 st)
    with fail_job_Inr [OF 2(2)] show ?thesis by simp
  qed
qed

text \<open>
  C3. What a run that returns has done. Its record is terminal and is what the job store now holds
  under its id. If the job succeeded, on a source index that was well formed, the index now
  recognises the ingested text, and the record carries the commit the index names, so that the same
  text is never ingested twice.
\<close>

theorem run_returns:
  "case run_ingest env q w of
     (Inr r, w') \<Rightarrow> terminal (job_state r) \<and> load_job (w_jobs w') (job_id r) = Inr (Some r)
       \<and> (if job_state r = SUCCEEDED \<and> index_wf (w_index w)
          then \<exists>h. check_dedup (vault_name (in_vault q)) (in_text q) (w_index w') = Inr (Some h)
                 \<and> commit_sha r = Some (src_commit_sha (dh_prior h))
          else True)
   | (Inl _, _) \<Rightarrow> True"
proof -
  obtain x w' where run: "run_ingest env q w = (x, w')" by (cases "run_ingest env q w")
  show ?thesis
  proof (cases x)
    case (Inr r)
    from run Inr obtain sha job w1 where
      b: "begin_run env q (w\<lparr>w_acc := new_accum\<rparr>) = (Inr (sha, job), w1)"
      and t: "tryA (ingest_body env q sha job) (on_error env q job) w1 = (Inr r, w')"
      unfolding run_ingest_def by (auto simp: bindA_ok)
    note bi = begin_run_Inr [OF b]
    obtain y w2 where body: "ingest_body env q sha job w1 = (y, w2)" by (cases "ingest_body env q sha job w1")
    show ?thesis
    proof (cases y)
      case (Inl e)
      with t body have "on_error env q job e w2 = (Inr r, w')" by (simp add: tryA_def)
      from on_error_Inr [OF this] run Inr show ?thesis by simp
    next
      case r: (Inr r')
      with t body have "ingest_body env q sha job w1 = (Inr r, w')" by (simp add: tryA_def)
      from ingest_body_Inr [OF this] bi run Inr show ?thesis by (auto simp: recognised_def)
    qed
  qed (simp add: run)
qed

section \<open>What a failure leaves\<close>

lemma stage_failure_iff: "isinstance e StageFailureError \<longleftrightarrow> ecls e = StageFailureError"
  by (cases "ecls e"; simp add: isinstance_def numeral_eq_Suc)

lemma stage_failure_class: "isinstance e StageFailureError \<Longrightarrow> \<not> isinstance e GroundtruthError"
  by (simp add: stage_failure_iff)

text \<open>Which of the handlers takes an exception, and what it does to the repository.\<close>

lemma fail_job_repo: "fail_job env q job st m True w = (x, w') \<Longrightarrow>
    (case rollback (git_of env q) (w_repo w) of
       (Inr _, rp) \<Rightarrow> w_repo w' = rp \<and> (case x of Inr r \<Rightarrow> job_state r = FAILED \<and> error r = Some m | Inl _ \<Rightarrow> True)
     | (Inl e, rp) \<Rightarrow> x = Inl e \<and> w_repo w' = rp)"
proof -
  assume f: "fail_job env q job st m True w = (x, w')"
  obtain y rp where r: "rollback (git_of env q) (w_repo w) = (y, rp)" by (cases "rollback (git_of env q) (w_repo w)")
  show ?thesis
  proof (cases y)
    case (Inl e)
    with f r show ?thesis by (auto simp: fail_job_def bindA_def on_repo_def)
  next
    case (Inr u)
    let ?w = "w\<lparr>w_repo := rp\<rparr>"
    have o: "(if True then on_repo (rollback (git_of env q)) else retA ()) w = (Inr u, ?w)"
        by (simp add: on_repo_def r Inr)
    have s: "bindA (liftR (transitioned_to (failed_record job st m (w_acc w)) FAILED)) (save_job env) ?w = (x, w')"
      using f unfolding fail_job_def
      by (subst (asm) bindA_Inr [where m = "if True then on_repo (rollback (git_of env q)) else retA ()" and s = w,
            OF o]) simp
    then have "w_repo w' = rp" using save_transition_repo by fastforce
    then show ?thesis
      using save_transition_Inr(1,3) [of "failed_record job st m (w_acc w)" FAILED env ?w _ w'] s r Inr
      by (auto simp: failed_record_def split: sum.split)
  qed
qed

lemma fail_job_keeps: "fail_job env q job st m False w = (x, w') \<Longrightarrow>
    w_repo w' = w_repo w \<and> w_index w' = w_index w \<and> w_acc w' = w_acc w
    \<and> (case x of Inr r \<Rightarrow> job_state r = FAILED \<and> failure_stage r = Some st \<and> token_usage r = ac_tokens (w_acc w)
         | Inl _ \<Rightarrow> True)"
proof -
  assume f: "fail_job env q job st m False w = (x, w')"
  then have s: "bindA (liftR (transitioned_to (failed_record job st m (w_acc w)) FAILED)) (save_job env) w = (x, w')"
    unfolding fail_job_def by (subst (asm) bindA_Inr [where x = "()" and s' = w]) simp_all
  with save_transition_repo [OF s]
    save_transition_Inr(1,2,8) [of "failed_record job st m (w_acc w)" FAILED env w _ w'] show ?thesis
    by (auto simp: failed_record_def split: sum.split)
qed

text \<open>
  C1. How a run fails. Once the job is running, an exception of the body is handled in one of three
  ways. A stage failure that forbids the rollback leaves the repository as it is. An exception that is
  neither a stage failure nor one of the program's own classes leaves \<open>run\<close> as it is: no rollback,
  no failed record. In every other case the repository is rolled back; when git succeeds, the working
  tree is again that of an unchanged \<open>HEAD\<close>, a transient exception is raised again for the worker to
  retry, and any other one ends, if the record can be saved, in a failed record with its message.
\<close>

theorem failed_run:
  assumes "git_behaves (git_of env q) ignored head tracked"
    and "begin_run env q (w\<lparr>w_acc := new_accum\<rparr>) = (Inr (sha, job), w1)"
    and "ingest_body env q sha job w1 = (Inl e, w2)"
  shows "case run_ingest env q w of (x, w') \<Rightarrow>
    if isinstance e StageFailureError \<and> \<not> wants_rollback e then w_repo w' = w_repo w2
    else if \<not> isinstance e StageFailureError \<and> \<not> isinstance e GroundtruthError then x = Inl e \<and> w' = w2
    else case rollback (git_of env q) (w_repo w2) of
           (Inl e', rp) \<Rightarrow> x = Inl e' \<and> w_repo w' = rp
         | (Inr _, rp) \<Rightarrow> w_repo w' = rp
             \<and> view ignored (repo_root (in_vault q)) (fst rp) = head (snd rp) \<and> head (snd rp) = head (snd (w_repo w2))
             \<and> (if isinstance e GroundtruthError \<and> is_transient e then x = Inl e
                else case x of Inr r \<Rightarrow> job_state r = FAILED \<and> error r = Some (emsg e) | Inl _ \<Rightarrow> True)"
proof -
  obtain x w' where h: "on_error env q job e w2 = (x, w')" by (cases "on_error env q job e w2")
  have run: "run_ingest env q w = (x, w')"
    by (simp add: run_ingest_def bindA_def [of "begin_run env q"] assms(2) tryA_def assms(3) h)
  obtain y rp where r: "rollback (git_of env q) (w_repo w2) = (y, rp)" by (cases "rollback (git_of env q) (w_repo w2)")
  have tree: "view ignored (repo_root (in_vault q)) (fst rp) = head (snd rp) \<and> head (snd rp) = head (snd (w_repo w2))"
    if "y = Inr u" for u
    using rollback_Inr [OF assms(1), of "fst (w_repo w2)" "snd (w_repo w2)" u "fst rp" "snd rp"] that r
    by (simp add: git_of_def)
  consider (keep) st where "isinstance e StageFailureError" "\<not> wants_rollback e"
        "fail_job env q job st (emsg e) False w2 = (x, w')"
    | (fail) st where "isinstance e StageFailureError \<and> wants_rollback e \<or>
          \<not> isinstance e StageFailureError \<and> isinstance e GroundtruthError \<and> \<not> is_transient e"
        "fail_job env q job st (emsg e) True w2 = (x, w')"
    | (retry) "\<not> isinstance e StageFailureError" "isinstance e GroundtruthError" "is_transient e"
        "bindA (on_repo (rollback (git_of env q))) (\<lambda>_. raiseA e) w2 = (x, w')"
    | (escape) "\<not> isinstance e StageFailureError" "\<not> isinstance e GroundtruthError" "x = Inl e" "w' = w2"
    using h unfolding on_error_def
    by (cases "wants_rollback e") (auto simp del: isinstance_cases split: if_split_asm)
  then show ?thesis
  proof cases
    case keep
    with fail_job_keeps [OF keep(3)] run show ?thesis by simp
  next
    case fail
    have "\<not> (isinstance e GroundtruthError \<and> is_transient e)"
      using fail(1) stage_failure_class by blast
    with fail_job_repo [OF fail(2)] fail(1) run r tree show ?thesis
      by (auto simp del: isinstance_cases split: sum.splits)
  next
    case retry
    with run r tree show ?thesis
      by (auto simp: bindA_def on_repo_def simp del: isinstance_cases split: sum.splits)
  next
    case escape
    with run show ?thesis by simp
  qed
qed

text \<open>
  C7. A dirty tree is refused and left alone. When the clean-tree check answers that the tree is not
  clean, the run changes nothing in the repository after the check, nor in the source index and the
  vocabulary cache, asks no model for anything, and ends, if the record can be saved, in a failed
  record of stage \<open>clean-tree\<close> without tokens.
\<close>

theorem dirty_tree_refused:
  assumes b: "begin_run env q (w\<lparr>w_acc := new_accum\<rparr>) = (Inr (sha, job), w1)"
    and c: "is_clean (git_of env q) (w_repo w1) = (Inr False, rp)"
  shows "case run_ingest env q w of (x, w') \<Rightarrow> w_repo w' = rp \<and> w_index w' = w_index w \<and> ac_tokens (w_acc w') = []
    \<and> (case x of
         Inr r \<Rightarrow> job_state r = FAILED \<and> failure_stage r = Some ''clean-tree'' \<and> token_usage r = [] | Inl _ \<Rightarrow> True)"
proof -
  define e where "e = stage_failure ''clean-tree''
      [Lit ''working tree is dirty; refusing to ingest ('', Txt [167], Lit ''7.1)''] False"
  have sf: "isinstance e StageFailureError" by (simp add: e_def stage_failure_def isinstance_def numeral_eq_Suc)
  have acc: "w_acc w1 = new_accum" using begin_run_Inr(4) [OF b] by simp
  obtain t0 s0 t1 s1 where m: "en_mono env (w_srv w1) = (t0, s0)" "en_mono env s0 = (t1, s1)"
    by (metis surj_pair)
  obtain w2 where st: "stage env ''clean-tree'' (require_clean env q) w1 = (Inl e, w2)"
    and w2: "w_repo w2 = rp" "w_index w2 = w_index w1" "ac_tokens (w_acc w2) = []"
    using c acc m
    by (auto simp: stage_def require_clean_def on_repo_def on_acc_def bindA_def e_def add_timing_def new_accum_def)
  have body: "ingest_body env q sha job w1 = (Inl e, w2)"
    by (simp add: ingest_body_def bindA_def [of "stage env ''clean-tree'' (require_clean env q)"] st)
  obtain x w' where h: "fail_job env q job ''clean-tree'' (emsg e) False w2 = (x, w')"
    by (cases "fail_job env q job ''clean-tree'' (emsg e) False w2")
  have "on_error env q job e w2 = (x, w')"
    using h sf by (simp add: on_error_def e_def wants_rollback_def stage_failure_def del: isinstance_cases)
  then have run: "run_ingest env q w = (x, w')"
    by (simp add: run_ingest_def bindA_def [of "begin_run env q"] b tryA_def body)
  show ?thesis
    using fail_job_keeps [OF h] w2 begin_run_Inr(2) [OF b] run by (auto split: sum.splits)
qed

section \<open>Examples\<close>

text \<open>A vault with an uncommitted note, under the git of theory \<open>Git\<close> and under one whose
  \<open>status\<close> command fails.\<close>

definition demo_dirty :: fs where
  "demo_dirty = put_file [lit ''v'', lit ''b.md''] (lit ''unsaved'') demo_fs"

definition broken_git :: "path \<Rightarrow> pystr list \<Rightarrow> fs repo_state \<Rightarrow> git_reply \<times> fs repo_state" where
  "broken_git d args s =
    (if args = map lit [''status'', ''--porcelain''] then (Exited 128 [] (lit ''fatal''), s) else snap_git d args s)"

definition demo_pipe :: "(path \<Rightarrow> pystr list \<Rightarrow> fs repo_state \<Rightarrow> git_reply \<times> fs repo_state) \<Rightarrow> (fs, unit) env" where
  "demo_pipe git = \<lparr>en_store = demo_cfg, en_now = (\<lambda>s. (5, s)), en_mono = (\<lambda>s. (0, s)), en_note = demo_env,
     en_git = \<lparr>ge_ucd = ascii_ucd, ge_git = git, ge_path = []\<rparr>,
     en_model = (\<lambda>_ _ _ s. (Inl (exc ReadTimeoutError []), s)), en_compile = (\<lambda>_. Inr (\<lambda>_. False)),
     en_loads = (\<lambda>_. None), en_templates = (\<lambda>_. Inr [])\<rparr>"

definition demo_ingest :: ingest where
  "demo_ingest = \<lparr>in_job_id = lit ''a1'', in_vault = \<lparr>vault_name = lit ''notes'', repo_root = [lit ''v'']\<rparr>,
     in_text = [], in_source_label = [],
     in_config = \<lparr>vc_raw_archive = False, vc_auto_push = False, vc_allow_schema_writes = False, vc_models = [],
       vc_limits = demo_limits\<rparr>, in_today = 9\<rparr>"

definition demo_world :: "(fs, unit) world" where
  "demo_world = \<lparr>w_repo = (demo_dirty, demo_fs), w_jobs = \<lparr>job_files = [], quarantined = [], reasons = []\<rparr>,
     w_index = [], w_caches = [], w_srv = (), w_acc = new_accum\<rparr>"

lemma demo_storable: "id_ok (lit ''a1'')" "\<not> contains_secret ascii_ucd (lit ''a1'')"
  by code_simp+

lemma demo_begin: "\<exists>sha job w1. begin_run (demo_pipe git) demo_ingest (demo_world\<lparr>w_acc := new_accum\<rparr>)
    = (Inr (sha, job), w1)"
proof -
  note st = demo_storable [simplified]
  have u: "utf8_encode [] = Inr []" by code_simp
  show ?thesis
    using st
    by (auto simp: begin_run_def bindA_def liftR_def content_hash_def u demo_ingest_def open_job_def load_job_def
        check_id_def demo_world_def create_job_def write_job_def assert_no_secrets_def demo_pipe_def demo_cfg_def
        new_job_def transitioned_to_def save_job_def update_job_def stamp_def store_simps Let_def can_transition_to_def)
qed

lemma demo_git: "git_of (demo_pipe git) demo_ingest = \<lparr>ge_ucd = ascii_ucd, ge_git = git, ge_path = [lit ''v'']\<rparr>"
  by (simp add: git_of_def demo_pipe_def demo_ingest_def)

lemma demo_views:
  "view (\<lambda>_. False) [lit ''v''] demo_dirty [lit ''v'', lit ''b.md''] = Some (Content (lit ''unsaved''))"
  "view (\<lambda>_. False) [lit ''v''] demo_fs [lit ''v'', lit ''b.md''] = None"
  by code_simp+

lemma demo_heads: "snap_head demo_dirty \<noteq> snap_head demo_fs"
  using demo_views unfolding snap_head_def by (metis option.distinct(1))

lemma demo_status: "is_clean (git_of (demo_pipe snap_git) demo_ingest) (demo_dirty, demo_fs)
    = (Inr False, (demo_dirty, demo_fs))"
  using demo_heads
  by (simp add: is_clean_def git_cmd_def git_run_def demo_git snap_git_def bindA_def retA_def del: list.map)

theorem dirty_tree_refused_witness:
  "w_repo (snd (run_ingest (demo_pipe snap_git) demo_ingest demo_world)) = (demo_dirty, demo_fs)"
proof -
  obtain sha job w1 where b: "begin_run (demo_pipe snap_git) demo_ingest (demo_world\<lparr>w_acc := new_accum\<rparr>)
      = (Inr (sha, job), w1)" using demo_begin by blast
  have "w_repo w1 = (demo_dirty, demo_fs)" using begin_run_Inr(3) [OF b] by (simp add: demo_world_def)
  then have "is_clean (git_of (demo_pipe snap_git) demo_ingest) (w_repo w1) = (Inr False, (demo_dirty, demo_fs))"
    using demo_status by simp
  from dirty_tree_refused [OF b this] show ?thesis by (simp split: prod.splits)
qed

lemma broken_args: "broken_git d reset_args s = snap_git d reset_args s"
  "broken_git d clean_args s = snap_git d clean_args s"
  using git_args_distinct(3,4) [symmetric] by (simp_all add: broken_git_def del: list.map)

lemma git_behaves_cong:
  assumes "git_behaves g ignored head tracked" and "ge_path g' = ge_path g"
    and "\<And>s. ge_git g' (ge_path g) reset_args s = ge_git g (ge_path g) reset_args s"
    and "\<And>s. ge_git g' (ge_path g) clean_args s = ge_git g (ge_path g) clean_args s"
    and "\<And>s out err s'. ge_git g' (ge_path g) (map lit [''status'', ''--porcelain'']) s \<noteq> (Exited 0 out err, s')"
  shows "git_behaves g' ignored head tracked"
  using assms unfolding git_behaves_def by simp

lemma broken_behaves: "git_behaves (git_of (demo_pipe broken_git) demo_ingest) (\<lambda>_. False) snap_head (\<lambda>x. dom (snap_head x))"
  by (rule git_behaves_cong [OF snap_behaves])
    (simp_all add: demo_git snap_env_def broken_args, simp add: broken_git_def)

text \<open>The check fails, the tree is reset without having been found clean, and the note is gone.\<close>

theorem failed_run_witness:
  "view (\<lambda>_. False) [lit ''v''] (fst (w_repo demo_world)) [lit ''v'', lit ''b.md''] = Some (Content (lit ''unsaved''))
   \<and> view (\<lambda>_. False) [lit ''v''] (fst (w_repo (snd (run_ingest (demo_pipe broken_git) demo_ingest demo_world))))
       [lit ''v'', lit ''b.md''] = None"
proof -
  let ?g = "git_of (demo_pipe broken_git) demo_ingest"
  obtain sha job w1 where b: "begin_run (demo_pipe broken_git) demo_ingest (demo_world\<lparr>w_acc := new_accum\<rparr>)
      = (Inr (sha, job), w1)" using demo_begin by blast
  have w1: "w_repo w1 = (demo_dirty, demo_fs)" using begin_run_Inr(3) [OF b] by (simp add: demo_world_def)
  define e where "e = git_failed (map lit [''status'', ''--porcelain'']) 128 (lit ''fatal'')"
  have c: "is_clean ?g (demo_dirty, demo_fs) = (Inl e, (demo_dirty, demo_fs))"
    by (simp add: is_clean_def git_cmd_def git_run_def demo_git broken_git_def bindA_def e_def del: list.map)
  obtain w2 where st: "stage (demo_pipe broken_git) ''clean-tree'' (require_clean (demo_pipe broken_git) demo_ingest) w1
      = (Inl e, w2)" and w2: "w_repo w2 = (demo_dirty, demo_fs)"
    using c w1
    by (simp add: stage_def require_clean_def on_repo_def on_acc_def bindA_def demo_pipe_def [of broken_git]
        del: list.map)
  have body: "ingest_body (demo_pipe broken_git) demo_ingest sha job w1 = (Inl e, w2)"
    by (simp add: ingest_body_def bindA_def [of "stage (demo_pipe broken_git) _ _"] st del: list.map)
  have cls: "ecls e = GitError" by (simp add: e_def git_failed_def)
  obtain rp where r: "rollback ?g (demo_dirty, demo_fs) = (Inr (), rp)" and rp: "snd rp = demo_fs"
    by (simp add: rollback_def git_cmd_def demo_git bindA_def retA_def git_run_def [of "\<lparr>ge_ucd = _, ge_git = _, ge_path = _\<rparr>"]
        broken_args snap_git_def)
  have n: "\<not> isinstance e StageFailureError" "isinstance e GroundtruthError"
    using cls by (simp_all add: stage_failure_iff)
  obtain x w' where run: "run_ingest (demo_pipe broken_git) demo_ingest demo_world = (x, w')" by fastforce
  from failed_run [OF broken_behaves b body] n run w2 r
  have "view (\<lambda>_. False) [lit ''v''] (fst (w_repo w')) = snap_head demo_fs"
    by (simp add: demo_ingest_def rp del: isinstance_cases list.map)
  then show ?thesis
    using demo_views unfolding run by (simp add: demo_world_def snap_head_def)
qed

end
