(* ===== verification/Answers.thy ===== *)
theory Answers
  imports Agent SchemaMd Links
begin

text \<open>
  Recovery: the read-only agent run (\<^verbatim>\<open>src/groundtruth/recovery/agent.py\<close>), the grounding check on
  every answer (\<^verbatim>\<open>src/groundtruth/recovery/grounding.py\<close>), the rendering shared by the surfaces
  (\<^verbatim>\<open>src/groundtruth/recovery/format.py\<close>) and the part of \<open>Services.query\<close> that joins them. The vault is an
  argument and no function returns one: recovery cannot write.

  Shown: an answer is returned exactly when it cites something, every citation names the queried
  vault and resolves to a note on disk there; otherwise the result is a refusal.
\<close>

section \<open>The agent run\<close>

definition prompt_lines :: "pystr list \<Rightarrow> pystr" where
  "prompt_lines ls = concat (map (\<lambda>l. l @ [10]) ls)"

definition recovery_prompt :: "pystr \<Rightarrow> pystr \<Rightarrow> pystr" where
  "recovery_prompt schema_md question = prompt_lines
    [lit ''You answer a question using ONLY what this vault contains. You never use outside'',
     lit ''knowledge: if the vault does not contain the answer, say so plainly.'', [],
     lit ''## The vault'' @ [39] @ lit ''s schema (its map)'', [],
     schema_md, [],
     lit ''## Rules'', [],
     lit ''- Search with `ls`, `grep`, and `read`. You have no other tools.'',
     lit ''- Every substantive claim in your answer MUST carry a `[[note path]]` citation'',
     lit ''  pointing at the note it came from.'',
     lit ''- If you cannot find the answer in the vault, respond that the vault does not'',
     lit ''  contain it. Do not guess and do not fill the gap from general knowledge.'', [],
     lit ''## Question'', [],
     question]"

definition recover ::
  "'s tool_env \<Rightarrow> 's model \<Rightarrow> fs \<Rightarrow> vault \<Rightarrow> pystr \<Rightarrow> limits option \<Rightarrow> ('s, agent_outcome) act" where
  "recover env model f v question lim s =
    (case load_schema (te_ucd env) f (vault_dir v) of
       Inl e \<Rightarrow> (Inl e, s)
     | Inr sch \<Rightarrow>
         (let (b, s0) = new_budget (te_clock env) (map_option from_limits lim) s in
          case run_agent (ro_agent env f (vault_dir v) model (bl_tool_calls (bd_limits b)))
                 (lit ''answer'') (Prompt (recovery_prompt (raw_schema sch) question)) (b, s0) of
            (r, (_, s1)) \<Rightarrow> (r, s1)))"

section \<open>Grounding\<close>

definition existing_notes :: "fs \<Rightarrow> vault \<Rightarrow> pystr list" where
  "existing_notes f v =
    map (rel_path (vault_dir v)) (filter (\<lambda>p. last p \<noteq> schema_filename) (markdown_files f (vault_dir v)))"

definition to_citation :: "pystr \<Rightarrow> pystr \<Rightarrow> citation" where
  "to_citation target default_vault =
    (case partition_on 58 target of
       (pre, sep, rest) \<Rightarrow>
         if sep \<and> pre \<noteq> [] \<and> 47 \<notin> set pre then \<lparr>cit_vault = pre, cit_path = rest\<rparr>
         else \<lparr>cit_vault = default_vault, cit_path = target\<rparr>)"

definition no_evidence :: "answer \<Rightarrow> recovery_outcome" where
  "no_evidence a = Refusal NoEvidence (ans_tokens a)"

definition check_grounding :: "fs \<Rightarrow> vault \<Rightarrow> answer \<Rightarrow> recovery_outcome" where
  "check_grounding f v a =
    (let links = extract_links (ans_text a);
         citations = map (\<lambda>l. to_citation (link_target l) (vault_name v)) links in
     if links = [] then no_evidence a
     else if list_ex (\<lambda>c. cit_vault c \<noteq> vault_name v) citations then no_evidence a
     else if check_links (map (\<lambda>c. \<lparr>link_target = cit_path c, link_display = None\<rparr>) citations)
               (existing_notes f v) [] \<noteq> [] then no_evidence a
     else AnswerResult (a\<lparr>ans_citations := uniq citations\<rparr>))"

section \<open>The query\<close>

text \<open>\<open>AnswerResult(text=\<dots>)\<close> with the model's text, which must be a string.\<close>

definition answer_of :: "json \<Rightarrow> (string \<times> token_counts) list \<Rightarrow> answer res" where
  "answer_of t usage =
    (case or_else t (JStr []) of
       JStr s \<Rightarrow> Inr \<lparr>ans_text = s, ans_citations = [], ans_tokens = usage\<rparr>
     | _ \<Rightarrow> Inl (exc PydanticValidationError [Lit ''Input should be a valid string'']))"

definition api_error :: "int \<Rightarrow> message \<Rightarrow> exn" where
  "api_error status m = \<lparr>ecls = ApiError, emsg = m, estage = None, eattr = HttpAttr status\<rparr>"

definition query ::
  "'s tool_env \<Rightarrow> 's model \<Rightarrow> fs \<Rightarrow> vault \<Rightarrow> limits \<Rightarrow> pystr \<Rightarrow> ('s, recovery_outcome) act" where
  "query env model f v lim question s =
    (case recover env model f v question (Some lim) s of
       (Inl e, s') \<Rightarrow> (Inl e, s')
     | (Inr out, s') \<Rightarrow>
         (let usage = [(''answer'', counts_of_usage (ao_usage out))] in
          case ao_status out of
            Exhausted \<Rightarrow> Inr (Refusal BudgetExhausted usage)
          | Failed \<Rightarrow> Inl (api_error 503 [Lit ''the recovery agent failed to run''])
          | Completed \<Rightarrow> bindR (answer_of (ao_final_text out) usage) (\<lambda>a. Inr (check_grounding f v a)), s'))"

section \<open>Rendering\<close>

definition budget_exhausted_message :: pystr where
  "budget_exhausted_message = lit ''Could not establish ground truth for this question within the search budget.''"

definition no_evidence_message :: pystr where
  "no_evidence_message = lit ''The vault does not contain information to answer this question.''"

fun render_refusal :: "refusal_reason \<Rightarrow> pystr" where
  "render_refusal BudgetExhausted = budget_exhausted_message"
| "render_refusal NoEvidence = no_evidence_message"

text \<open>\<open>\[\[<path>(\||\]\])\<close>; a backslash in a vault name or path, which the replacement template would
  interpret, is refused by the path rules.\<close>

definition citation_re :: "pystr \<Rightarrow> re" where
  "citation_re p = SeqL [Str [91, 91], Str p, Grp 1 (Alt (Chr 124) (Str [93, 93]))]"

definition render_answer :: "answer \<Rightarrow> bool \<Rightarrow> pystr" where
  "render_answer a qualified =
    (if \<not> qualified then ans_text a
     else fold (\<lambda>c. re_sub nw (citation_re (cit_path c))
            (\<lambda>m. [91, 91] @ cit_vault c @ [58] @ cit_path c @ group_str 1 m)) (ans_citations a) (ans_text a))"

definition counts_json :: "token_counts \<Rightarrow> json" where
  "counts_json c = JObj [(lit ''prompt_tokens'', JInt (prompt_tokens c)),
     (lit ''completion_tokens'', JInt (completion_tokens c)), (lit ''total_tokens'', JInt (total_tokens c))]"

definition usage_json :: "(string \<times> token_counts) list \<Rightarrow> json" where
  "usage_json us = JObj (map (\<lambda>(r, c). (lit r, counts_json c)) us)"

fun reason_value :: "refusal_reason \<Rightarrow> pystr" where
  "reason_value NoEvidence = lit ''no_evidence''"
| "reason_value BudgetExhausted = lit ''budget_exhausted''"

fun to_payload :: "recovery_outcome \<Rightarrow> json" where
  "to_payload (Refusal r us) = JObj
    [(lit ''outcome'', JStr (lit ''refused'')), (lit ''reason'', JStr (reason_value r)),
     (lit ''message'', JStr (render_refusal r)), (lit ''token_usage'', usage_json us)]"
| "to_payload (AnswerResult a) = JObj
    [(lit ''outcome'', JStr (lit ''answer'')), (lit ''text'', JStr (render_answer a False)),
     (lit ''citations'', JArr (map (\<lambda>c. JObj [(lit ''vault'', JStr (cit_vault c)), (lit ''path'', JStr (cit_path c))])
        (ans_citations a))),
     (lit ''token_usage'', usage_json (ans_tokens a))]"

section \<open>Grounded answers\<close>

text \<open>A citation resolves to a note: a regular Markdown file below the vault directory, other than the
  schema, whose path without its extension, or whose name without it, is the cited path.\<close>

definition cites_note :: "fs \<Rightarrow> vault \<Rightarrow> citation \<Rightarrow> bool" where
  "cites_note f v c \<longleftrightarrow> cit_vault c = vault_name v
    \<and> list_ex (\<lambda>p. strict_prefix (vault_dir v) p \<and> node_is_file (lookup f p) \<and> ends_with (last p) (lit ''.md'')
        \<and> last p \<noteq> schema_filename
        \<and> cit_path c \<in> {stem_of (rel_path (vault_dir v) p), last_field 47 (stem_of (rel_path (vault_dir v) p))})
      (below f (vault_dir v))"

definition cited :: "vault \<Rightarrow> answer \<Rightarrow> citation list" where
  "cited v a = map (\<lambda>l. to_citation (link_target l) (vault_name v)) (extract_links (ans_text a))"

lemma in_link_index: "t \<in> set (link_index ps) \<longleftrightarrow> list_ex (\<lambda>p. t \<in> {stem_of p, last_field 47 (stem_of p)}) ps"
  by (auto simp: link_index_def list_ex_iff)

lemma below_inside: "p \<in> set (below f d) \<Longrightarrow> strict_prefix d p"
  by (auto simp: below_def)

lemma cites_note_iff: "cites_note f v c \<longleftrightarrow> cit_vault c = vault_name v \<and> cit_path c \<in> set (link_index (existing_notes f v))"
  using below_inside
  by (auto simp: cites_note_def in_link_index existing_notes_def markdown_files_def list_ex_iff)

lemma check_grounding_spec:
  "check_grounding f v a =
    (if cited v a \<noteq> [] \<and> list_all (cites_note f v) (cited v a)
     then AnswerResult (a\<lparr>ans_citations := uniq (cited v a)\<rparr>) else no_evidence a)"
proof -
  have ne: "cited v a = [] \<longleftrightarrow> extract_links (ans_text a) = []" by (simp add: cited_def)
  have ok: "list_all (cites_note f v) cs \<longleftrightarrow> \<not> list_ex (\<lambda>c. cit_vault c \<noteq> vault_name v) cs
      \<and> check_links (map (\<lambda>c. \<lparr>link_target = cit_path c, link_display = None\<rparr>) cs) (existing_notes f v) [] = []" for cs
    by (auto simp: cites_note_iff check_links_def filter_empty_conv list_all_iff list_ex_iff link_index_def)
  show ?thesis
    unfolding check_grounding_def Let_def ne ok cited_def [symmetric] by auto
qed

text \<open>
  C4. Every answer is grounded. A query that returns an answer returns the model's text unchanged, with
  at least one citation; its citations are the links of that text, each once, and every one of them
  names the queried vault and resolves to a regular note file of that vault on disk. A query whose
  result is a refusal carries no text at all, and a failed agent run is an error with status 503.
\<close>

theorem query_grounded:
  "case query env model f v lim question s of (r, s') \<Rightarrow>
     (case r of
        Inr (AnswerResult a) \<Rightarrow> ans_citations a \<noteq> [] \<and> distinct (ans_citations a)
          \<and> set (ans_citations a) = set (cited v a) \<and> list_all (cites_note f v) (ans_citations a)
          \<and> (case recover env model f v question (Some lim) s of
               (Inr out, _) \<Rightarrow> ao_final_text out = JStr (ans_text a) \<and> ao_status out = Completed | _ \<Rightarrow> False)
      | Inr (Refusal why us) \<Rightarrow>
          (case recover env model f v question (Some lim) s of
             (Inr out, _) \<Rightarrow> (why = BudgetExhausted) = (ao_status out = Exhausted) | _ \<Rightarrow> False)
      | Inl e \<Rightarrow>
          (case recover env model f v question (Some lim) s of
             (Inr out, _) \<Rightarrow> ao_status out \<noteq> Exhausted | (Inl e', _) \<Rightarrow> e' = e))"
proof -
  obtain x s' where rec: "recover env model f v question (Some lim) s = (x, s')"
    by (cases "recover env model f v question (Some lim) s")
  have g: "case check_grounding f v a of
      AnswerResult b \<Rightarrow> ans_citations b \<noteq> [] \<and> distinct (ans_citations b) \<and> set (ans_citations b) = set (cited v b)
        \<and> list_all (cites_note f v) (ans_citations b) \<and> ans_text b = ans_text a
    | Refusal why us \<Rightarrow> why = NoEvidence" for a
  proof -
    have "uniq (cited v a) = [] \<longleftrightarrow> cited v a = []" by (metis set_empty set_uniq)
    then show ?thesis
      by (auto simp: check_grounding_spec no_evidence_def cited_def list_all_iff)
  qed
  show ?thesis
  proof (cases x)
    case (Inl e)
    then show ?thesis by (simp add: query_def rec)
  next
    case (Inr out)
    show ?thesis
    proof (cases "ao_status out")
      case Completed
      show ?thesis
      proof (cases "or_else (ao_final_text out) (JStr [])")
        case (JStr t)
        let ?a = "\<lparr>ans_text = t, ans_citations = [], ans_tokens = [(''answer'', counts_of_usage (ao_usage out))]\<rparr>"
        have a: "answer_of (ao_final_text out) [(''answer'', counts_of_usage (ao_usage out))] = Inr ?a"
          by (simp add: answer_of_def JStr)
        have t: "ao_final_text out = JStr t" if "t \<noteq> []" using JStr that by (auto simp: or_else_def split: if_splits)
        have e: "cited v ?a = []" if "t = []"
          by (simp add: that cited_def extract_links_def strip_code_def) code_simp
        have te: "ao_final_text out = JStr t" if "cited v ?a \<noteq> []" using t e that by blast
        show ?thesis
          using g [of ?a] te
          by (cases "check_grounding f v ?a") (auto simp: query_def rec Inr Completed a Let_def check_grounding_spec no_evidence_def split: if_splits)
      qed (simp_all add: query_def rec Inr Completed answer_of_def)
    qed (simp_all add: query_def rec Inr)
  qed
qed

end
