(* ===== verification/Observability.thy ===== *)
theory Observability
  imports Redaction Llm Fs Utf8
begin

text \<open>
  Observability (\<^verbatim>\<open>src/groundtruth/observability.py\<close>): the redacting cleaner, the stage record, the
  opt-in log of model calls with its file, and the client wrapper that writes it. A logger call is the
  record it emits. Values are those of theory \<open>Json\<close>.

  Shown: the wrapper answers exactly what the client it wraps answers, whatever happens to the log; the
  log only ever grows by whole lines in the file of the job; with logging off nothing is written; and
  no text inside a logged value is left unredacted, the keys of a dictionary excepted.
\<close>

section \<open>Cleaning\<close>

fun clean_value :: "ucd \<Rightarrow> json \<Rightarrow> json" where
  "clean_value u (JStr s) = JStr (redact u s)"
| "clean_value u (JObj d) = JObj (map (\<lambda>(k, v). (k, clean_value u v)) d)"
| "clean_value u (JArr xs) = JArr (map (clean_value u) xs)"
| "clean_value u v = v"

record stage_record =
  sr_message :: message
  sr_groundtruth :: json

definition log_stage ::
  "ucd \<Rightarrow> pystr \<Rightarrow> pystr \<Rightarrow> pystr \<Rightarrow> pystr \<Rightarrow> (pystr \<times> json) list \<Rightarrow> stage_record" where
  "log_stage u jid vault stg status extra =
    \<lparr>sr_message = [Lit ''job stage '', Txt stg, Lit '' -> '', Txt status],
     sr_groundtruth = clean_value u (JObj ([(lit ''job_id'', JStr jid), (lit ''vault'', JStr vault),
       (lit ''stage'', JStr stg), (lit ''status'', JStr status)] @ extra))\<rparr>"

section \<open>The call log\<close>

record call_log =
  cg_enabled :: bool
  cg_dir :: path

definition new_call_log :: "path \<Rightarrow> bool \<Rightarrow> call_log" where
  "new_call_log state_dir enabled = \<lparr>cg_enabled = enabled, cg_dir = state_dir @ [lit ''llm'']\<rparr>"

definition call_record ::
  "pystr \<Rightarrow> pystr \<Rightarrow> json \<Rightarrow> json \<Rightarrow> json list \<Rightarrow> (pystr \<times> json) list \<Rightarrow> json" where
  "call_record role model prompt response calls usage = JObj
    [(lit ''role'', JStr role), (lit ''model'', JStr model), (lit ''prompt'', prompt),
     (lit ''response'', response), (lit ''tool_calls'', JArr calls), (lit ''usage'', JObj usage)]"

text \<open>\<open>mkdir(parents=True, exist_ok=True)\<close>: only directories may be on the way.\<close>

definition can_mkdir :: "fs \<Rightarrow> path \<Rightarrow> bool" where
  "can_mkdir f d \<longleftrightarrow> list_all (\<lambda>p. lookup f p = None \<or> lookup f p = Some Dir) (prefixes d)"

text \<open>Opening for append and writing; a directory in the way, a link out of the model or an unencodable
  text is an exception.\<close>

definition append_line :: "path \<Rightarrow> pystr \<Rightarrow> (fs, unit) act" where
  "append_line p text f =
    (if \<not> list_all encodable text then (Inl (exc UnicodeError [Lit ''surrogates not allowed'']), f)
     else case lookup f p of
       None \<Rightarrow> (Inr (), dict_set p (File text 1) f)
     | Some (File t n) \<Rightarrow> (Inr (), dict_set p (File (t @ text) n) f)
     | _ \<Rightarrow> (Inl (exc OSError [Lit ''cannot open the log'']), f))"

definition log_file :: "call_log \<Rightarrow> pystr \<Rightarrow> path" where
  "log_file g jid = cg_dir g @ [jid @ lit ''.jsonl'']"

definition write_record :: "ucd \<Rightarrow> call_log \<Rightarrow> pystr \<Rightarrow> json \<Rightarrow> (fs, unit) act" where
  "write_record u g jid rec f =
    (if \<not> can_mkdir f (cg_dir g) then (Inl (exc OSError [Lit ''cannot create the log directory'']), f)
     else append_line (log_file g jid) (json_dumps (clean_value u rec) @ [10]) (mkdirs (cg_dir g) f))"

text \<open>\<open>record\<close> swallows every exception; the flag says whether it logged a warning instead.\<close>

definition record_call :: "ucd \<Rightarrow> call_log \<Rightarrow> pystr \<Rightarrow> json \<Rightarrow> fs \<Rightarrow> bool \<times> fs" where
  "record_call u g jid rec f =
    (if \<not> cg_enabled g then (False, f)
     else case write_record u g jid rec f of (r, f') \<Rightarrow> (\<not> isOk r, f'))"

section \<open>The wrapper\<close>

definition usage_dict :: "llm_usage \<Rightarrow> (pystr \<times> json) list" where
  "usage_dict us = [(lit ''prompt_tokens'', JInt (u_prompt us)), (lit ''completion_tokens'', JInt (u_completion us)),
     (lit ''total_tokens'', JInt (u_total us))]"

definition response_record :: "pystr \<Rightarrow> json list \<Rightarrow> llm_response \<Rightarrow> json" where
  "response_record role msgs r = call_record role (lr_model r) (JArr msgs) (lr_text r)
     (map (\<lambda>c. JObj [(lit ''name'', tc_name c), (lit ''arguments'', tc_arguments c)]) (lr_tool_calls r))
     (usage_dict (lr_usage r))"

type_synonym 's completion = "pystr \<Rightarrow> json list \<Rightarrow> json list \<Rightarrow> ('s, llm_response) act"

definition logging_complete :: "ucd \<Rightarrow> call_log \<Rightarrow> pystr \<Rightarrow> 's completion \<Rightarrow> ('s \<times> fs) completion" where
  "logging_complete u g jid inner role msgs tools w =
    (case w of (s, f) \<Rightarrow>
      (case inner role msgs tools s of
         (Inl e, s') \<Rightarrow> (Inl e, (s', f))
       | (Inr r, s') \<Rightarrow> (Inr r, (s', snd (record_call u g jid (response_record role msgs r) f)))))"

section \<open>Properties\<close>

text \<open>The texts inside a value, the keys of its dictionaries left out.\<close>

fun texts :: "json \<Rightarrow> pystr list" where
  "texts (JStr s) = [s]"
| "texts (JObj d) = concat (map (\<lambda>(k, v). texts v) d)"
| "texts (JArr xs) = concat (map texts xs)"
| "texts _ = []"

lemma texts_clean: "texts (clean_value u v) = map (redact u) (texts v)"
proof (induction v)
  case (JArr xs)
  then have "map (texts \<circ> clean_value u) xs = map (map (redact u) \<circ> texts) xs" by simp
  then show ?case by (simp only: clean_value.simps texts.simps map_concat map_map)
next
  case (JObj d)
  have "texts (clean_value u (snd kv)) = map (redact u) (texts (snd kv))" if "kv \<in> set d" for kv
    using JObj.IH [of kv "snd kv"] that by (cases kv) simp
  then have "map (\<lambda>kv. texts (clean_value u (snd kv))) d = map (\<lambda>kv. map (redact u) (texts (snd kv))) d"
    by simp
  then show ?case
    by (simp only: clean_value.simps texts.simps map_concat map_map case_prod_beta comp_def fst_conv snd_conv)
qed simp_all

definition content :: "fs \<Rightarrow> path \<Rightarrow> pystr" where
  "content f p = (case lookup f p of Some (File t _) \<Rightarrow> t | _ \<Rightarrow> [])"

text \<open>A step of the file system that creates directories on the way to a file and appends to that file.\<close>

definition appended :: "path \<Rightarrow> pystr \<Rightarrow> fs \<Rightarrow> fs \<Rightarrow> bool" where
  "appended p text f f' \<longleftrightarrow> (\<forall>q. lookup f' q = lookup f q
     \<or> strict_prefix q p \<and> lookup f q = None \<and> lookup f' q = Some Dir
     \<or> q = p \<and> content f' q = content f q @ text)"

lemma appended_refl: "appended p text f f"
  by (simp add: appended_def)

lemma appended_mkdirs:
  assumes d: "strict_prefix d p" and other: "\<And>q. q \<noteq> p \<Longrightarrow> lookup f' q = lookup (mkdirs d f) q"
    and there: "lookup f' p = lookup f p \<or> content f' p = content f p @ text"
  shows "appended p text f f'"
  unfolding appended_def
proof (intro allI)
  fix q
  show "lookup f' q = lookup f q \<or> strict_prefix q p \<and> lookup f q = None \<and> lookup f' q = Some Dir
      \<or> q = p \<and> content f' q = content f q @ text"
  proof (cases "q = p")
    case True
    with there show ?thesis by blast
  next
    case False
    from other [OF False] show ?thesis
      using prefix_order.le_less_trans [OF _ d, of q] by (simp add: lookup_mkdirs)
  qed
qed

lemma append_line_appended:
  assumes a: "append_line p text (mkdirs d f) = (r, f')" and d: "strict_prefix d p"
  shows "appended p text f f'"
proof (rule appended_mkdirs [OF d])
  have "p \<noteq> []" "\<not> prefix p d" using d by (auto simp: strict_prefix_def dest: prefix_order.antisym)
  then have p: "lookup (mkdirs d f) p = lookup f p" by (simp add: lookup_mkdirs)
  have set: "lookup (dict_set p n (mkdirs d f)) q = (if q = p then Some n else lookup (mkdirs d f) q)" for n q
    using \<open>p \<noteq> []\<close> by (simp add: lookup_def store_simps)
  show "lookup f' q = lookup (mkdirs d f) q" if "q \<noteq> p" for q
    using a that set by (auto simp: append_line_def split: if_splits option.splits node.splits)
  show "lookup f' p = lookup f p \<or> content f' p = content f p @ text"
    using a p set by (auto simp: append_line_def content_def split: if_splits option.splits node.splits)
qed

lemma write_record_appended:
  assumes "write_record u g jid rec f = (r, f')"
  shows "appended (log_file g jid) (json_dumps (clean_value u rec) @ [10]) f f'"
proof (cases "can_mkdir f (cg_dir g)")
  case True
  have "strict_prefix (cg_dir g) (log_file g jid)" by (simp add: log_file_def strict_prefix_def)
  with assms True show ?thesis by (auto simp: write_record_def intro: append_line_appended)
next
  case False
  with assms show ?thesis by (simp add: write_record_def appended_refl)
qed

text \<open>
  Logging is transparent. A wrapped client answers exactly what the client answers, an exception
  included, and leaves the server as the client leaves it, whether or not the log could be written.
  A failed call and a disabled log write nothing; otherwise at most directories above the log file of
  this job are created and one line is appended to it, the record of the call in which every text has
  been redacted.
\<close>

lemma logging_transparent:
  "case logging_complete u g jid inner role msgs tools (s, f) of (r, (s', f')) \<Rightarrow>
     (r, s') = inner role msgs tools s
     \<and> (case r of
          Inl e \<Rightarrow> f' = f
        | Inr resp \<Rightarrow>
            if cg_enabled g
            then \<exists>j. texts j = map (redact u) (texts (response_record role msgs resp))
                   \<and> appended (log_file g jid) (json_dumps j @ [10]) f f'
            else f' = f)"
proof -
  obtain r s' where i: "inner role msgs tools s = (r, s')" by (cases "inner role msgs tools s")
  show ?thesis
  proof (cases r)
    case (Inl e)
    with i show ?thesis by (simp add: logging_complete_def)
  next
    case (Inr resp)
    let ?rec = "response_record role msgs resp"
    obtain x f' where w: "write_record u g jid ?rec f = (x, f')" by (cases "write_record u g jid ?rec f")
    from write_record_appended [OF w] texts_clean [of u ?rec]
    have "\<exists>j. texts j = map (redact u) (texts ?rec) \<and> appended (log_file g jid) (json_dumps j @ [10]) f f'"
      by blast
    with i Inr w show ?thesis by (simp add: logging_complete_def record_call_def del: ex_simps)
  qed
qed

end
