(* ===== verification/JobRecovery.thy ===== *)
theory JobRecovery
  imports JobStore Git
begin

text \<open>
  Restart recovery (\<^verbatim>\<open>src/groundtruth/jobs/recovery.py\<close>): sweep, then for every job, in the
  order of the ids, quarantine what cannot be read, fail and roll back what was running, and hand back what was
  queued. The state is the job directory, the repositories (behind git) and whatever \<open>resubmit\<close>
  enqueues into.

  Shown: after a recovery no job is running, the interrupted ones are failed with the stage
  \<open>restart\<close>, and every other record is as it was; the queued jobs are resubmitted in order.
\<close>

definition interrupted_reason :: message where
  "interrupted_reason = [Lit ''job was RUNNING when the process restarted; not resumed'',
     Txt em_dash, Lit ''the ingest is all-or-nothing, so a half-finished run is failed and rolled back (invariant 7)'']"

record report =
  rp_swept :: "pystr list"
  rp_requeued :: "pystr list"
  rp_failed_interrupted :: "pystr list"
  rp_quarantined :: "pystr list"
  rp_rolled_back :: "pystr list"

record ('x, 'q) rec_env =
  rc_store :: store_cfg
  rc_now :: instant
  rc_repo :: "pystr \<Rightarrow> 'x git_env res"           \<comment> \<open>the repository of \<open>repo_root_of(vault)\<close>, which may raise\<close>
  rc_resubmit :: "(pystr \<Rightarrow> pystr \<Rightarrow> 'q \<Rightarrow> 'q) option"

type_synonym ('x, 'q) rec_state = "job_dir \<times> 'x repo_state \<times> 'q"

definition startup_rollback :: "'x git_env \<Rightarrow> ('x repo_state, bool) act" where
  "startup_rollback g =
    tryA (bindA (is_clean g) (\<lambda>c. if c then retA False else bindA (rollback g) (\<lambda>_. retA True)))
      (\<lambda>e. if isinstance e GitError then retA False else raiseA e)"

definition interrupt :: "job_record \<Rightarrow> job_record" where
  "interrupt j = j\<lparr>failure_stage := Some ''restart'', error := Some interrupted_reason\<rparr>"

text \<open>One job of the loop: the exception that aborts the recovery, or the report and the new state.\<close>

definition reconcile_running ::
  "('x, 'q) rec_env \<Rightarrow> pystr \<Rightarrow> job_record \<Rightarrow> report \<Rightarrow> (('x, 'q) rec_state, report) act" where
  "reconcile_running env i job rp st =
    (case st of (d, r, q) \<Rightarrow>
     case (case rc_repo env (job_vault job) of Inl e \<Rightarrow> (Inl e, r) | Inr g \<Rightarrow> startup_rollback g r) of
       (Inl e, r') \<Rightarrow> (Inl e, (d, r', q))
     | (Inr rolled, r') \<Rightarrow>
         let rp1 = (if rolled then rp\<lparr>rp_rolled_back := rp_rolled_back rp @ [i]\<rparr> else rp) in
         case transitioned_to (interrupt job) FAILED of
           Inl e \<Rightarrow> (Inl e, (d, r', q))
         | Inr failed \<Rightarrow>
             (case update_job (rc_store env) (rc_now env) failed d of
                (Inl e, d') \<Rightarrow> (Inl e, (d', r', q))
              | (Inr _, d') \<Rightarrow>
                  (Inr (rp1\<lparr>rp_failed_interrupted := rp_failed_interrupted rp1 @ [i]\<rparr>), (d', r', q))))"

definition reconcile_one ::
  "('x, 'q) rec_env \<Rightarrow> pystr \<Rightarrow> report \<Rightarrow> (('x, 'q) rec_state, report) act" where
  "reconcile_one env i rp st =
    (case st of (d, r, q) \<Rightarrow>
     case load_job d i of
       Inl e \<Rightarrow>
         if isinstance e ValueError
         then (case quarantine i (emsg e) d of
                 (Inl e', d') \<Rightarrow> (Inl e', (d', r, q))
               | (Inr _, d') \<Rightarrow> (Inr (rp\<lparr>rp_quarantined := rp_quarantined rp @ [i]\<rparr>), (d', r, q)))
         else (Inl e, st)
     | Inr None \<Rightarrow> (Inr rp, st)
     | Inr (Some job) \<Rightarrow>
         if terminal (job_state job) then (Inr rp, st)
         else if job_state job = RUNNING then reconcile_running env i job rp st
         else (Inr (rp\<lparr>rp_requeued := rp_requeued rp @ [i]\<rparr>),
               (d, r, case rc_resubmit env of None \<Rightarrow> q | Some f \<Rightarrow> f (job_vault job) i q)))"

fun reconcile_loop ::
  "('x, 'q) rec_env \<Rightarrow> pystr list \<Rightarrow> report \<Rightarrow> (('x, 'q) rec_state, report) act" where
  "reconcile_loop env [] rp st = (Inr rp, st)"
| "reconcile_loop env (i # is) rp st =
    (case reconcile_one env i rp st of
       (Inl e, st') \<Rightarrow> (Inl e, st')
     | (Inr rp', st') \<Rightarrow> reconcile_loop env is rp' st')"

definition recover_on_startup :: "('x, 'q) rec_env \<Rightarrow> (('x, 'q) rec_state, report) act" where
  "recover_on_startup env st =
    (case st of (d, r, q) \<Rightarrow>
     case sweep (rc_store env) (rc_now env) d of
       (Inl e, d') \<Rightarrow> (Inl e, (d', r, q))
     | (Inr swept, d') \<Rightarrow>
         reconcile_loop env (list_ids d')
           \<lparr>rp_swept = swept, rp_requeued = [], rp_failed_interrupted = [], rp_quarantined = [],
            rp_rolled_back = []\<rparr> (d', r, q))"

section \<open>What recovery leaves\<close>

definition in_state :: "job_dir \<Rightarrow> job_state \<Rightarrow> pystr \<Rightarrow> bool" where
  "in_state d st i \<longleftrightarrow> (case record_of d i of Some r \<Rightarrow> job_state r = st | None \<Rightarrow> False)"

text \<open>The record of a job after recovery, from the record before it.\<close>

definition reconciled :: "instant \<Rightarrow> job_record \<Rightarrow> job_record" where
  "reconciled now r =
    (if job_state r = RUNNING then stamp now r ((interrupt r)\<lparr>job_state := FAILED\<rparr>) else r)"


definition step_ok :: "instant \<Rightarrow> pystr \<Rightarrow> job_dir \<Rightarrow> report \<Rightarrow> job_dir \<Rightarrow> report \<Rightarrow> bool" where
  "step_ok now i d rp d' rp' \<longleftrightarrow> store_wf d'
    \<and> record_of d' = (record_of d)(i := map_option (reconciled now) (record_of d i))
    \<and> rp_requeued rp' = rp_requeued rp @ (if in_state d QUEUED i then [i] else [])
    \<and> rp_failed_interrupted rp' = rp_failed_interrupted rp @ (if in_state d RUNNING i then [i] else [])"

lemma record_of_load: "load_job d i = Inr x \<Longrightarrow> record_of d i = x" "load_job d i = Inl e \<Longrightarrow> record_of d i = None"
  by (auto simp: record_of_def split: option.split)

lemma reconciled_other [simp]: "job_state r \<noteq> RUNNING \<Longrightarrow> reconciled now r = r"
  by (simp add: reconciled_def)

lemma reconcile_running_ok:
  assumes wf: "store_wf d" and job: "record_of d i = Some job" "job_state job = RUNNING"
    and run: "reconcile_running env i job rp (d, r, q) = (Inr rp', (d', r', q'))"
  shows "step_ok (rc_now env) i d rp d' rp' \<and> q' = q"
proof -
  define failed where "failed = (interrupt job)\<lparr>job_state := FAILED\<rparr>"
  have id: "job_id failed = i" using record_of_id [OF wf job(1)] by (simp add: failed_def interrupt_def)
  have t: "transitioned_to (interrupt job) FAILED = Inr failed"
    using job(2) by (simp add: failed_def interrupt_def)
  from run obtain rolled x where u: "update_job (rc_store env) (rc_now env) failed d = (Inr x, d')"
      and rp: "rp' = (let rp1 = (if rolled then rp\<lparr>rp_rolled_back := rp_rolled_back rp @ [i]\<rparr> else rp)
        in rp1\<lparr>rp_failed_interrupted := rp_failed_interrupted rp1 @ [i]\<rparr>)" and q: "q' = q"
    by (auto simp: reconcile_running_def t Let_def split: prod.splits sum.splits)
  from js.put_ok [OF wf u] id job(1)
  have "store_wf d'" "record_of d' = (record_of d)(i \<mapsto> stamp (rc_now env) job failed)" by auto
  then show ?thesis using job rp q
    by (simp add: step_ok_def reconciled_def failed_def in_state_def Let_def)
qed

lemma reconcile_one_ok:
  assumes wf: "store_wf d" and run: "reconcile_one env i rp (d, r, q) = (Inr rp', (d', r', q'))"
  shows "step_ok (rc_now env) i d rp d' rp'"
proof (cases "load_job d i")
  case (Inl e)
  then have n: "record_of d i = None" by (rule record_of_load)
  from run Inl obtain u where "quarantine i (emsg e) d = (Inr u, d')"
      "rp' = rp\<lparr>rp_quarantined := rp_quarantined rp @ [i]\<rparr>"
    by (auto simp: reconcile_one_def simp del: isinstance_cases split: prod.splits sum.splits if_splits)
  with quarantine_view [of i "emsg e" d] quarantine_wf [OF wf, of i "emsg e"] n show ?thesis
    by (auto simp: step_ok_def in_state_def fun_upd_idem)
next
  case (Inr x)
  show ?thesis
  proof (cases x)
    case None
    with Inr run have "d' = d" "rp' = rp" by (simp_all add: reconcile_one_def)
    with wf record_of_load(1) [OF Inr] None show ?thesis by (simp add: step_ok_def in_state_def fun_upd_idem)
  next
    case (Some job)
    have j: "record_of d i = Some job" using record_of_load(1) [OF Inr] Some by simp
    consider "terminal (job_state job)" | "job_state job = RUNNING" | "job_state job = QUEUED"
      by (cases "job_state job") (auto simp: terminal_job_states_def)
    then show ?thesis
    proof cases
      case 2
      then have "\<not> terminal (job_state job)" by (simp add: terminal_job_states_def)
      with 2 run Inr Some have "reconcile_running env i job rp (d, r, q) = (Inr rp', (d', r', q'))"
        by (simp add: reconcile_one_def)
      from reconcile_running_ok [OF wf j 2 this] show ?thesis by blast
    qed (use run Inr Some j wf in \<open>auto simp: reconcile_one_def step_ok_def in_state_def
        terminal_job_states_def fun_upd_idem\<close>)
  qed
qed

lemma reconcile_loop_ok:
  assumes "store_wf d" and "distinct is" and "reconcile_loop env is rp (d, r, q) = (Inr rp', (d', r', q'))"
  shows "store_wf d'
    \<and> record_of d' = (\<lambda>i. if i \<in> set is then map_option (reconciled (rc_now env)) (record_of d i) else record_of d i)
    \<and> rp_requeued rp' = rp_requeued rp @ filter (in_state d QUEUED) is
    \<and> rp_failed_interrupted rp' = rp_failed_interrupted rp @ filter (in_state d RUNNING) is"
  using assms
proof (induction "is" arbitrary: d r q rp)
  case (Cons i "is")
  obtain x d1 r1 q1 where o: "reconcile_one env i rp (d, r, q) = (x, (d1, r1, q1))" by (metis prod_cases4)
  with Cons.prems obtain rp1 where x: "x = Inr rp1" by (cases x) auto
  have s: "step_ok (rc_now env) i d rp d1 rp1"
    by (rule reconcile_one_ok [OF Cons.prems(1)]) (use o x in simp)
  then have wf1: "store_wf d1" and v1: "record_of d1 = (record_of d)(i := map_option (reconciled (rc_now env)) (record_of d i))"
    by (simp_all add: step_ok_def)
  have same: "in_state d1 t j = in_state d t j" if "j \<in> set is" for t j
    using that Cons.prems(2) v1 by (auto simp: in_state_def)
  then have f: "filter (in_state d1 t) is = filter (in_state d t) is" for t by (intro filter_cong) auto
  from Cons.prems o x have "reconcile_loop env is rp1 (d1, r1, q1) = (Inr rp', (d', r', q'))" by simp
  from Cons.IH [OF wf1 _ this] Cons.prems(2) have h: "store_wf d'"
    "record_of d' = (\<lambda>j. if j \<in> set is then map_option (reconciled (rc_now env)) (record_of d1 j) else record_of d1 j)"
    "rp_requeued rp' = rp_requeued rp1 @ filter (in_state d QUEUED) is"
    "rp_failed_interrupted rp' = rp_failed_interrupted rp1 @ filter (in_state d RUNNING) is"
    by (simp_all add: f)
  show ?case using h s v1 Cons.prems(2) by (auto simp: step_ok_def)
qed simp

lemma recovery_outcome:
  assumes "store_wf d" and "recover_on_startup env (d, r, q) = (Inr rp, (d', r', q'))"
  shows "(let d1 = snd (sweep (rc_store env) (rc_now env) d) in
      record_of d' = map_option (reconciled (rc_now env)) \<circ> record_of d1
      \<and> rp_failed_interrupted rp = filter (in_state d1 RUNNING) (list_ids d1)
      \<and> rp_requeued rp = filter (in_state d1 QUEUED) (list_ids d1)
      \<and> filter (in_state d' RUNNING) (list_ids d') = [] \<and> store_wf d')"
proof -
  obtain swept d1 where s: "sweep (rc_store env) (rc_now env) d = (Inr swept, d1)"
      and d1: "d1 = without (expired (rc_now env - retention (rc_store env)) d) d"
    using sweep_spec [OF assms(1)] by blast
  have wf1: "store_wf d1" unfolding d1 by (rule without_wf [OF assms(1)])
  from assms(2) s have l: "reconcile_loop env (list_ids d1)
      \<lparr>rp_swept = swept, rp_requeued = [], rp_failed_interrupted = [], rp_quarantined = [], rp_rolled_back = []\<rparr>
      (d1, r, q) = (Inr rp, (d', r', q'))"
    by (simp add: recover_on_startup_def)
  have dist: "distinct (list_ids d1)" using wf1 by (simp add: list_ids_def store_wf_def)
  have out: "record_of d1 i = None" if "i \<notin> set (list_ids d1)" for i
  proof -
    have "map_of (job_files d1) i = None" using that by (simp add: list_ids_def map_of_eq_None_iff)
    then show ?thesis by (simp add: record_of_def load_job_def guardR_def check_id_def)
  qed
  note h = reconcile_loop_ok [OF wf1 dist l]
  have v: "record_of d' = map_option (reconciled (rc_now env)) \<circ> record_of d1"
    using h out by (auto simp: fun_eq_iff)
  have "\<not> in_state d' RUNNING i" for i
    by (cases "record_of d1 i") (auto simp: in_state_def v reconciled_def)
  with h v s show ?thesis by (simp add: Let_def)
qed



text \<open>A restart that finds one running and one queued job, and no git to run.\<close>

definition demo_rec :: "(unit, (pystr \<times> pystr) list) rec_env" where
  "demo_rec = \<lparr>rc_store = demo_cfg, rc_now = 100,
     rc_repo = (\<lambda>_. Inr \<lparr>ge_ucd = ascii_ucd, ge_git = (\<lambda>_ _ s. (NoStart [], s)), ge_path = []\<rparr>),
     rc_resubmit = Some (\<lambda>v i q. q @ [(v, i)])\<rparr>"

definition demo_restart :: job_dir where
  "demo_restart = \<lparr>job_files = [(lit ''b'', Stored (new_job (lit ''b'') (lit ''v'')), 99),
     (lit ''a'', Stored ((new_job (lit ''a'') (lit ''v''))\<lparr>job_state := RUNNING\<rparr>), 99)],
     quarantined = [], reasons = []\<rparr>"

definition demo_report :: report where
  "demo_report = \<lparr>rp_swept = [], rp_requeued = [lit ''b''], rp_failed_interrupted = [lit ''a''],
     rp_quarantined = [], rp_rolled_back = []\<rparr>"

definition demo_after :: job_dir where
  "demo_after = fst (snd (recover_on_startup demo_rec (demo_restart, ([], ()), [])))"

lemma demo_recovered: "recover_on_startup demo_rec (demo_restart, ([], ()), [])
    = (Inr demo_report, (demo_after, ([], ()), [(lit ''v'', lit ''b'')]))"
  by code_simp

lemma demo_restart_wf: "store_wf demo_restart"
  by code_simp


end
