(* ===== verification/Queue.thy ===== *)
theory Queue
  imports JobStore
begin

text \<open>
  \<^verbatim>\<open>src/groundtruth/jobs/queue.py\<close>: the per-vault FIFO queue and its worker threads.

  Each block the code runs under its lock is one function on the queue's state; a thread is what its
  program counter says: before the lock at the top of the loop, executing a job, about to announce a
  result, or ended.  \<open>qstep\<close> interleaves the blocks of all threads and callers arbitrarily and labels
  each step with what happened, so orderings are statements about labels.
\<close>

section \<open>State\<close>

datatype phase = AtLock | Executing pystr | Announcing pystr | Ended

record thread =
  t_vault :: pystr
  t_phase :: phase

record queue =
  pending :: "pystr \<Rightarrow> pystr list"            \<comment> \<open>\<open>defaultdict(deque)\<close>\<close>
  running :: "pystr \<Rightarrow> pystr option"
  workers :: "pystr \<rightharpoonup> nat"                    \<comment> \<open>vault to thread id\<close>
  threads :: "thread list"                    \<comment> \<open>every thread started, by thread id\<close>
  done_events :: "pystr \<rightharpoonup> bool"
  results :: "pystr \<rightharpoonup> job_record"
  vault_of :: "pystr \<rightharpoonup> pystr"
  stopping :: bool

definition empty_queue :: queue where
  "empty_queue = \<lparr>pending = (\<lambda>_. []), running = (\<lambda>_. None), workers = (\<lambda>_. None), threads = [],
     done_events = (\<lambda>_. None), results = (\<lambda>_. None), vault_of = (\<lambda>_. None), stopping = False\<rparr>"

record queue_position =
  qp_vault :: pystr
  qp_position :: "nat option"
  qp_depth :: nat

section \<open>Submission and observation\<close>

definition is_alive :: "queue \<Rightarrow> nat \<Rightarrow> bool" where
  "is_alive q t \<longleftrightarrow> t < length (threads q) \<and> t_phase (threads q ! t) \<noteq> Ended"

definition ensure_worker :: "pystr \<Rightarrow> queue \<Rightarrow> queue" where
  "ensure_worker v q =
    (case workers q v of
       Some t \<Rightarrow> if is_alive q t then q
         else q\<lparr>workers := (workers q)(v \<mapsto> length (threads q)),
                threads := threads q @ [\<lparr>t_vault = v, t_phase = AtLock\<rparr>]\<rparr>
     | None \<Rightarrow> q\<lparr>workers := (workers q)(v \<mapsto> length (threads q)),
                threads := threads q @ [\<lparr>t_vault = v, t_phase = AtLock\<rparr>]\<rparr>)"

definition submit :: "pystr \<Rightarrow> pystr \<Rightarrow> (queue, pystr) act" where
  "submit v j q =
    (if stopping q then (Inl (exc RuntimeError [Lit ''queue is shutting down'']), q)
     else (Inr j, ensure_worker v (q\<lparr>pending := (pending q)(v := pending q v @ [j]),
              done_events := (done_events q)(j \<mapsto> False), vault_of := (vault_of q)(j \<mapsto> v)\<rparr>)))"

text \<open>\<open>wait\<close>, at the moment its event is set or its timeout has passed.\<close>

definition wait :: "queue \<Rightarrow> pystr \<Rightarrow> job_record res" where
  "wait q j =
    (case done_events q j of
       None \<Rightarrow> Inl (exc KeyError [Repr j])
     | Some False \<Rightarrow> Inl (exc TimeoutError [Lit ''job '', Txt j, Lit '' did not finish''])
     | Some True \<Rightarrow> (case results q j of Some r \<Rightarrow> Inr r | None \<Rightarrow> Inl (exc KeyError [Repr j])))"

definition truthy_id :: "pystr option \<Rightarrow> bool" where
  "truthy_id x \<longleftrightarrow> x \<noteq> None \<and> x \<noteq> Some []"

definition depth :: "queue \<Rightarrow> pystr \<Rightarrow> nat" where
  "depth q v = length (pending q v) + (if truthy_id (running q v) then 1 else 0)"

definition position_of :: "queue \<Rightarrow> pystr \<Rightarrow> queue_position" where
  "position_of q j =
    (case vault_of q j of
       None \<Rightarrow> \<lparr>qp_vault = [], qp_position = None, qp_depth = 0\<rparr>
     | Some v \<Rightarrow> \<lparr>qp_vault = v,
         qp_position = (if running q v = Some j then Some 0
                        else map_option Suc (find_index (\<lambda>x. x = j) (pending q v))),
         qp_depth = depth q v\<rparr>)"

text \<open>\<open>shutdown\<close> before it joins the workers: only a non-draining shutdown stops them.\<close>

definition shutdown :: "bool \<Rightarrow> queue \<Rightarrow> queue" where
  "shutdown drain q = (if drain then q else q\<lparr>stopping := True\<rparr>)"

section \<open>The worker loop\<close>

datatype event =
    Submitted pystr pystr | Started pystr pystr | Completed pystr pystr job_record
  | Crashed pystr pystr exn | Announced pystr | Exited pystr | StopRequested

definition set_phase :: "nat \<Rightarrow> phase \<Rightarrow> queue \<Rightarrow> queue" where
  "set_phase t p q = q\<lparr>threads := (threads q)[t := (threads q ! t)\<lparr>t_phase := p\<rparr>]\<rparr>"

text \<open>The first locked block: leave the loop, or take the next job.\<close>

definition work_begin :: "nat \<Rightarrow> queue \<Rightarrow> event \<times> queue" where
  "work_begin t q =
    (let v = t_vault (threads q ! t) in
     if stopping q \<or> pending q v = []
     then (Exited v, set_phase t Ended (q\<lparr>workers := (workers q)(v := None)\<rparr>))
     else let j = hd (pending q v) in
       (Started v j, set_phase t (Executing j)
          (q\<lparr>pending := (pending q)(v := tl (pending q v)), running := (running q)(v \<mapsto> j)\<rparr>)))"

text \<open>The second locked block, when the runner (or the forced failure after it raised) gave a record;
  when the forced failure itself raises, the thread dies where it is.\<close>

definition work_end :: "nat \<Rightarrow> pystr \<Rightarrow> job_record res \<Rightarrow> queue \<Rightarrow> event \<times> queue" where
  "work_end t j res q =
    (let v = t_vault (threads q ! t) in
     case res of
       Inr r \<Rightarrow> (Completed v j r, set_phase t (Announcing j)
          (q\<lparr>running := (running q)(v := None), results := (results q)(j \<mapsto> r)\<rparr>))
     | Inl e \<Rightarrow> (Crashed v j e, set_phase t Ended q))"

definition announce :: "nat \<Rightarrow> pystr \<Rightarrow> queue \<Rightarrow> event \<times> queue" where
  "announce t j q = (Announced j, set_phase t AtLock (q\<lparr>done_events := (done_events q)(j \<mapsto> True)\<rparr>))"

text \<open>What the worker runs between the two blocks, on the job store.\<close>

definition worker_failure :: "message \<Rightarrow> job_record \<Rightarrow> job_record" where
  "worker_failure m r = r\<lparr>failure_stage := Some ''worker'', error := Some m\<rparr>"

definition force_fail :: "store_cfg \<Rightarrow> instant \<Rightarrow> pystr \<Rightarrow> pystr \<Rightarrow> message \<Rightarrow> (job_dir, job_record) act" where
  "force_fail cfg now v j m d =
    (case load_job d j of
       Inl e \<Rightarrow> (Inl e, d)
     | Inr c \<Rightarrow>
        let existing = (case c of Some r \<Rightarrow> r | None \<Rightarrow> new_job j v) in
        (case failing (worker_failure m) existing of
           Inl e \<Rightarrow> (Inl e, d)
         | Inr failed \<Rightarrow> update_job cfg now failed d))"

definition execute :: "store_cfg \<Rightarrow> instant \<Rightarrow> (pystr \<Rightarrow> (job_dir, job_record) act)
    \<Rightarrow> pystr \<Rightarrow> pystr \<Rightarrow> (job_dir, job_record) act" where
  "execute cfg now runner v j = tryA (runner j) (\<lambda>e. force_fail cfg now v j (emsg e))"

section \<open>Interleaved steps\<close>

definition at_phase :: "queue \<Rightarrow> nat \<Rightarrow> phase \<Rightarrow> bool" where
  "at_phase q t p \<longleftrightarrow> t < length (threads q) \<and> t_phase (threads q ! t) = p"

inductive qstep :: "queue \<Rightarrow> event \<Rightarrow> queue \<Rightarrow> bool" where
  Submit: "submit v j q = (Inr k, q') \<Longrightarrow> qstep q (Submitted v j) q'"
| Begin: "at_phase q t AtLock \<Longrightarrow> work_begin t q = (ev, q') \<Longrightarrow> qstep q ev q'"
| Finish: "at_phase q t (Executing j) \<Longrightarrow> work_end t j res q = (ev, q') \<Longrightarrow> qstep q ev q'"
| Announce: "at_phase q t (Announcing j) \<Longrightarrow> announce t j q = (ev, q') \<Longrightarrow> qstep q ev q'"
| Shutdown: "qstep q StopRequested (shutdown drain q)"

inductive_cases qstepE: "qstep q ev q'"

inductive qrun :: "queue \<Rightarrow> event list \<Rightarrow> queue \<Rightarrow> bool" where
  Nil: "qrun q [] q"
| Snoc: "qrun q evs q' \<Longrightarrow> qstep q' ev q'' \<Longrightarrow> qrun q (evs @ [ev]) q''"

section \<open>Invariant\<close>

definition thread_vault :: "queue \<Rightarrow> nat \<Rightarrow> pystr" where
  "thread_vault q t = t_vault (threads q ! t)"

definition q_inv :: "queue \<Rightarrow> bool" where
  "q_inv q \<longleftrightarrow>
    (\<forall>t. is_alive q t \<longrightarrow> workers q (thread_vault q t) = Some t)
    \<and> (\<forall>v t. workers q v = Some t \<longrightarrow> t < length (threads q) \<and> thread_vault q t = v)
    \<and> (\<forall>t j. at_phase q t (Executing j) \<longrightarrow> running q (thread_vault q t) = Some j)
    \<and> (\<forall>t j. at_phase q t (Announcing j) \<longrightarrow> results q j \<noteq> None)
    \<and> (\<forall>j. done_events q j = Some True \<longrightarrow> results q j \<noteq> None)"

lemma at_phase_alive: "at_phase q t p \<Longrightarrow> p \<noteq> Ended \<Longrightarrow> is_alive q t"
  by (simp add: at_phase_def is_alive_def)

lemma q_inv_alive_unique:
  "q_inv q \<Longrightarrow> is_alive q t \<Longrightarrow> is_alive q t' \<Longrightarrow> thread_vault q t = thread_vault q t' \<Longrightarrow> t = t'"
  unfolding q_inv_def by (metis option.inject)

text \<open>How the phase and vault of every thread change when one thread moves.\<close>

lemma set_phase_simps [simp]:
  "pending (set_phase t p q) = pending q" "running (set_phase t p q) = running q"
  "workers (set_phase t p q) = workers q" "done_events (set_phase t p q) = done_events q"
  "results (set_phase t p q) = results q" "vault_of (set_phase t p q) = vault_of q"
  "stopping (set_phase t p q) = stopping q" "length (threads (set_phase t p q)) = length (threads q)"
  by (simp_all add: set_phase_def)

lemma thread_vault_set_phase [simp]: "thread_vault (set_phase t p q) u = thread_vault q u"
  by (cases "t < length (threads q)"; cases "u = t")
    (simp_all add: thread_vault_def set_phase_def list_update_beyond)

lemma at_phase_set_phase [simp]:
  "t < length (threads q) \<Longrightarrow> at_phase (set_phase t p q) u p' \<longleftrightarrow> (if u = t then p' = p else at_phase q u p')"
  by (auto simp: at_phase_def set_phase_def)

lemma is_alive_set_phase [simp]:
  "t < length (threads q) \<Longrightarrow> is_alive (set_phase t p q) u \<longleftrightarrow> (if u = t then p \<noteq> Ended else is_alive q u)"
  by (auto simp: is_alive_def set_phase_def)

text \<open>Updates of other fields change no thread.\<close>

lemma same_threads:
  "threads q' = threads q \<Longrightarrow> thread_vault q' = thread_vault q \<and> at_phase q' = at_phase q \<and> is_alive q' = is_alive q"
  by (auto simp: thread_vault_def at_phase_def is_alive_def fun_eq_iff)

lemma other_fields [simp]:
  "thread_vault (q\<lparr>pending := a\<rparr>) = thread_vault q" "at_phase (q\<lparr>pending := a\<rparr>) = at_phase q"
  "is_alive (q\<lparr>pending := a\<rparr>) = is_alive q"
  "thread_vault (q\<lparr>running := b\<rparr>) = thread_vault q" "at_phase (q\<lparr>running := b\<rparr>) = at_phase q"
  "is_alive (q\<lparr>running := b\<rparr>) = is_alive q"
  "thread_vault (q\<lparr>workers := c\<rparr>) = thread_vault q" "at_phase (q\<lparr>workers := c\<rparr>) = at_phase q"
  "is_alive (q\<lparr>workers := c\<rparr>) = is_alive q"
  "thread_vault (q\<lparr>results := r\<rparr>) = thread_vault q" "at_phase (q\<lparr>results := r\<rparr>) = at_phase q"
  "is_alive (q\<lparr>results := r\<rparr>) = is_alive q"
  "thread_vault (q\<lparr>done_events := d\<rparr>) = thread_vault q" "at_phase (q\<lparr>done_events := d\<rparr>) = at_phase q"
  "is_alive (q\<lparr>done_events := d\<rparr>) = is_alive q"
  "thread_vault (q\<lparr>vault_of := e\<rparr>) = thread_vault q" "at_phase (q\<lparr>vault_of := e\<rparr>) = at_phase q"
  "is_alive (q\<lparr>vault_of := e\<rparr>) = is_alive q"
  "thread_vault (q\<lparr>stopping := f\<rparr>) = thread_vault q" "at_phase (q\<lparr>stopping := f\<rparr>) = at_phase q"
  "is_alive (q\<lparr>stopping := f\<rparr>) = is_alive q"
  by (simp_all add: thread_vault_def at_phase_def is_alive_def fun_eq_iff)

lemma thread_index: "at_phase q t p \<Longrightarrow> t < length (threads q)"
  by (simp add: at_phase_def)

lemma ensure_worker_inv:
  assumes "q_inv q"
  shows "q_inv (ensure_worker v q)"
proof -
  define q' where "q' = q\<lparr>workers := (workers q)(v \<mapsto> length (threads q)),
    threads := threads q @ [\<lparr>t_vault = v, t_phase = AtLock\<rparr>]\<rparr>"
  have tv: "thread_vault q' u = (if u < length (threads q) then thread_vault q u else v)"
    if "u \<le> length (threads q)" for u
    using that by (simp add: thread_vault_def q'_def nth_append)
  have ap: "at_phase q' u p \<longleftrightarrow> (if u = length (threads q) then p = AtLock else at_phase q u p)" for u p
    by (auto simp: at_phase_def q'_def nth_append less_Suc_eq)
  have al: "is_alive q' u \<longleftrightarrow> u = length (threads q) \<or> is_alive q u" for u
    by (auto simp: is_alive_def q'_def nth_append less_Suc_eq)
  have "q_inv q'" if dead: "\<And>t. workers q v = Some t \<Longrightarrow> \<not> is_alive q t"
    unfolding q_inv_def
  proof (intro conjI allI impI)
    fix t assume a: "is_alive q' t"
    show "workers q' (thread_vault q' t) = Some t"
    proof (cases "t = length (threads q)")
      case True
      then show ?thesis using tv [of t] by (simp add: q'_def thread_vault_def)
    next
      case False
      with a al have old: "is_alive q t" by simp
      then have "workers q (thread_vault q t) = Some t" "t < length (threads q)"
        using assms by (auto simp: q_inv_def is_alive_def)
      moreover from this old dead have "thread_vault q t \<noteq> v" by metis
      ultimately show ?thesis using tv [of t] by (simp add: q'_def)
    qed
  next
    fix u t assume "workers q' u = Some t"
    then have "t = length (threads q) \<and> u = v \<or> t < length (threads q) \<and> thread_vault q t = u"
      using assms by (auto simp: q'_def q_inv_def split: if_splits)
    then show "t < length (threads q')" "thread_vault q' t = u"
      using tv [of t] by (auto simp: q'_def)
  next
    fix t j assume "at_phase q' t (Executing j)"
    then have "at_phase q t (Executing j)" "t < length (threads q)"
      using ap by (auto simp: at_phase_def split: if_splits)
    then show "running q' (thread_vault q' t) = Some j"
      using assms tv [of t] by (simp add: q_inv_def) (simp add: q'_def)
  qed (use assms ap in \<open>auto simp: q_inv_def q'_def split: if_splits\<close>)
  with assms show ?thesis
    by (auto simp: ensure_worker_def q'_def split: option.split)
qed

lemma submit_inv: "q_inv q \<Longrightarrow> submit v j q = (Inr k, q') \<Longrightarrow> q_inv q'"
proof -
  assume "q_inv q" "submit v j q = (Inr k, q')"
  moreover have "q_inv (q\<lparr>pending := a, done_events := (done_events q)(j \<mapsto> False), vault_of := b\<rparr>)"
    if "q_inv q" for a b
    using that by (simp add: q_inv_def)
  ultimately show "q_inv q'"
    by (auto simp: submit_def split: if_splits intro!: ensure_worker_inv)
qed

text \<open>One thread moves to phase \<open>p\<close> while the other fields change to those of \<open>q1\<close>.\<close>

lemma move_inv:
  assumes inv: "q_inv q" and al: "is_alive q t" and v: "v = thread_vault q t"
    and same: "threads q1 = threads q"
    and other: "\<And>u. u \<noteq> v \<Longrightarrow> workers q1 u = workers q u \<and> running q1 u = running q u"
    and wk: "workers q1 v = workers q v \<or> workers q1 v = None \<and> p = Ended"
    and rn: "\<And>j. p = Executing j \<Longrightarrow> running q1 v = Some j"
    and rs: "\<And>j. results q j \<noteq> None \<Longrightarrow> results q1 j \<noteq> None"
    and an: "\<And>j. p = Announcing j \<Longrightarrow> results q1 j \<noteq> None"
    and dn: "\<And>j. done_events q1 j = Some True \<Longrightarrow> results q1 j \<noteq> None"
  shows "q_inv (set_phase t p q1)"
proof -
  have len: "t < length (threads q1)" using al same by (simp add: is_alive_def)
  from same_threads [OF same] have th [simp]:
    "thread_vault q1 = thread_vault q" "at_phase q1 = at_phase q" "is_alive q1 = is_alive q" by simp_all
  have uniq: "thread_vault q u \<noteq> v" if "is_alive q u" "u \<noteq> t" for u
    using q_inv_alive_unique [OF inv al that(1)] that(2) v by metis
  have tw: "workers q v = Some t" using inv al v by (simp add: q_inv_def)
  show ?thesis
    unfolding q_inv_def set_phase_simps thread_vault_set_phase th same
  proof (intro conjI allI impI)
    fix u assume a: "is_alive (set_phase t p q1) u"
    show "workers q1 (thread_vault q u) = Some u"
    proof (cases "u = t")
      case True
      then show ?thesis using a len wk tw v by auto
    next
      case False
      then have "is_alive q u" using a len by simp
      with uniq False other inv show ?thesis by (simp add: q_inv_def)
    qed
  next
    fix u w assume a: "workers q1 u = Some w"
    then have "workers q u = Some w" using wk other by (cases "u = v") auto
    then show "w < length (threads q)" "thread_vault q w = u" using inv by (simp_all add: q_inv_def)
  next
    fix u j assume a: "at_phase (set_phase t p q1) u (Executing j)"
    show "running q1 (thread_vault q u) = Some j"
    proof (cases "u = t")
      case True
      then show ?thesis using a len rn v by simp
    next
      case False
      then have e: "at_phase q u (Executing j)" using a len by simp
      then have "thread_vault q u \<noteq> v" using uniq False at_phase_alive by blast
      with e other inv show ?thesis by (simp add: q_inv_def)
    qed
  next
    fix u j assume a: "at_phase (set_phase t p q1) u (Announcing j)"
    show "results q1 j \<noteq> None"
    proof (cases "u = t")
      case True
      then show ?thesis using a len an by simp
    next
      case False
      then have "results q j \<noteq> None" using a len inv by (simp add: q_inv_def)
      then show ?thesis by (rule rs)
    qed
  next
    fix j assume "done_events q1 j = Some True"
    then show "results q1 j \<noteq> None" by (rule dn)
  qed
qed

lemma done_results: "q_inv q \<Longrightarrow> done_events q j = Some True \<Longrightarrow> results q j \<noteq> None"
  by (simp add: q_inv_def)

lemma work_begin_inv:
  assumes inv: "q_inv q" and at: "at_phase q t AtLock" and step: "work_begin t q = (ev, q')"
  shows "q_inv q'"
proof -
  note al = at_phase_alive [OF at, simplified]
  define v where "v = thread_vault q t"
  show ?thesis
  proof (cases "stopping q \<or> pending q v = []")
    case True
    then have q': "q' = set_phase t Ended (q\<lparr>workers := (workers q)(v := None)\<rparr>)"
      using step by (simp add: work_begin_def Let_def v_def thread_vault_def)
    show ?thesis
      unfolding q' by (rule move_inv [OF inv al v_def]) (use inv done_results in auto)
  next
    case False
    then have q': "q' = set_phase t (Executing (hd (pending q v)))
        (q\<lparr>pending := (pending q)(v := tl (pending q v)), running := (running q)(v \<mapsto> hd (pending q v))\<rparr>)"
      using step by (simp add: work_begin_def Let_def v_def thread_vault_def)
    show ?thesis
      unfolding q' by (rule move_inv [OF inv al v_def]) (use inv done_results in auto)
  qed
qed

lemma work_end_inv:
  assumes inv: "q_inv q" and at: "at_phase q t (Executing j)" and step: "work_end t j res q = (ev, q')"
  shows "q_inv q'"
proof -
  note al = at_phase_alive [OF at, simplified]
  define v where "v = thread_vault q t"
  show ?thesis
  proof (cases res)
    case (Inl e)
    then have q': "q' = set_phase t Ended q" using step by (simp add: work_end_def Let_def)
    show ?thesis
      unfolding q' by (rule move_inv [OF inv al v_def]) (use inv done_results in auto)
  next
    case (Inr r)
    then have q': "q' = set_phase t (Announcing j)
        (q\<lparr>running := (running q)(v := None), results := (results q)(j \<mapsto> r)\<rparr>)"
      using step by (simp add: work_end_def Let_def v_def thread_vault_def)
    show ?thesis
      unfolding q' by (rule move_inv [OF inv al v_def])
        (use done_results [OF inv] in \<open>auto simp del: not_None_eq\<close>)
  qed
qed

lemma announce_inv:
  assumes inv: "q_inv q" and at: "at_phase q t (Announcing j)" and step: "announce t j q = (ev, q')"
  shows "q_inv q'"
proof -
  from step have q': "q' = set_phase t AtLock (q\<lparr>done_events := (done_events q)(j \<mapsto> True)\<rparr>)"
    by (simp add: announce_def)
  have "results q j \<noteq> None" using inv at unfolding q_inv_def by blast
  then show ?thesis
    unfolding q' by (intro move_inv [OF inv at_phase_alive [OF at] refl])
      (use done_results [OF inv] in \<open>auto split: if_splits simp del: not_None_eq\<close>)
qed

lemma qstep_inv: "qstep q ev q' \<Longrightarrow> q_inv q \<Longrightarrow> q_inv q'"
proof (induction rule: qstep.induct)
  case (Shutdown q drain)
  then show ?case by (simp add: shutdown_def q_inv_def)
qed (blast intro: submit_inv work_begin_inv work_end_inv announce_inv)+

lemma qrun_inv: "qrun q evs q' \<Longrightarrow> q_inv q \<Longrightarrow> q_inv q'"
  by (induction rule: qrun.induct) (auto intro: qstep_inv)

lemma empty_queue_inv: "q_inv empty_queue"
  by (simp add: q_inv_def empty_queue_def is_alive_def at_phase_def)

section \<open>Order\<close>

fun submitted :: "pystr \<Rightarrow> event list \<Rightarrow> pystr list" where
  "submitted v [] = []"
| "submitted v (Submitted u j # evs) = (if u = v then j # submitted v evs else submitted v evs)"
| "submitted v (_ # evs) = submitted v evs"

fun started :: "pystr \<Rightarrow> event list \<Rightarrow> pystr list" where
  "started v [] = []"
| "started v (Started u j # evs) = (if u = v then j # started v evs else started v evs)"
| "started v (_ # evs) = started v evs"

lemma submitted_append [simp]: "submitted v (xs @ ys) = submitted v xs @ submitted v ys"
  by (induction v xs rule: submitted.induct) simp_all

lemma started_append [simp]: "started v (xs @ ys) = started v xs @ started v ys"
  by (induction v xs rule: started.induct) simp_all

lemma pending_ensure_worker [simp]: "pending (ensure_worker v q) = pending q"
  by (simp add: ensure_worker_def split: option.split)

text \<open>What one step does to the jobs waiting on a vault.\<close>

lemma qstep_pending:
  "qstep q ev q' \<Longrightarrow> pending q v @ submitted v [ev] = started v [ev] @ pending q' v"
proof (induction rule: qstep.induct)
  case (Submit u j q k q')
  then show ?case by (auto simp: submit_def split: if_splits)
next
  case (Begin q t ev q')
  then show ?case by (auto simp: work_begin_def Let_def split: if_splits)
next
  case (Finish q t j res ev q')
  then show ?case by (auto simp: work_end_def Let_def split: sum.splits)
next
  case (Announce q t j ev q')
  then show ?case by (auto simp: announce_def)
next
  case (Shutdown q drain)
  then show ?case by (simp add: shutdown_def)
qed

lemma qrun_pending:
  "qrun q evs q' \<Longrightarrow> pending q v @ submitted v evs = started v evs @ pending q' v"
proof (induction rule: qrun.induct)
  case (Nil q)
  then show ?case by simp
next
  case (Snoc q evs q' ev q'')
  from Snoc.IH qstep_pending [OF Snoc.hyps(2), of v] show ?case by (metis append.assoc submitted_append started_append)
qed

section \<open>No job is forgotten\<close>

text \<open>While no worker dies of an exception, waiting jobs always have a live worker.\<close>

definition is_crash :: "event \<Rightarrow> bool" where
  "is_crash ev = (case ev of Crashed _ _ _ \<Rightarrow> True | _ \<Rightarrow> False)"

definition served :: "queue \<Rightarrow> bool" where
  "served q \<longleftrightarrow> (\<forall>v. pending q v \<noteq> [] \<longrightarrow> stopping q \<or> (\<exists>t. workers q v = Some t \<and> is_alive q t))"

lemma ensure_worker_serves: "\<exists>t. workers (ensure_worker v q) v = Some t \<and> is_alive (ensure_worker v q) t"
  by (auto simp: ensure_worker_def is_alive_def nth_append split: option.split)

lemma ensure_worker_other:
  "workers q u = Some t \<Longrightarrow> is_alive q t \<Longrightarrow>
    workers (ensure_worker v q) u = Some t \<and> is_alive (ensure_worker v q) t"
  by (auto simp: ensure_worker_def is_alive_def nth_append split: option.split)

lemma stopping_ensure_worker [simp]: "stopping (ensure_worker v q) = stopping q"
  by (simp add: ensure_worker_def split: option.split)

lemma served_move:
  assumes sv: "served q" and t: "t < length (threads q)" and p: "p \<noteq> Ended"
    and same: "threads q1 = threads q" "workers q1 = workers q" "stopping q1 = stopping q"
    and pend: "\<And>u. pending q1 u \<noteq> [] \<Longrightarrow> pending q u \<noteq> []"
  shows "served (set_phase t p q1)"
  unfolding served_def
proof (intro allI impI)
  fix u assume "pending (set_phase t p q1) u \<noteq> []"
  then have "pending q u \<noteq> []" using pend by simp
  with sv consider "stopping q" | s where "workers q u = Some s" "is_alive q s"
    unfolding served_def by blast
  then show "stopping (set_phase t p q1) \<or>
      (\<exists>s. workers (set_phase t p q1) u = Some s \<and> is_alive (set_phase t p q1) s)"
  proof cases
    case 1
    then show ?thesis by (simp add: same)
  next
    case 2
    have "is_alive (set_phase t p q1) s"
      using 2 t p same_threads [OF same(1)] by (cases "s = t") (simp_all add: same)
    with 2 show ?thesis by (simp add: same)
  qed
qed

lemma qstep_served:
  "qstep q ev q' \<Longrightarrow> q_inv q \<Longrightarrow> served q \<Longrightarrow> \<not> is_crash ev \<Longrightarrow> served q'"
proof (induction rule: qstep.induct)
  case (Submit v j q k q')
  define q1 where "q1 = q\<lparr>pending := (pending q)(v := pending q v @ [j]),
    done_events := (done_events q)(j \<mapsto> False), vault_of := (vault_of q)(j \<mapsto> v)\<rparr>"
  have q': "q' = ensure_worker v q1" using Submit(1) by (auto simp: submit_def q1_def split: if_splits)
  show ?case unfolding served_def
  proof (intro allI impI)
    fix u assume u: "pending q' u \<noteq> []"
    show "stopping q' \<or> (\<exists>t. workers q' u = Some t \<and> is_alive q' t)"
    proof (cases "u = v")
      case True
      then show ?thesis unfolding q' using ensure_worker_serves by blast
    next
      case False
      with u Submit.prems have "stopping q1 \<or> (\<exists>t. workers q1 u = Some t \<and> is_alive q1 t)"
        by (simp add: q' q1_def served_def)
      then show ?thesis unfolding q' using ensure_worker_other by fastforce
    qed
  qed
next
  case (Begin q t ev q')
  note t = thread_index [OF Begin(1)] and al = at_phase_alive [OF Begin(1), simplified]
  let ?v = "t_vault (threads q ! t)"
  have w: "workers q ?v = Some t" using Begin.prems al by (simp add: q_inv_def thread_vault_def)
  show ?case
  proof (cases "stopping q \<or> pending q ?v = []")
    case True
    then have q': "q' = set_phase t Ended (q\<lparr>workers := (workers q)(?v := None)\<rparr>)"
      using Begin(2) by (simp add: work_begin_def Let_def)
    show ?thesis unfolding served_def
    proof (intro allI impI)
      fix u assume "pending q' u \<noteq> []"
      then have "stopping q \<or> u \<noteq> ?v \<and> (\<exists>s. workers q u = Some s \<and> is_alive q s)"
        using Begin.prems True by (auto simp: q' served_def)
      moreover have "s \<noteq> t" if "workers q u = Some s" "u \<noteq> ?v" for s
        using that Begin.prems(1) unfolding q_inv_def thread_vault_def by metis
      ultimately show "stopping q' \<or> (\<exists>s. workers q' u = Some s \<and> is_alive q' s)"
        using t unfolding q' by auto
    qed
  next
    case False
    then have q': "q' = set_phase t (Executing (hd (pending q ?v)))
        (q\<lparr>pending := (pending q)(?v := tl (pending q ?v)), running := (running q)(?v \<mapsto> hd (pending q ?v))\<rparr>)"
      using Begin(2) by (simp add: work_begin_def Let_def)
    show ?thesis unfolding q' by (rule served_move [OF Begin.prems(2) t]) (use False in \<open>auto split: if_splits\<close>)
  qed
next
  case (Finish q t j res ev q')
  obtain r where q': "q' = set_phase t (Announcing j)
      (q\<lparr>running := (running q)(t_vault (threads q ! t) := None), results := (results q)(j \<mapsto> r)\<rparr>)"
    using Finish by (auto simp: work_end_def Let_def is_crash_def split: sum.splits)
  show ?case unfolding q' by (rule served_move [OF Finish.prems(2) thread_index [OF Finish(1)]]) simp_all
next
  case (Announce q t j ev q')
  then have q': "q' = set_phase t AtLock (q\<lparr>done_events := (done_events q)(j \<mapsto> True)\<rparr>)"
    by (simp add: announce_def)
  show ?case unfolding q' by (rule served_move [OF Announce.prems(2) thread_index [OF Announce(1)]]) simp_all
next
  case (Shutdown q drain)
  then show ?case by (auto simp: shutdown_def served_def)
qed

lemma qrun_served:
  "qrun q evs q' \<Longrightarrow> q_inv q \<Longrightarrow> served q \<Longrightarrow> list_all (\<lambda>ev. \<not> is_crash ev) evs \<Longrightarrow> served q'"
proof (induction rule: qrun.induct)
  case (Snoc q evs q' ev q'')
  then show ?case using qstep_served [of q' ev q''] qrun_inv [of q evs q'] by simp
qed simp

text \<open>A job whose event is not set is waiting, executing or being announced.\<close>

definition tracked :: "queue \<Rightarrow> bool" where
  "tracked q \<longleftrightarrow> (\<forall>j. done_events q j = Some False \<longrightarrow>
    (\<exists>v. j \<in> set (pending q v)) \<or> (\<exists>t. at_phase q t (Executing j) \<or> at_phase q t (Announcing j)))"

lemma done_events_ensure_worker [simp]: "done_events (ensure_worker v q) = done_events q"
  by (simp add: ensure_worker_def split: option.split)

lemma at_phase_ensure_worker: "at_phase q t p \<Longrightarrow> at_phase (ensure_worker v q) t p"
  by (auto simp: ensure_worker_def at_phase_def nth_append split: option.split)

lemma qstep_tracked: "qstep q ev q' \<Longrightarrow> tracked q \<Longrightarrow> \<not> is_crash ev \<Longrightarrow> tracked q'"
proof (induction rule: qstep.induct)
  case (Submit v j q k q')
  define q1 where "q1 = q\<lparr>pending := (pending q)(v := pending q v @ [j]),
    done_events := (done_events q)(j \<mapsto> False), vault_of := (vault_of q)(j \<mapsto> v)\<rparr>"
  have q': "q' = ensure_worker v q1" using Submit(1) by (auto simp: submit_def q1_def split: if_splits)
  show ?case unfolding tracked_def
  proof (intro allI impI)
    fix i assume i: "done_events q' i = Some False"
    show "(\<exists>u. i \<in> set (pending q' u)) \<or> (\<exists>t. at_phase q' t (Executing i) \<or> at_phase q' t (Announcing i))"
    proof (cases "i = j")
      case True
      then have "i \<in> set (pending q' v)" by (simp add: q' q1_def)
      then show ?thesis by blast
    next
      case False
      with i have "done_events q i = Some False" by (simp add: q' q1_def)
      with Submit.prems consider u where "i \<in> set (pending q u)"
        | t where "at_phase q t (Executing i) \<or> at_phase q t (Announcing i)"
        unfolding tracked_def by blast
      then show ?thesis
      proof cases
        case 1
        then have "i \<in> set (pending q' u)" by (auto simp: q' q1_def)
        then show ?thesis by blast
      next
        case 2
        then have "at_phase q1 t (Executing i) \<or> at_phase q1 t (Announcing i)" by (simp add: q1_def)
        then show ?thesis unfolding q' using at_phase_ensure_worker by blast
      qed
    qed
  qed
next
  case (Begin q t ev q')
  note t = thread_index [OF Begin(1)]
  let ?v = "t_vault (threads q ! t)"
  show ?case
  proof (cases "stopping q \<or> pending q ?v = []")
    case True
    then have q': "q' = set_phase t Ended (q\<lparr>workers := (workers q)(?v := None)\<rparr>)"
      using Begin(2) by (simp add: work_begin_def Let_def)
    show ?thesis unfolding tracked_def
    proof (intro allI impI)
      fix i assume "done_events q' i = Some False"
      then consider u where "i \<in> set (pending q u)"
        | s where "at_phase q s (Executing i) \<or> at_phase q s (Announcing i)"
        using Begin.prems unfolding tracked_def by (simp add: q') blast
      then show "(\<exists>u. i \<in> set (pending q' u)) \<or> (\<exists>s. at_phase q' s (Executing i) \<or> at_phase q' s (Announcing i))"
      proof cases
        case 1
        then have "i \<in> set (pending q' u)" by (simp add: q')
        then show ?thesis by blast
      next
        case 2
        then have "s \<noteq> t" using Begin(1) by (auto simp: at_phase_def)
        with 2 t have "at_phase q' s (Executing i) \<or> at_phase q' s (Announcing i)" by (simp add: q')
        then show ?thesis by blast
      qed
    qed
  next
    case False
    then have q': "q' = set_phase t (Executing (hd (pending q ?v)))
        (q\<lparr>pending := (pending q)(?v := tl (pending q ?v)), running := (running q)(?v \<mapsto> hd (pending q ?v))\<rparr>)"
      using Begin(2) by (simp add: work_begin_def Let_def)
    show ?thesis unfolding tracked_def
    proof (intro allI impI)
      fix i assume "done_events q' i = Some False"
      then consider u where "i \<in> set (pending q u)"
        | s where "at_phase q s (Executing i) \<or> at_phase q s (Announcing i)"
        using Begin.prems unfolding tracked_def by (simp add: q') blast
      then show "(\<exists>u. i \<in> set (pending q' u)) \<or> (\<exists>s. at_phase q' s (Executing i) \<or> at_phase q' s (Announcing i))"
      proof cases
        case 1
        then have "i \<in> set (pending q' u) \<or> u = ?v \<and> i = hd (pending q ?v)"
          using False by (cases "pending q ?v") (auto simp: q')
        moreover have "at_phase q' t (Executing (hd (pending q ?v)))" using t by (simp add: q')
        ultimately show ?thesis by blast
      next
        case 2
        then have "s \<noteq> t" using Begin(1) by (auto simp: at_phase_def)
        with 2 t have "at_phase q' s (Executing i) \<or> at_phase q' s (Announcing i)" by (simp add: q')
        then show ?thesis by blast
      qed
    qed
  qed
next
  case (Finish q t j res ev q')
  note t = thread_index [OF Finish(1)]
  let ?v = "t_vault (threads q ! t)"
  obtain r where q': "q' = set_phase t (Announcing j)
      (q\<lparr>running := (running q)(?v := None), results := (results q)(j \<mapsto> r)\<rparr>)"
    using Finish by (auto simp: work_end_def Let_def is_crash_def split: sum.splits)
  show ?case unfolding tracked_def
  proof (intro allI impI)
    fix i assume "done_events q' i = Some False"
    then consider u where "i \<in> set (pending q u)"
      | s where "at_phase q s (Executing i) \<or> at_phase q s (Announcing i)"
      using Finish.prems unfolding tracked_def by (simp add: q') blast
    then show "(\<exists>u. i \<in> set (pending q' u)) \<or> (\<exists>s. at_phase q' s (Executing i) \<or> at_phase q' s (Announcing i))"
    proof cases
      case 1
      then have "i \<in> set (pending q' u)" by (simp add: q')
      then show ?thesis by blast
    next
      case 2
      have "s = t \<Longrightarrow> i = j" using 2 Finish(1) by (auto simp: at_phase_def)
      with 2 t have "at_phase q' s (Executing i) \<or> at_phase q' s (Announcing i)"
        by (cases "s = t") (simp_all add: q')
      then show ?thesis by blast
    qed
  qed
next
  case (Announce q t j ev q')
  note t = thread_index [OF Announce(1)]
  have q': "q' = set_phase t AtLock (q\<lparr>done_events := (done_events q)(j \<mapsto> True)\<rparr>)"
    using Announce(2) by (simp add: announce_def)
  show ?case unfolding tracked_def
  proof (intro allI impI)
    fix i assume "done_events q' i = Some False"
    then have ij: "i \<noteq> j" "done_events q i = Some False" by (auto simp: q' split: if_splits)
    then consider u where "i \<in> set (pending q u)"
      | s where "at_phase q s (Executing i) \<or> at_phase q s (Announcing i)"
      using Announce.prems unfolding tracked_def by blast
    then show "(\<exists>u. i \<in> set (pending q' u)) \<or> (\<exists>s. at_phase q' s (Executing i) \<or> at_phase q' s (Announcing i))"
    proof cases
      case 1
      then have "i \<in> set (pending q' u)" by (simp add: q')
      then show ?thesis by blast
    next
      case 2
      have "s \<noteq> t" using 2 ij(1) Announce(1) by (auto simp: at_phase_def)
      with 2 t have "at_phase q' s (Executing i) \<or> at_phase q' s (Announcing i)" by (simp add: q')
      then show ?thesis by blast
    qed
  qed
next
  case (Shutdown q drain)
  then show ?case by (simp add: shutdown_def tracked_def)
qed

lemma qrun_tracked:
  "qrun q evs q' \<Longrightarrow> tracked q \<Longrightarrow> list_all (\<lambda>ev. \<not> is_crash ev) evs \<Longrightarrow> tracked q'"
  by (induction rule: qrun.induct) (auto intro: qstep_tracked)

section \<open>Draining takes a bounded number of steps\<close>

fun phase_cost :: "phase \<Rightarrow> nat" where
  "phase_cost AtLock = 1"
| "phase_cost (Executing _) = 3"
| "phase_cost (Announcing _) = 2"
| "phase_cost Ended = 0"

definition thread_cost :: "queue \<Rightarrow> nat \<Rightarrow> nat" where
  "thread_cost q t =
    (if is_alive q t then 3 * length (pending q (thread_vault q t)) + phase_cost (t_phase (threads q ! t)) else 0)"

definition work_left :: "queue \<Rightarrow> nat" where
  "work_left q = (\<Sum>t < length (threads q). thread_cost q t)"

definition worker_event :: "event \<Rightarrow> bool" where
  "worker_event ev = (case ev of Submitted _ _ \<Rightarrow> False | StopRequested \<Rightarrow> False | _ \<Rightarrow> True)"

lemma thread_cost_phase: "at_phase q t p \<Longrightarrow> p \<noteq> Ended \<Longrightarrow>
    thread_cost q t = 3 * length (pending q (thread_vault q t)) + phase_cost p"
  by (simp add: thread_cost_def is_alive_def at_phase_def)

lemma work_left_move:
  assumes t: "t < length (threads q)" and same: "threads q1 = threads q"
    and less: "(if p = Ended then 0 else 3 * length (pending q1 (thread_vault q t)) + phase_cost p) < thread_cost q t"
    and pend: "\<And>u. length (pending q1 u) \<le> length (pending q u)"
  shows "work_left (set_phase t p q1) < work_left q"
  unfolding work_left_def set_phase_simps same
proof (rule sum_strict_mono_ex1)
  from same_threads [OF same] have th: "thread_vault q1 = thread_vault q" "is_alive q1 = is_alive q" by simp_all
  have ph: "threads (set_phase t p q1) ! u = (if u = t then (threads q ! t)\<lparr>t_phase := p\<rparr> else threads q ! u)"
    if "u < length (threads q)" for u
    using that by (simp add: set_phase_def same)
  have cost_t: "thread_cost (set_phase t p q1) t < thread_cost q t"
    using t less ph [OF t] by (simp add: thread_cost_def th same split: if_splits)
  have cost_u: "thread_cost (set_phase t p q1) u \<le> thread_cost q u" if "u < length (threads q)" "u \<noteq> t" for u
    using that t pend [of "thread_vault q u"] ph [OF that(1)] by (simp add: thread_cost_def th same)
  show "\<forall>u \<in> {..<length (threads q)}. thread_cost (set_phase t p q1) u \<le> thread_cost q u"
    using cost_t cost_u by (metis lessThan_iff less_imp_le)
  show "\<exists>u \<in> {..<length (threads q)}. thread_cost (set_phase t p q1) u < thread_cost q u"
    using cost_t t by blast
qed simp

lemma qstep_work_left: "qstep q ev q' \<Longrightarrow> worker_event ev \<Longrightarrow> work_left q' < work_left q"
proof (induction rule: qstep.induct)
  case (Begin q t ev q')
  note t = thread_index [OF Begin(1)] and c = thread_cost_phase [OF Begin(1), simplified]
  show ?case
  proof (cases "stopping q \<or> pending q (thread_vault q t) = []")
    case True
    then have q': "q' = set_phase t Ended (q\<lparr>workers := (workers q)(thread_vault q t := None)\<rparr>)"
      using Begin(2) by (simp add: work_begin_def Let_def thread_vault_def)
    show ?thesis unfolding q' by (rule work_left_move [OF t]) (simp_all add: c)
  next
    case False
    then have q': "q' = set_phase t (Executing (hd (pending q (thread_vault q t))))
        (q\<lparr>pending := (pending q)(thread_vault q t := tl (pending q (thread_vault q t))),
           running := (running q)(thread_vault q t \<mapsto> hd (pending q (thread_vault q t)))\<rparr>)"
      using Begin(2) by (simp add: work_begin_def Let_def thread_vault_def)
    obtain j js where "pending q (thread_vault q t) = j # js" using False by (auto simp: neq_Nil_conv)
    then show ?thesis unfolding q' by (intro work_left_move [OF t]) (simp_all add: c)
  qed
next
  case (Finish q t j res ev q')
  note t = thread_index [OF Finish(1)] and c = thread_cost_phase [OF Finish(1), simplified]
  show ?case
  proof (cases res)
    case (Inl e)
    then have q': "q' = set_phase t Ended q" using Finish(2) by (simp add: work_end_def Let_def)
    show ?thesis unfolding q' by (rule work_left_move [OF t]) (simp_all add: c)
  next
    case (Inr r)
    then have q': "q' = set_phase t (Announcing j)
        (q\<lparr>running := (running q)(t_vault (threads q ! t) := None), results := (results q)(j \<mapsto> r)\<rparr>)"
      using Finish(2) by (simp add: work_end_def Let_def)
    show ?thesis unfolding q' by (rule work_left_move [OF t]) (simp_all add: c)
  qed
next
  case (Announce q t j ev q')
  note t = thread_index [OF Announce(1)] and c = thread_cost_phase [OF Announce(1), simplified]
  have q': "q' = set_phase t AtLock (q\<lparr>done_events := (done_events q)(j \<mapsto> True)\<rparr>)"
    using Announce(2) by (simp add: announce_def)
  show ?case unfolding q' by (rule work_left_move [OF t]) (simp_all add: c)
qed (simp_all add: worker_event_def)

lemma qrun_work_left:
  "qrun q evs q' \<Longrightarrow> list_all worker_event evs \<Longrightarrow> length evs + work_left q' \<le> work_left q"
proof (induction rule: qrun.induct)
  case (Snoc q evs q' ev q'')
  then show ?case using qstep_work_left [of q' ev q''] by simp
qed simp

text \<open>A live worker can always move, without dying.\<close>

lemma alive_can_step:
  assumes "is_alive q t"
  shows "\<exists>ev q'. qstep q ev q' \<and> worker_event ev \<and> \<not> is_crash ev"
proof -
  have t: "at_phase q t (t_phase (threads q ! t))" using assms by (simp add: at_phase_def is_alive_def)
  show ?thesis
  proof (cases "t_phase (threads q ! t)")
    case AtLock
    obtain ev q' where w: "work_begin t q = (ev, q')" by fastforce
    then have "worker_event ev" "\<not> is_crash ev"
      by (auto simp: work_begin_def Let_def worker_event_def is_crash_def split: if_splits)
    with w t AtLock show ?thesis by (metis qstep.Begin)
  next
    case (Executing j)
    obtain ev q' where w: "work_end t j (Inr (new_job j [])) q = (ev, q')" by fastforce
    then have "worker_event ev" "\<not> is_crash ev"
      by (auto simp: work_end_def Let_def worker_event_def is_crash_def)
    with w t Executing show ?thesis by (metis qstep.Finish)
  next
    case (Announcing j)
    obtain ev q' where w: "announce t j q = (ev, q')" by fastforce
    then have "worker_event ev" "\<not> is_crash ev"
      by (auto simp: announce_def worker_event_def is_crash_def)
    with w t Announcing show ?thesis by (metis qstep.Announce)
  next
    case Ended
    with assms show ?thesis by (simp add: is_alive_def)
  qed
qed

section \<open>Properties\<close>

lemma empty_queue_served: "served empty_queue" "tracked empty_queue"
  by (simp_all add: served_def tracked_def empty_queue_def)

text \<open>
  C19. In every state the queue can reach, through any interleaving of submissions, worker steps,
  worker deaths and shutdowns, at most one thread is executing a job of a given vault.
\<close>

theorem one_job_per_vault:
  assumes "qrun empty_queue evs q"
    and "at_phase q t (Executing j)" and "at_phase q t' (Executing j')"
    and "thread_vault q t = thread_vault q t'"
  shows "t = t' \<and> j = j'"
proof -
  have "q_inv q" using assms(1) empty_queue_inv by (rule qrun_inv)
  moreover have "is_alive q t" "is_alive q t'" using assms(2,3) at_phase_alive by blast+
  ultimately have "t = t'" using assms(4) by (rule q_inv_alive_unique)
  with assms(2,3) show ?thesis by (simp add: at_phase_def)
qed

text \<open>A concrete run: two jobs of one vault are submitted and the worker takes the first.\<close>

definition demo_q2 :: queue where
  "demo_q2 = snd (submit (lit ''v'') (lit ''b'') (snd (submit (lit ''v'') (lit ''a'') empty_queue)))"

definition demo_q3 :: queue where
  "demo_q3 = snd (work_begin 0 demo_q2)"

definition demo_events :: "event list" where
  "demo_events = [Submitted (lit ''v'') (lit ''a''), Submitted (lit ''v'') (lit ''b''), Started (lit ''v'') (lit ''a'')]"

lemma demo_run: "qrun empty_queue demo_events demo_q3"
proof -
  let ?v = "lit ''v''" and ?a = "lit ''a''" and ?b = "lit ''b''"
  have "qrun empty_queue ([] @ [Submitted ?v ?a]) (snd (submit ?v ?a empty_queue))"
    by (rule qrun.Snoc [OF qrun.Nil], rule qstep.Submit [where k = ?a])
      (simp add: submit_def empty_queue_def)
  then have "qrun empty_queue (([] @ [Submitted ?v ?a]) @ [Submitted ?v ?b]) demo_q2"
    unfolding demo_q2_def
    by (rule qrun.Snoc, intro qstep.Submit [where k = ?b])
      (simp add: submit_def empty_queue_def ensure_worker_def)
  then have "qrun empty_queue ((([] @ [Submitted ?v ?a]) @ [Submitted ?v ?b]) @ [Started ?v ?a]) demo_q3"
  proof (rule qrun.Snoc)
    have "at_phase demo_q2 0 AtLock" by code_simp
    moreover have "fst (work_begin 0 demo_q2) = Started ?v ?a" by code_simp
    then have "work_begin 0 demo_q2 = (Started ?v ?a, demo_q3)"
      by (simp add: demo_q3_def prod_eq_iff)
    ultimately show "qstep demo_q2 (Started ?v ?a) demo_q3" by (rule qstep.Begin)
  qed
  then show ?thesis by (simp add: demo_events_def)
qed

lemma demo_phase: "at_phase demo_q3 0 (Executing (lit ''a''))"
  by code_simp

theorem one_job_per_vault_witness:
  "qrun empty_queue demo_events demo_q3 \<and> at_phase demo_q3 0 (Executing (lit ''a''))
    \<and> (0::nat) = 0 \<and> lit ''a'' = lit ''a''"
  using demo_run demo_phase one_job_per_vault [OF demo_run demo_phase demo_phase refl] by blast

text \<open>
  C20. First in, first out: at any moment the jobs submitted to a vault are, in order of submission,
  those its workers have started followed by those still waiting; none is skipped, repeated, dropped
  or overtaken, whatever the other vaults' threads do.
\<close>

theorem fifo_per_vault:
  assumes "qrun empty_queue evs q"
  shows "submitted v evs = started v evs @ pending q v"
  using qrun_pending [OF assms, of v] by (simp add: empty_queue_def)

theorem fifo_per_vault_witness:
  "submitted (lit ''v'') demo_events = [lit ''a'', lit ''b''] \<and> started (lit ''v'') demo_events = [lit ''a'']
    \<and> pending demo_q3 (lit ''v'') = [lit ''b'']"
proof -
  have s: "submitted (lit ''v'') demo_events = [lit ''a'', lit ''b'']"
      "started (lit ''v'') demo_events = [lit ''a'']"
    by (simp_all add: demo_events_def)
  with fifo_per_vault [OF demo_run, of "lit ''v''"] show ?thesis by simp
qed

text \<open>
  Draining. As long as no worker dies of an exception, from any reachable state the workers can
  take at most \<open>work_left\<close> steps without a new submission; as long as some worker lives it can move;
  and once none does, either the queue was told to stop or every job ever submitted has been executed
  and announced, so that \<open>wait\<close> returns its record.
\<close>

lemma queue_drains:
  assumes "qrun empty_queue evs q" and "qrun q wevs q'"
    and "list_all worker_event wevs" and "list_all (\<lambda>ev. \<not> is_crash ev) (evs @ wevs)"
  shows "length wevs \<le> work_left q
    \<and> (\<forall>t. is_alive q' t \<longrightarrow> (\<exists>ev q''. qstep q' ev q'' \<and> worker_event ev \<and> \<not> is_crash ev))
    \<and> ((\<forall>t. \<not> is_alive q' t) \<and> \<not> stopping q' \<and> done_events q' j \<noteq> None \<longrightarrow> (\<exists>r. wait q' j = Inr r))"
proof (intro conjI allI impI)
  show "length wevs \<le> work_left q" using qrun_work_left [OF assms(2,3)] by simp
  show "\<exists>ev q''. qstep q' ev q'' \<and> worker_event ev \<and> \<not> is_crash ev" if "is_alive q' t" for t
    using that by (rule alive_can_step)
  assume a: "(\<forall>t. \<not> is_alive q' t) \<and> \<not> stopping q' \<and> done_events q' j \<noteq> None"
  have "list_all (\<lambda>ev. \<not> is_crash ev) evs" "list_all (\<lambda>ev. \<not> is_crash ev) wevs"
    using assms(4) by simp_all
  note nc = this
  have inv0: "q_inv q" "served q" "tracked q"
    using qrun_inv [OF assms(1) empty_queue_inv] qrun_served [OF assms(1) empty_queue_inv _ nc(1)]
      qrun_tracked [OF assms(1) _ nc(1)] empty_queue_served by simp_all
  have inv: "q_inv q'" "served q'" "tracked q'"
    using qrun_inv [OF assms(2) inv0(1)] qrun_served [OF assms(2) inv0(1,2) nc(2)]
      qrun_tracked [OF assms(2) inv0(3) nc(2)] by simp_all
  have "pending q' v = []" for v using inv(2) a unfolding served_def by blast
  moreover have "\<not> at_phase q' t (Executing i)" "\<not> at_phase q' t (Announcing i)" for t i
    using a at_phase_alive by blast+
  ultimately have "done_events q' j \<noteq> Some False" using inv(3) unfolding tracked_def by fastforce
  then have "done_events q' j = Some True" using a by (cases "done_events q' j") auto
  with done_results [OF inv(1), of j] show "\<exists>r. wait q' j = Inr r"
    by (cases "results q' j") (simp_all add: wait_def)
qed

text \<open>A complete run: one job is submitted, executed, announced, and the worker leaves.\<close>

definition demo_drain :: "queue list" where
  "demo_drain =
    (let q0 = snd (submit (lit ''v'') (lit ''a'') empty_queue);
         q1 = snd (work_begin 0 q0);
         q2 = snd (work_end 0 (lit ''a'') (Inr (new_job (lit ''a'') (lit ''v''))) q1);
         q3 = snd (announce 0 (lit ''a'') q2);
         q4 = snd (work_begin 0 q3)
     in [q0, q1, q2, q3, q4])"

definition demo_drain_events :: "event list" where
  "demo_drain_events = [Started (lit ''v'') (lit ''a''),
     Completed (lit ''v'') (lit ''a'') (new_job (lit ''a'') (lit ''v'')), Announced (lit ''a''), Exited (lit ''v'')]"

lemma demo_drain_submit: "qrun empty_queue [Submitted (lit ''v'') (lit ''a'')] (demo_drain ! 0)"
proof -
  have "qrun empty_queue ([] @ [Submitted (lit ''v'') (lit ''a'')]) (demo_drain ! 0)"
    by (rule qrun.Snoc [OF qrun.Nil], rule qstep.Submit [where k = "lit ''a''"])
      (simp add: demo_drain_def submit_def empty_queue_def Let_def)
  then show ?thesis by simp
qed

lemma demo_drain_steps:
  "qstep (demo_drain ! 0) (demo_drain_events ! 0) (demo_drain ! 1)"
  "qstep (demo_drain ! 1) (demo_drain_events ! 1) (demo_drain ! 2)"
  "qstep (demo_drain ! 2) (demo_drain_events ! 2) (demo_drain ! 3)"
  "qstep (demo_drain ! 3) (demo_drain_events ! 3) (demo_drain ! 4)"
proof -
  have s: "demo_drain ! 1 = snd (work_begin 0 (demo_drain ! 0))"
      "demo_drain ! 2 = snd (work_end 0 (lit ''a'') (Inr (new_job (lit ''a'') (lit ''v''))) (demo_drain ! 1))"
      "demo_drain ! 3 = snd (announce 0 (lit ''a'') (demo_drain ! 2))"
      "demo_drain ! 4 = snd (work_begin 0 (demo_drain ! 3))"
    by (simp_all add: demo_drain_def Let_def)
  have e: "demo_drain_events ! 0 = fst (work_begin 0 (demo_drain ! 0))"
      "demo_drain_events ! 1 = fst (work_end 0 (lit ''a'') (Inr (new_job (lit ''a'') (lit ''v''))) (demo_drain ! 1))"
      "demo_drain_events ! 2 = fst (announce 0 (lit ''a'') (demo_drain ! 2))"
      "demo_drain_events ! 3 = fst (work_begin 0 (demo_drain ! 3))"
    by code_simp+
  have p: "at_phase (demo_drain ! 0) 0 AtLock" "at_phase (demo_drain ! 1) 0 (Executing (lit ''a''))"
      "at_phase (demo_drain ! 2) 0 (Announcing (lit ''a''))" "at_phase (demo_drain ! 3) 0 AtLock"
    by code_simp+
  show "qstep (demo_drain ! 0) (demo_drain_events ! 0) (demo_drain ! 1)"
    unfolding s(1) e(1) by (rule qstep.Begin [OF p(1)]) simp
  show "qstep (demo_drain ! 1) (demo_drain_events ! 1) (demo_drain ! 2)"
    unfolding s(2) e(2) by (rule qstep.Finish [OF p(2)]) simp
  show "qstep (demo_drain ! 2) (demo_drain_events ! 2) (demo_drain ! 3)"
    unfolding s(3) e(3) by (rule qstep.Announce [OF p(3)]) simp
  show "qstep (demo_drain ! 3) (demo_drain_events ! 3) (demo_drain ! 4)"
    unfolding s(4) e(4) by (rule qstep.Begin [OF p(4)]) simp
qed

lemma demo_drain_run: "qrun (demo_drain ! 0) demo_drain_events (demo_drain ! 4)"
proof -
  have "qrun (demo_drain ! 0) (((([] @ [demo_drain_events ! 0]) @ [demo_drain_events ! 1])
      @ [demo_drain_events ! 2]) @ [demo_drain_events ! 3]) (demo_drain ! 4)"
    by (intro qrun.Snoc [OF _ demo_drain_steps(4)] qrun.Snoc [OF _ demo_drain_steps(3)]
        qrun.Snoc [OF _ demo_drain_steps(2)] qrun.Snoc [OF _ demo_drain_steps(1)] qrun.Nil)
  then show ?thesis by (simp add: demo_drain_events_def)
qed

lemma queue_drains_witness:
  "length demo_drain_events \<le> work_left (demo_drain ! 0)
    \<and> (\<exists>r. wait (demo_drain ! 4) (lit ''a'') = Inr r)"
proof -
  have w: "list_all worker_event demo_drain_events"
      "list_all (\<lambda>ev. \<not> is_crash ev) ([Submitted (lit ''v'') (lit ''a'')] @ demo_drain_events)"
    by (simp_all add: demo_drain_events_def worker_event_def is_crash_def)
  have "threads (demo_drain ! 4) = [\<lparr>t_vault = lit ''v'', t_phase = Ended\<rparr>]"
      "\<not> stopping (demo_drain ! 4)" "done_events (demo_drain ! 4) (lit ''a'') = Some True"
    by code_simp+
  then have "(\<forall>t. \<not> is_alive (demo_drain ! 4) t) \<and> \<not> stopping (demo_drain ! 4)
      \<and> done_events (demo_drain ! 4) (lit ''a'') \<noteq> None"
    by (auto simp: is_alive_def nth_Cons')
  with queue_drains [OF demo_drain_submit demo_drain_run w, of "lit ''a''"] show ?thesis by blast
qed



end
