(* ===== verification/Auth.thy ===== *)
theory Auth
  imports Json Utf8 Errors
begin

text \<open>
  Authentication (\<^verbatim>\<open>src/groundtruth/auth\<close>) and the two places that call it: the principal
  dependency of the API (\<^verbatim>\<open>api/app.py\<close>) and the middleware in front of the MCP server
  (\<^verbatim>\<open>mcp/server.py\<close>). A request is the list of its raw headers with lower-case names, as ASGI
  hands them over; the API reads the first one of a name as Latin-1 (Starlette), the middleware the
  last one as UTF-8 (\<open>dict\<close> and \<open>bytes.decode\<close>).

  The two surfaces are instances of one locale: a gate that obtains a credential from a request and asks
  the configured strategy. Shown: what each strategy lets through on any such gate, and that the two
  gates decide alike on a request with one ASCII authorization header or none.
\<close>

section \<open>Strategies\<close>

record principal =
  pr_name :: pystr
  pr_anonymous :: bool

definition anonymous :: principal where
  "anonymous = \<lparr>pr_name = lit ''anonymous'', pr_anonymous = True\<rparr>"

datatype strategy = NoneStrategy | BearerStrategy pystr

definition auth_config_error :: "message \<Rightarrow> exn" where
  "auth_config_error m = exc AuthConfigError m"

definition mk_bearer :: "pystr \<Rightarrow> strategy res" where
  "mk_bearer token =
    bindR (guardR (token \<noteq> []) (auth_config_error [Lit ''bearer token is empty''])) (\<lambda>_.
    Inr (BearerStrategy token))"

text \<open>\<open>hmac.compare_digest\<close> on bytes is equality; encoding either side may raise.\<close>

fun authenticate :: "strategy \<Rightarrow> pystr option \<Rightarrow> principal option res" where
  "authenticate NoneStrategy credential = Inr (Some anonymous)"
| "authenticate (BearerStrategy token) credential =
    (case credential of
       None \<Rightarrow> Inr None
     | Some c \<Rightarrow>
         (let offered = strip (removeprefix c (lit ''Bearer '')) in
          bindR (utf8_encode offered) (\<lambda>a.
          bindR (utf8_encode token) (\<lambda>b.
          Inr (if a = b then Some \<lparr>pr_name = lit ''bearer'', pr_anonymous = False\<rparr> else None)))))"

section \<open>The registry\<close>

type_synonym factory = "(pystr \<times> json) list \<Rightarrow> (pystr \<times> pystr) list \<Rightarrow> strategy res"
type_synonym auth_registry = "(pystr \<times> factory) list"

definition register_strategy :: "pystr \<Rightarrow> factory \<Rightarrow> auth_registry \<Rightarrow> auth_registry" where
  "register_strategy name build reg = dict_set name build reg"

definition registered_names :: "auth_registry \<Rightarrow> pystr list" where
  "registered_names reg = map fst reg"

definition build_none :: factory where
  "build_none cfg environ = Inr NoneStrategy"

definition build_bearer :: factory where
  "build_bearer cfg environ =
    (case map_of cfg (lit ''bearer_token_env'') of
       Some (JStr env_name) \<Rightarrow>
         bindR (guardR (env_name \<noteq> []) (auth_config_error
           [Lit ''bearer auth requires 'bearer_token_env' naming an env var ('', Txt [167], Lit ''11.4)''])) (\<lambda>_.
         case map_of environ env_name of
           Some token \<Rightarrow> if token \<noteq> [] then mk_bearer token
             else Inl (auth_config_error [Lit ''bearer auth: environment variable '', Repr env_name, Lit '' is not set''])
         | None \<Rightarrow> Inl (auth_config_error [Lit ''bearer auth: environment variable '', Repr env_name, Lit '' is not set'']))
     | _ \<Rightarrow> Inl (auth_config_error
           [Lit ''bearer auth requires 'bearer_token_env' naming an env var ('', Txt [167], Lit ''11.4)'']))"

definition shipped_registry :: auth_registry where
  "shipped_registry = register_strategy (lit ''bearer'') build_bearer
     (register_strategy (lit ''none'') build_none [])"

fun listing :: "pystr list \<Rightarrow> message" where
  "listing [] = []"
| "listing [n] = [Repr n]"
| "listing (n # ns) = Repr n # Lit '', '' # listing ns"

definition build_strategy ::
  "auth_registry \<Rightarrow> pystr \<Rightarrow> (pystr \<times> json) list \<Rightarrow> (pystr \<times> pystr) list \<Rightarrow> strategy res" where
  "build_strategy reg name cfg environ =
    (case map_of reg name of
       None \<Rightarrow> Inl (auth_config_error ([Lit ''unknown auth strategy '', Repr name, Lit ''; registered: ['']
         @ listing (sort (registered_names reg)) @ [Lit '']'']))
     | Some build \<Rightarrow> build cfg environ)"

section \<open>The two surfaces\<close>

type_synonym headers = "(bytes \<times> bytes) list"

definition authorization :: bytes where
  "authorization = lit ''authorization''"

text \<open>\<open>request.headers.get("Authorization")\<close>: the first value; a byte is the code point it is in Latin-1.\<close>

definition api_credential :: "headers \<Rightarrow> pystr option res" where
  "api_credential hs = Inr (map_of hs authorization)"

definition authentication_required :: exn where
  "authentication_required =
    \<lparr>ecls = ApiError, emsg = [Lit ''authentication required''], estage = None, eattr = HttpAttr 401\<rparr>"

definition require_principal :: "strategy \<Rightarrow> headers \<Rightarrow> principal res" where
  "require_principal auth hs =
    bindR (api_credential hs) (\<lambda>c.
    bindR (authenticate auth c) (\<lambda>p.
    case p of None \<Rightarrow> Inl authentication_required | Some x \<Rightarrow> Inr x))"

text \<open>\<open>bytes.decode()\<close>.\<close>

function utf8_strict :: "bytes \<Rightarrow> pystr option" where
  "utf8_strict [] = Some []"
| "utf8_strict (b # bs) =
    (case decode1 (b # bs) of
       None \<Rightarrow> None
     | Some (c, n) \<Rightarrow> map_option ((#) c) (utf8_strict (drop n bs)))"
  by pat_completeness auto
termination
  by (relation "measure length") auto

definition mcp_credential :: "headers \<Rightarrow> pystr option res" where
  "mcp_credential hs =
    (case map_of (rev hs) authorization of
       None \<Rightarrow> Inr None
     | Some h \<Rightarrow> if h = [] then Inr None
         else (case utf8_strict h of Some s \<Rightarrow> Inr (Some s)
               | None \<Rightarrow> Inl (exc UnicodeError [Lit ''invalid start byte''])))"

text \<open>\<open>SharedAuthMiddleware.__call__\<close>: what it sends and whether it passes the request on.\<close>

datatype asgi_event = Forward | Start int "(pystr \<times> pystr) list" | Body pystr

definition reject_events :: "asgi_event list" where
  "reject_events =
    [Start 401 [(lit ''content-type'', lit ''application/json'')],
     Body ([123, 34] @ lit ''detail'' @ [34, 58, 34] @ lit ''authentication required'' @ [34, 125])]"

definition middleware :: "strategy \<Rightarrow> bool \<Rightarrow> headers \<Rightarrow> asgi_event list res" where
  "middleware auth http hs =
    (if \<not> http then Inr [Forward]
     else bindR (mcp_credential hs) (\<lambda>c.
          bindR (authenticate auth c) (\<lambda>p.
          Inr (if p = None then reject_events else [Forward]))))"

section \<open>The contract of a gate\<close>

text \<open>A credential carries a token when it is the token, with or without the scheme and blanks around it.\<close>

definition carries :: "pystr \<Rightarrow> pystr \<Rightarrow> bool" where
  "carries token c \<longleftrightarrow> list_all encodable token \<and> strip (removeprefix c (lit ''Bearer '')) = token"

lemma enc_inj:
  assumes "list_all encodable s" and "list_all encodable t" and "enc s = enc t"
  shows "s = t"
  using utf8_ignore_enc [OF assms(1), of "[]"] utf8_ignore_enc [OF assms(2), of "[]"] assms(3) by simp

lemma authenticate_bearer:
  "authenticate (BearerStrategy token) (Some c) = Inr (Some p) \<longleftrightarrow>
    carries token c \<and> p = \<lparr>pr_name = lit ''bearer'', pr_anonymous = False\<rparr>"
  using enc_inj by (auto simp: Let_def utf8_encode_ok carries_def simp del: lit_Cons split: if_splits)

locale gate =
  fixes credential :: "'r \<Rightarrow> pystr option res"
    and admits :: "strategy \<Rightarrow> 'r \<Rightarrow> bool"
  assumes admits_iff: "admits st r \<longleftrightarrow>
    (\<exists>c p. credential r = Inr c \<and> authenticate st c = Inr (Some p))"
begin

lemma none_admits: "admits NoneStrategy r \<longleftrightarrow> isOk (credential r)"
  by (auto simp: admits_iff isOk_iff)

lemma bearer_admits:
  "admits (BearerStrategy token) r \<longleftrightarrow>
    (case credential r of Inr (Some c) \<Rightarrow> carries token c | _ \<Rightarrow> False)"
proof (cases "credential r")
  case (Inr c)
  then show ?thesis
    by (cases c) (simp_all add: admits_iff authenticate_bearer del: authenticate.simps(2), simp)
qed (simp add: admits_iff)

end

definition api_admits :: "strategy \<Rightarrow> headers \<Rightarrow> bool" where
  "api_admits st hs \<longleftrightarrow> isOk (require_principal st hs)"

definition mcp_admits :: "strategy \<Rightarrow> headers \<Rightarrow> bool" where
  "mcp_admits st hs \<longleftrightarrow> middleware st True hs = Inr [Forward]"

lemma api_admits_iff: "api_admits st hs \<longleftrightarrow>
    (\<exists>c p. api_credential hs = Inr c \<and> authenticate st c = Inr (Some p))"
proof (cases "authenticate st (map_of hs authorization)")
  case (Inr p)
  then show ?thesis by (cases p) (auto simp: api_admits_def require_principal_def api_credential_def isOk_iff)
qed (auto simp: api_admits_def require_principal_def api_credential_def isOk_iff)

lemma mcp_admits_iff: "mcp_admits st hs \<longleftrightarrow>
    (\<exists>c p. mcp_credential hs = Inr c \<and> authenticate st c = Inr (Some p))"
  by (auto simp: mcp_admits_def middleware_def reject_events_def split: if_splits)

interpretation api: gate api_credential api_admits
  by unfold_locales (rule api_admits_iff)

interpretation mcp: gate mcp_credential mcp_admits
  by unfold_locales (rule mcp_admits_iff)

section \<open>Property\<close>

text \<open>A request with at most one authorization header, in ASCII.\<close>

definition plain_headers :: "headers \<Rightarrow> bool" where
  "plain_headers hs \<longleftrightarrow> distinct (map fst hs)
    \<and> (case map_of hs authorization of None \<Rightarrow> True | Some h \<Rightarrow> list_all (\<lambda>b. 0 \<le> b \<and> b < 128) h)"

lemma utf8_strict_ascii: "list_all (\<lambda>b. 0 \<le> b \<and> b < 128) bs \<Longrightarrow> utf8_strict bs = Some bs"
  by (induction bs) auto

lemma plain_credentials:
  assumes "plain_headers hs"
  shows "api_credential hs = Inr (map_of hs authorization)"
    and "mcp_credential hs = Inr (case map_of hs authorization of None \<Rightarrow> None | Some h \<Rightarrow> if h = [] then None else Some h)"
proof -
  have "map_of (rev hs) = map_of hs"
    using assms by (subst map_of_inject_set) (simp_all add: plain_headers_def rev_map [symmetric])
  then show "mcp_credential hs = Inr (case map_of hs authorization of None \<Rightarrow> None | Some h \<Rightarrow> if h = [] then None else Some h)"
    using assms by (cases "map_of hs authorization")
      (simp_all add: mcp_credential_def plain_headers_def utf8_strict_ascii)
qed (simp add: api_credential_def)

lemma build_strategy_cases:
  "case build_strategy shipped_registry name cfg environ of
     Inl e \<Rightarrow> ecls e = AuthConfigError
   | Inr NoneStrategy \<Rightarrow> name = lit ''none''
   | Inr (BearerStrategy token) \<Rightarrow> name = lit ''bearer'' \<and> token \<noteq> []
       \<and> (\<exists>v. map_of cfg (lit ''bearer_token_env'') = Some (JStr v) \<and> map_of environ v = Some token)"
proof -
  have reg: "map_of shipped_registry n =
      (if n = lit ''bearer'' then Some build_bearer else if n = lit ''none'' then Some build_none else None)" for n
    by (simp add: shipped_registry_def register_strategy_def store_simps del: lit_Cons)
  have "case build_bearer cfg environ of Inl e \<Rightarrow> ecls e = AuthConfigError | Inr NoneStrategy \<Rightarrow> False
      | Inr (BearerStrategy token) \<Rightarrow> token \<noteq> []
       \<and> (\<exists>v. map_of cfg (lit ''bearer_token_env'') = Some (JStr v) \<and> map_of environ v = Some token)"
    by (auto simp: build_bearer_def mk_bearer_def auth_config_error_def guardR_def simp del: lit_Cons
        split: option.splits json.splits)
  then show ?thesis
    by (auto simp: build_strategy_def reg build_none_def auth_config_error_def simp del: lit_Cons
        split: sum.splits strategy.splits)
qed

lemma carries_nothing: "token \<noteq> [] \<Longrightarrow> \<not> carries token []"
  by (simp add: carries_def removeprefix_def starts_with_def strip_def strip_by_def rstrip_by_def lstrip_by_def)

text \<open>
  C24. One authentication for every surface. The shipped configuration either refuses to start with an
  \<open>AuthConfigError\<close>, or builds the named strategy: \<open>none\<close> admits everyone; \<open>bearer\<close> has the
  non-empty value of the configured environment variable as its token, and on a request with at most
  one ASCII authorization header both the API and the MCP server admit exactly the requests whose
  header carries that token.
\<close>

theorem surfaces_agree:
  assumes "plain_headers hs"
  shows "case build_strategy shipped_registry name cfg environ of
      Inl e \<Rightarrow> ecls e = AuthConfigError
    | Inr NoneStrategy \<Rightarrow> name = lit ''none'' \<and> api_admits NoneStrategy hs \<and> mcp_admits NoneStrategy hs
    | Inr (BearerStrategy token) \<Rightarrow> name = lit ''bearer'' \<and> token \<noteq> []
        \<and> (\<exists>v. map_of cfg (lit ''bearer_token_env'') = Some (JStr v) \<and> map_of environ v = Some token)
        \<and> (api_admits (BearerStrategy token) hs \<longleftrightarrow>
            (case map_of hs authorization of None \<Rightarrow> False | Some h \<Rightarrow> carries token h))
        \<and> (mcp_admits (BearerStrategy token) hs \<longleftrightarrow> api_admits (BearerStrategy token) hs)"
  using build_strategy_cases [of name cfg environ]
  by (auto simp: api.none_admits mcp.none_admits api.bearer_admits mcp.bearer_admits
      plain_credentials [OF assms] carries_nothing simp del: lit_Cons split: sum.splits strategy.splits option.splits)

definition demo_headers :: headers where
  "demo_headers = [(authorization, lit ''Bearer s3cret'')]"

definition demo_auth_cfg :: "(pystr \<times> json) list" where
  "demo_auth_cfg = [(lit ''bearer_token_env'', JStr (lit ''GT_TOKEN''))]"

theorem surfaces_agree_witness:
  "api_admits (BearerStrategy (lit ''s3cret'')) demo_headers \<and> mcp_admits (BearerStrategy (lit ''s3cret'')) demo_headers"
proof -
  have plain: "plain_headers demo_headers" by code_simp
  have built: "build_strategy shipped_registry (lit ''bearer'') demo_auth_cfg [(lit ''GT_TOKEN'', lit ''s3cret'')] =
      Inr (BearerStrategy (lit ''s3cret''))" by code_simp
  have carried: "case map_of demo_headers authorization of None \<Rightarrow> False | Some h \<Rightarrow> carries (lit ''s3cret'') h"
    by code_simp
  from surfaces_agree [OF plain, of "lit ''bearer''" demo_auth_cfg "[(lit ''GT_TOKEN'', lit ''s3cret'')]"] carried
  show ?thesis unfolding built by (simp del: lit_Cons)
qed

text \<open>Without that restriction the gates differ: of two headers the API reads the first and the
  middleware the last.\<close>

lemma repeated_header:
  "api_admits (BearerStrategy (lit ''s3cret'')) (demo_headers @ [(authorization, lit ''x'')])
    \<and> \<not> mcp_admits (BearerStrategy (lit ''s3cret'')) (demo_headers @ [(authorization, lit ''x'')])"
  by code_simp

text \<open>A token with blanks around it is never matched: the offered credential is stripped.\<close>

lemma padded_token: "carries token c \<Longrightarrow> strip token = token"
  by (auto simp: carries_def simp del: lit_Cons)

end
