(* ===== verification/Services.thy ===== *)
theory Services
  imports Pipeline Answers Observability JobRecovery Queue Auth
begin

text \<open>
  The service layer (\<^verbatim>\<open>src/groundtruth/api/services.py\<close>) that every surface calls: it joins the
  registry, the configuration, the job store, the queue and the pipeline. The state of a hub is the
  registry, the pending requests, the queue and the world of the pipeline; the server part of that world
  is the outside world together with the file system of the state directory, where the call log is.
  A blocking submission is its submission step followed, at the later moment its wait ends, by
  \<open>ingest_result\<close>.

  Shown: what a submission does and that a refused one changes nothing; that only an allowed schema
  write reaches the disk or git; how the read operations report their errors; and that a transient
  failure of a job is not retried: the retry finds the request gone and fails the job.
\<close>

section \<open>State and environment\<close>

record pending_ingest =
  pi_vault :: vault
  pi_text :: pystr
  pi_label :: pystr

record ('x, 's) hub =
  hb_registry :: registry
  hb_pending :: "(pystr \<times> pending_ingest) list"
  hb_queue :: queue
  hb_world :: "('x, 's) world"

text \<open>\<open>sv_llm\<close> is the transport of the client with everything but the model configuration and the
  process environment.\<close>

record ('x, 't) svc =
  sv_pipe :: "('x, 't \<times> fs) env"
  sv_config :: config_env
  sv_override :: "'t model option"
  sv_llm :: "'t llm_client"
  sv_logging :: bool
  sv_state_dir :: path
  sv_uuid :: "'t \<times> fs \<Rightarrow> pystr \<times> ('t \<times> fs)"
  sv_today :: date

type_synonym ('x, 't) svc_hub = "('x, 't \<times> fs) hub"

definition hub_fs :: "('x, 's) hub \<Rightarrow> fs" where
  "hub_fs h = fst (w_repo (hb_world h))"

definition with_srv :: "'s \<Rightarrow> ('x, 's) hub \<Rightarrow> ('x, 's) hub" where
  "with_srv s h = h\<lparr>hb_world := (hb_world h)\<lparr>w_srv := s\<rparr>\<rparr>"

definition on_world :: "(('x, 's) world, 'a) act \<Rightarrow> (('x, 's) hub, 'a) act" where
  "on_world m h = (case m (hb_world h) of (r, w) \<Rightarrow> (r, h\<lparr>hb_world := w\<rparr>))"

definition svc_git :: "('x, 't) svc \<Rightarrow> path \<Rightarrow> 'x git_env" where
  "svc_git sv root = (en_git (sv_pipe sv))\<lparr>ge_path := root\<rparr>"

section \<open>Ingest\<close>

definition unregistered :: "pystr \<Rightarrow> exn" where
  "unregistered name = api_error 422 [Lit ''vault '', Repr name, Lit '' is not registered'']"

definition submit_ingest ::
  "('x, 't) svc \<Rightarrow> pystr \<Rightarrow> pystr \<Rightarrow> pystr \<Rightarrow> (('x, 't) svc_hub, pystr) act" where
  "submit_ingest sv name text label h =
    (case reg_get (hb_registry h) name of
       Inl e \<Rightarrow> (Inl e, h)
     | Inr None \<Rightarrow> (Inl (unregistered name), h)
     | Inr (Some v) \<Rightarrow>
        (let (jid, s1) = sv_uuid sv (w_srv (hb_world h));
             (now, s2) = en_now (sv_pipe sv) s1;
             h1 = with_srv s2 h in
         case create_job (en_store (sv_pipe sv)) now (new_job jid name) (w_jobs (hb_world h1)) of
           (Inl e, d) \<Rightarrow> (Inl e, h1\<lparr>hb_world := (hb_world h1)\<lparr>w_jobs := d\<rparr>\<rparr>)
         | (Inr _, d) \<Rightarrow>
            (let h2 = h1\<lparr>hb_world := (hb_world h1)\<lparr>w_jobs := d\<rparr>,
                        hb_pending := dict_set jid \<lparr>pi_vault = v, pi_text = text, pi_label = label\<rparr> (hb_pending h1)\<rparr> in
             case submit name jid (hb_queue h2) of (r, q) \<Rightarrow> (r, h2\<lparr>hb_queue := q\<rparr>))))"

datatype ingest_result = IngestId pystr | IngestDone job_record

definition ingest_result :: "bool \<Rightarrow> pystr \<Rightarrow> queue \<Rightarrow> ingest_result res" where
  "ingest_result blocking jid q =
    (if \<not> blocking then Inr (IngestId jid)
     else case wait q jid of
       Inr r \<Rightarrow> Inr (IngestDone r)
     | Inl e \<Rightarrow> if isinstance e TimeoutError then Inr (IngestId jid) else Inl e)"

definition get_job :: "pystr \<Rightarrow> ('x, 's) hub \<Rightarrow> job_record res" where
  "get_job jid h =
    bindR (load_job (w_jobs (hb_world h)) jid) (\<lambda>o'.
    case o' of None \<Rightarrow> Inl (api_error 404 [Lit ''no job '', Repr jid]) | Some r \<Rightarrow> Inr r)"

definition list_recent_jobs :: "int \<Rightarrow> ('x, 's) hub \<Rightarrow> job_record list res" where
  "list_recent_jobs limit h = list_recent (w_jobs (hb_world h)) limit"

section \<open>The read surface\<close>

definition config_of :: "('x, 't) svc \<Rightarrow> ('x, 't) svc_hub \<Rightarrow> vault \<Rightarrow> vault_config res" where
  "config_of sv h v =
    load_vault_config ((sv_config sv)\<lparr>cf_fs := hub_fs h\<rparr>) (vault_name v) (Some (repo_root v))"

definition vault_and_config :: "('x, 't) svc \<Rightarrow> pystr \<Rightarrow> ('x, 't) svc_hub \<Rightarrow> (vault \<times> vault_config) res" where
  "vault_and_config sv name h =
    bindR (reg_get (hb_registry h) name) (\<lambda>o'.
    case o' of
      None \<Rightarrow> Inl (unregistered name)
    | Some v \<Rightarrow> bindR (config_of sv h v) (\<lambda>c. Inr (v, c)))"

text \<open>The client of a job or a query. Only a job's client logs.\<close>

definition on_server :: "'t model \<Rightarrow> ('t \<times> fs) model" where
  "on_server m role msgs tools w = (case m role msgs tools (fst w) of (r, t) \<Rightarrow> (r, (t, snd w)))"

definition client_of :: "('x, 't) svc \<Rightarrow> vault_config \<Rightarrow> 't model res" where
  "client_of sv cfg =
    (case sv_override sv of
       Some m \<Rightarrow> Inr m
     | None \<Rightarrow> bindR (new_client ((sv_llm sv)\<lparr>cl_models := vc_models cfg, cl_environ := cf_environ (sv_config sv)\<rparr>))
                (\<lambda>c. Inr (complete c)))"

definition job_client :: "('x, 't) svc \<Rightarrow> pystr \<Rightarrow> 't model \<Rightarrow> ('t \<times> fs) model" where
  "job_client sv jid m =
    (if sv_logging sv then logging_complete (en_ucd (sv_pipe sv)) (new_call_log (sv_state_dir sv) True) jid m
     else on_server m)"

definition svc_query :: "('x, 't) svc \<Rightarrow> pystr \<Rightarrow> pystr \<Rightarrow> (('x, 't) svc_hub, recovery_outcome) act" where
  "svc_query sv name question h =
    (case vault_and_config sv name h of
       Inl e \<Rightarrow> (Inl e, h)
     | Inr (v, cfg) \<Rightarrow>
        (case client_of sv cfg of
           Inl e \<Rightarrow> (Inl e, h)
         | Inr m \<Rightarrow>
            (case query (tool_env_of (sv_pipe sv)) (on_server m) (hub_fs h) v (vc_limits cfg) question
                    (w_srv (hb_world h)) of
               (r, s) \<Rightarrow> (r, with_srv s h))))"

definition svc_list_notes ::
  "('x, 't) svc \<Rightarrow> pystr \<Rightarrow> pystr option \<Rightarrow> pystr option \<Rightarrow> ('x, 't) svc_hub \<Rightarrow> vault_note list res" where
  "svc_list_notes sv name tag pre h =
    bindR (vault_and_config sv name h) (\<lambda>(v, _).
    bindR (list_notes (en_note (sv_pipe sv)) (vault_dir v) (hub_fs h) tag) (\<lambda>ns.
    Inr (case pre of Some p \<Rightarrow> if p = [] then ns else filter (\<lambda>n. starts_with (note_path n) p) ns
         | None \<Rightarrow> ns)))"

definition svc_read_note :: "('x, 't) svc \<Rightarrow> pystr \<Rightarrow> pystr \<Rightarrow> ('x, 't) svc_hub \<Rightarrow> vault_note res" where
  "svc_read_note sv name p h =
    bindR (vault_and_config sv name h) (\<lambda>(v, _).
    case read_note (en_note (sv_pipe sv)) (vault_dir v) (hub_fs h) p of
      Inr n \<Rightarrow> Inr n
    | Inl e \<Rightarrow> Inl (if isinstance e UnsafePathError then api_error 400 [Lit ''note path is not allowed'']
                    else if isinstance e NoteNotFoundError then api_error 404 [Lit ''no note at '', Repr p]
                    else e))"

definition svc_read_schema :: "('x, 't) svc \<Rightarrow> pystr \<Rightarrow> ('x, 't) svc_hub \<Rightarrow> pystr res" where
  "svc_read_schema sv name h =
    bindR (vault_and_config sv name h) (\<lambda>(v, _).
    case load_schema (en_ucd (sv_pipe sv)) (hub_fs h) (vault_dir v) of
      Inr sch \<Rightarrow> Inr (raw_schema sch)
    | Inl e \<Rightarrow> Inl (if isinstance e SchemaError then api_error 422 (emsg e) else e))"

definition svc_list_vaults :: "('x, 's) hub \<Rightarrow> vault list res" where
  "svc_list_vaults h = list_vaults (hb_registry h)"

definition schema_path :: "vault \<Rightarrow> pystr" where
  "schema_path v = vault_name v @ [47] @ schema_filename"

definition svc_update_schema ::
  "('x, 't) svc \<Rightarrow> pystr \<Rightarrow> pystr \<Rightarrow> pystr \<Rightarrow> (('x, 't) svc_hub, unit) act" where
  "svc_update_schema sv name markdown rationale h =
    (case vault_and_config sv name h of
       Inl e \<Rightarrow> (Inl e, h)
     | Inr (v, cfg) \<Rightarrow>
         on_world (on_repo (bindA (on_fs (write_schema (vault_dir v) markdown (vc_allow_schema_writes cfg))) (\<lambda>_.
           bindA (commit_paths (svc_git sv (repo_root v)) [schema_path v]
                   (lit ''schema('' @ vault_name v @ lit ''): '' @ rationale)) (\<lambda>_. retA ())))) h)"

section \<open>The runner of the queue\<close>

definition lost_reason :: message where
  "lost_reason = [Lit ''ingest request was lost on restart'']"

definition orphan_fail :: "('x, 't) svc \<Rightarrow> pystr \<Rightarrow> (('x, 't) svc_hub, job_record) act" where
  "orphan_fail sv jid h =
    (case load_job (w_jobs (hb_world h)) jid of
       Inl e \<Rightarrow> (Inl e, h)
     | Inr None \<Rightarrow> (Inr ((new_job jid [])\<lparr>job_state := FAILED\<rparr>), h)
     | Inr (Some r) \<Rightarrow>
        on_world (bindA (liftR (failing (\<lambda>b. b\<lparr>failure_stage := Some ''restart'', error := Some lost_reason\<rparr>) r))
           (save_job (sv_pipe sv))) h)"

definition ingest_of :: "('x, 't) svc \<Rightarrow> pystr \<Rightarrow> pending_ingest \<Rightarrow> vault_config \<Rightarrow> ingest" where
  "ingest_of sv jid p cfg = \<lparr>in_job_id = jid, in_vault = pi_vault p, in_text = pi_text p,
     in_source_label = pi_label p, in_config = cfg, in_today = sv_today sv\<rparr>"

definition run_job :: "('x, 't) svc \<Rightarrow> pystr \<Rightarrow> (('x, 't) svc_hub, job_record) act" where
  "run_job sv jid h =
    (case map_of (hb_pending h) jid of
       None \<Rightarrow> orphan_fail sv jid h
     | Some p \<Rightarrow>
        (case bindR (config_of sv h (pi_vault p)) (\<lambda>cfg. bindR (client_of sv cfg) (\<lambda>m. Inr (cfg, m))) of
           Inl e \<Rightarrow> (Inl e, h)
         | Inr (cfg, m) \<Rightarrow>
            (case on_world (run_ingest ((sv_pipe sv)\<lparr>en_model := job_client sv jid m\<rparr>) (ingest_of sv jid p cfg)) h of
               (r, h') \<Rightarrow> (r, h'\<lparr>hb_pending := dict_del jid (hb_pending h')\<rparr>))))"

text \<open>\<open>retrying_runner(self._run_job, self.job_store)\<close>, which is what the queue's worker calls.\<close>

definition record_exhausted :: "('x, 't) svc \<Rightarrow> pystr \<Rightarrow> job_record retry_result \<Rightarrow> (('x, 't) svc_hub, job_record) act" where
  "record_exhausted sv jid rr h =
    (case load_job (w_jobs (hb_world h)) jid of
       Inl e \<Rightarrow> (Inl e, h)
     | Inr c \<Rightarrow>
         let current = (case c of Some r \<Rightarrow> r | None \<Rightarrow> new_job jid []) in
         on_world (bindA (liftR (failing (exhausted (rr_attempts rr) (rr_errors rr) (final_message rr)) current))
           (save_job (sv_pipe sv))) h)"

definition service_runner :: "('x, 't) svc \<Rightarrow> int \<Rightarrow> pystr \<Rightarrow> (('x, 't) svc_hub, job_record) act" where
  "service_runner sv base jid =
    bindA (run_with_retry (\<lambda>_. run_job sv jid) default_max_retries base) (\<lambda>rr.
      case (rr_succeeded rr, rr_value rr) of
        (True, Some v) \<Rightarrow> on_world (save_job (sv_pipe sv) (annotate (rr_attempts rr) (rr_errors rr) v))
      | _ \<Rightarrow> record_exhausted sv jid rr)"

section \<open>One run of the pipeline per request\<close>

definition same_vault :: "('x, 's) hub \<Rightarrow> ('x, 's) hub \<Rightarrow> bool" where
  "same_vault h h' \<longleftrightarrow> w_repo (hb_world h') = w_repo (hb_world h) \<and> w_index (hb_world h') = w_index (hb_world h)"

lemma same_vault_refl [simp]: "same_vault h h"
  by (simp add: same_vault_def)

lemma same_vault_trans: "same_vault a b \<Longrightarrow> same_vault b c \<Longrightarrow> same_vault a c"
  by (simp add: same_vault_def)

lemma on_world_simps [simp]:
  "hb_pending (snd (on_world m h)) = hb_pending h"
  "hb_world (snd (on_world m h)) = snd (m (hb_world h))" "fst (on_world m h) = fst (m (hb_world h))"
  by (simp_all add: on_world_def split: prod.split)

lemma save_failing_same:
  assumes "bindA (liftR x) (save_job env) w = (r, w')"
  shows "w_repo w' = w_repo w" "w_index w' = w_index w" "r = Inr v \<Longrightarrow> x = Inr j \<Longrightarrow> job_state v = job_state j"
proof -
  have "w_repo w' = w_repo w \<and> w_index w' = w_index w \<and> (r = Inr v \<longrightarrow> x = Inr j \<longrightarrow> job_state v = job_state j)"
  proof (cases x)
    case (Inl e)
    with assms show ?thesis by (auto simp: bindA_def liftR_def)
  next
    case (Inr k)
    with assms have s: "save_job env k w = (r, w')" by (simp add: bindA_def liftR_def)
    show ?thesis using save_job_repo [of env k w] save_job_Inr(1) [of env k w v w'] s Inr by auto
  qed
  then show "w_repo w' = w_repo w" "w_index w' = w_index w" "r = Inr v \<Longrightarrow> x = Inr j \<Longrightarrow> job_state v = job_state j"
    by blast+
qed

lemma save_failing_world:
  assumes "on_world (bindA (liftR (failing g k)) (save_job env)) h = (r, h')"
  shows "same_vault h h' \<and> hb_pending h' = hb_pending h \<and> (r = Inr v \<longrightarrow> job_state v = FAILED)"
proof -
  obtain w' where w: "bindA (liftR (failing g k)) (save_job env) (hb_world h) = (r, w')" and h': "h' = h\<lparr>hb_world := w'\<rparr>"
    using assms by (auto simp: on_world_def split: prod.splits)
  have "job_state v = FAILED" if r: "r = Inr v"
  proof -
    from w r obtain j where j: "failing g k = Inr j" by (auto simp: bindA_ok liftR_def)
    then have "job_state j = FAILED" by (auto simp: failing_def transitioned_to_def split: if_splits)
    with save_failing_same(3) [OF w r j] show ?thesis by simp
  qed
  with save_failing_same(1,2) [OF w] h' show ?thesis by (simp add: same_vault_def)
qed

lemma orphan_same:
  assumes "orphan_fail sv jid h = (r, h')"
  shows "same_vault h h' \<and> hb_pending h' = hb_pending h \<and> (r = Inr v \<longrightarrow> job_state v = FAILED)"
proof (cases "load_job (w_jobs (hb_world h)) jid")
  case (Inl e)
  with assms show ?thesis by (auto simp: orphan_fail_def)
next
  case (Inr x)
  show ?thesis
  proof (cases x)
    case None
    with assms Inr show ?thesis by (auto simp: orphan_fail_def)
  next
    case (Some k)
    with assms Inr show ?thesis by (intro save_failing_world) (simp add: orphan_fail_def)
  qed
qed

text \<open>A state in which another attempt cannot reach the pipeline: the request is gone, or the attempt
  fails before it and changes nothing.\<close>

definition spent :: "('x, 't) svc \<Rightarrow> pystr \<Rightarrow> ('x, 't) svc_hub \<Rightarrow> bool" where
  "spent sv jid h \<longleftrightarrow> map_of (hb_pending h) jid = None \<or> (\<exists>e. run_job sv jid h = (Inl e, h))"

lemma run_job_spends: "spent sv jid (snd (run_job sv jid h))"
proof (cases "map_of (hb_pending h) jid")
  case None
  obtain r h' where o': "orphan_fail sv jid h = (r, h')" by (cases "orphan_fail sv jid h")
  with orphan_same [OF o'] None show ?thesis by (simp add: run_job_def spent_def)
next
  case (Some p)
  show ?thesis
  proof (cases "bindR (config_of sv h (pi_vault p)) (\<lambda>cfg. bindR (client_of sv cfg) (\<lambda>m. Inr (cfg, m)))")
    case (Inl e)
    then have "run_job sv jid h = (Inl e, h)" by (simp add: run_job_def Some)
    then show ?thesis by (simp add: spent_def)
  next
    case (Inr cm)
    obtain cfg m where cm: "cm = (cfg, m)" by (cases cm)
    show ?thesis
      by (simp add: spent_def run_job_def Some Inr cm store_simps split: prod.split del: bindR_eq_Inr)
  qed
qed

lemma spent_step:
  assumes "spent sv jid h" and "run_job sv jid h = (x, h')"
  shows "spent sv jid h' \<and> same_vault h h' \<and> (x = Inr v \<longrightarrow> job_state v = FAILED)"
proof (cases "map_of (hb_pending h) jid")
  case None
  with assms(2) have "orphan_fail sv jid h = (x, h')" by (simp add: run_job_def)
  from orphan_same [OF this] None show ?thesis by (auto simp: spent_def)
next
  case (Some p)
  with assms show ?thesis by (auto simp: spent_def)
qed

lemma spent_retries:
  assumes "spent sv jid h" and "retry_loop (\<lambda>_. run_job sv jid) mx base ns errs sl h = (x, h')"
  shows "same_vault h h' \<and> (x = Inr rr \<longrightarrow> rr_succeeded rr \<longrightarrow> (\<forall>v. rr_value rr = Some v \<longrightarrow> job_state v = FAILED))"
  using assms
proof (induction ns arbitrary: h errs sl)
  case Nil
  then show ?case by auto
next
  case (Cons n ns)
  obtain y h1 where r: "run_job sv jid h = (y, h1)" by (cases "run_job sv jid h")
  from spent_step [OF Cons.prems(1) r] have h1: "spent sv jid h1" "same_vault h h1"
    and v: "y = Inr v \<Longrightarrow> job_state v = FAILED" for v by blast+
  show ?case
  proof (cases y)
    case (Inr v)
    with Cons.prems(2) r h1 v [OF Inr] show ?thesis by auto
  next
    case (Inl e)
    show ?thesis
    proof (cases "is_transient e \<and> n \<le> mx")
      case True
      with Cons.prems(2) r Inl have "retry_loop (\<lambda>_. run_job sv jid) mx base ns (errs @ [emsg e]) (sl @ [base * 2 ^ (n - 1)]) h1 = (x, h')"
        by simp
      from Cons.IH [OF h1(1) this] h1(2) show ?thesis by (blast intro: same_vault_trans)
    next
      case False
      with Cons.prems(2) r Inl h1(2) show ?thesis by (auto split: if_splits)
    qed
  qed
qed

text \<open>The retry policy around one job.\<close>

lemma retries_of_job:
  assumes r: "run_job sv jid h = (y, h1)"
    and l: "run_with_retry (\<lambda>_. run_job sv jid) mx base h = (x, h')"
  shows "same_vault h1 h'
    \<and> (case y of
         Inr v \<Rightarrow> (\<exists>rr. x = Inr rr \<and> rr_succeeded rr \<and> rr_value rr = Some v \<and> rr_attempts rr = 1)
       | Inl e \<Rightarrow> (\<forall>rr. x = Inr rr \<longrightarrow> rr_succeeded rr \<longrightarrow> (\<forall>v. rr_value rr = Some v \<longrightarrow> job_state v = FAILED)))"
proof -
  have ns: "[1..<mx + 2] = 1 # [2..<mx + 2]" by (simp add: upt_conv_Cons numeral_2_eq_2)
  have sp: "spent sv jid h1" using run_job_spends [of sv jid h] r by simp
  note l' = l [unfolded run_with_retry_def ns]
  show ?thesis
  proof (cases y)
    case (Inr v)
    with l' r show ?thesis by auto
  next
    case (Inl e)
    show ?thesis
    proof (cases "is_transient e \<and> 1 \<le> mx")
      case True
      with l' r Inl have "retry_loop (\<lambda>_. run_job sv jid) mx base [2..<mx + 2] [emsg e] [base] h1 = (x, h')"
        by simp
      from spent_retries [OF sp this] Inl show ?thesis by simp
    next
      case False
      with l' r Inl show ?thesis by (auto split: if_splits)
    qed
  qed
qed

lemma save_job_attempts:
  assumes "save_job env j w = (Inr r, w')"
  shows "attempts r = attempts j"
proof -
  obtain t s where n: "en_now env (w_srv w) = (t, s)" by (cases "en_now env (w_srv w)")
  obtain x d where u: "update_job (en_store env) t j (w_jobs w) = (x, d)"
    by (cases "update_job (en_store env) t j (w_jobs w)")
  from assms have x: "x = Inr r" by (auto simp: save_job_def n u)
  from u [unfolded x update_job_Inr] obtain old where "r = stamp t old j" by blast
  then show ?thesis by (simp add: stamp_def)
qed

lemma save_annotated:
  assumes "on_world (save_job env (annotate n errs v)) h = (z, h')"
  shows "same_vault h h' \<and> (z = Inr r \<longrightarrow> job_state r = job_state v \<and> attempts r = int n)"
proof -
  obtain w' where w: "save_job env (annotate n errs v) (hb_world h) = (z, w')" and h': "h' = h\<lparr>hb_world := w'\<rparr>"
    using assms by (auto simp: on_world_def split: prod.splits)
  have "job_state r = job_state v \<and> attempts r = int n" if "z = Inr r"
    using save_job_Inr(1) [of env "annotate n errs v" "hb_world h" r w'] save_job_attempts [of env "annotate n errs v" "hb_world h" r w'] w that
    by (simp add: annotate_def)
  with save_job_repo [of env "annotate n errs v" "hb_world h"] w h' show ?thesis by (simp add: same_vault_def)
qed

lemma record_exhausted_fails:
  assumes "record_exhausted sv jid rr h = (z, h')"
  shows "same_vault h h' \<and> (z = Inr k \<longrightarrow> job_state k = FAILED)"
proof (cases "load_job (w_jobs (hb_world h)) jid")
  case (Inl e)
  with assms show ?thesis by (auto simp: record_exhausted_def)
next
  case (Inr c)
  with assms show ?thesis
    using save_failing_world [of _ _ "sv_pipe sv" h z h' k] by (auto simp: record_exhausted_def Let_def)
qed

text \<open>
  C9. A job meets the pipeline once. Whatever the retry policy does, the repository and the source index
  after the whole run of a job are those after its first attempt: a transient failure of the pipeline
  has already consumed the request, so that every further attempt only fails the job. If the first
  attempt returned a record, the stored record has its state and one attempt; if it raised, any record
  that comes out is a failed one.
\<close>

theorem one_attempt_per_request:
  "case run_job sv jid h of (y, h1) \<Rightarrow> case service_runner sv base jid h of (z, h2) \<Rightarrow>
     same_vault h1 h2
     \<and> (case z of
          Inl e \<Rightarrow> True
        | Inr r \<Rightarrow> (case y of Inr v \<Rightarrow> job_state r = job_state v \<and> attempts r = 1 | Inl e \<Rightarrow> job_state r = FAILED))"
proof -
  obtain y h1 where r: "run_job sv jid h = (y, h1)" by (cases "run_job sv jid h")
  obtain x h' where l: "run_with_retry (\<lambda>_. run_job sv jid) default_max_retries base h = (x, h')"
    by (cases "run_with_retry (\<lambda>_. run_job sv jid) default_max_retries base h")
  obtain z h2 where s: "service_runner sv base jid h = (z, h2)" by (cases "service_runner sv base jid h")
  note base = retries_of_job [OF r l]
  show ?thesis
  proof (cases x)
    case (Inl e)
    then have "(z, h2) = (Inl e, h')" using s by (simp add: service_runner_def bindA_def l)
    with base r s show ?thesis by simp
  next
    case (Inr rr)
    show ?thesis
    proof (cases "\<exists>v. rr_succeeded rr \<and> rr_value rr = Some v")
      case True
      then obtain v where v: "rr_succeeded rr" "rr_value rr = Some v" by blast
      from s have "on_world (save_job (sv_pipe sv) (annotate (rr_attempts rr) (rr_errors rr) v)) h' = (z, h2)"
        by (simp add: service_runner_def bindA_def l Inr v)
      from save_annotated [OF this] base Inr v r s show ?thesis
        by (auto split: sum.splits intro: same_vault_trans)
    next
      case False
      then have re: "record_exhausted sv jid rr h' = (z, h2)"
        using s by (cases "rr_value rr"; cases "rr_succeeded rr") (simp_all add: service_runner_def bindA_def l Inr)
      have y: "\<exists>e. y = Inl e" using base Inr False by (cases y) auto
      have "same_vault h' h2 \<and> (z = Inr k \<longrightarrow> job_state k = FAILED)" for k
        by (rule record_exhausted_fails [OF re])
      with base y r s show ?thesis by (auto split: sum.splits intro: same_vault_trans)
    qed
  qed
qed

section \<open>Submission and the schema gate\<close>

lemma submit_cases:
  "submit v j q = (r, q') \<Longrightarrow>
    (case r of
       Inl e \<Rightarrow> stopping q \<and> q' = q
     | Inr k \<Rightarrow> k = j \<and> pending q' = (pending q)(v := pending q v @ [j])
         \<and> (\<exists>t. workers q' v = Some t \<and> is_alive q' t))"
proof (cases "stopping q")
  case False
  let ?q = "q\<lparr>pending := (pending q)(v := pending q v @ [j]), done_events := (done_events q)(j \<mapsto> False),
    vault_of := (vault_of q)(j \<mapsto> v)\<rparr>"
  assume "submit v j q = (r, q')"
  with False have r: "r = Inr j" "q' = ensure_worker v ?q" by (simp_all add: submit_def)
  have "pending (ensure_worker v ?q) = pending ?q" by (simp add: ensure_worker_def split: option.split)
  with r ensure_worker_serves [of v ?q] show ?thesis by simp
qed (auto simp: submit_def)

lemma created_cases:
  assumes "create_job cfg now j d = (r, d')"
  shows "case r of
      Inl e \<Rightarrow> d' = d
    | Inr k \<Rightarrow> load_job d' (job_id j) = Inr (Some (j\<lparr>created_at := Some now, updated_at := Some now\<rparr>))"
  using assms
  by (auto simp: create_job_def Let_def bindA_def write_job_def load_job_def check_id_def guardR_def assert_no_secrets_def
      store_simps split: if_splits sum.splits option.splits)

text \<open>
  What a submission does. An accepted one names a registered vault; its request is pending, its
  fresh record is stored as queued, and its id is the last of its vault's queue, which has a live
  worker. A refused one leaves the queue alone, and unless the queue was shutting down it leaves no
  request and no record behind. No submission touches the registry, a vault or the source index.
\<close>

lemma submission:
  "case submit_ingest sv name text label h of (r, h') \<Rightarrow>
     same_vault h h' \<and> hb_registry h' = hb_registry h
     \<and> (case r of
          Inr jid \<Rightarrow> (\<exists>v now. reg_get (hb_registry h) name = Inr (Some v)
              \<and> map_of (hb_pending h') jid = Some \<lparr>pi_vault = v, pi_text = text, pi_label = label\<rparr>
              \<and> get_job jid h' = Inr ((new_job jid name)\<lparr>created_at := Some now, updated_at := Some now\<rparr>))
            \<and> pending (hb_queue h') = (pending (hb_queue h))(name := pending (hb_queue h) name @ [jid])
            \<and> (\<exists>t. workers (hb_queue h') name = Some t \<and> is_alive (hb_queue h') t)
        | Inl e \<Rightarrow> hb_queue h' = hb_queue h
            \<and> (stopping (hb_queue h)
               \<or> hb_pending h' = hb_pending h \<and> w_jobs (hb_world h') = w_jobs (hb_world h)))"
proof (cases "reg_get (hb_registry h) name")
  case (Inl e)
  then show ?thesis by (simp add: submit_ingest_def)
next
  case (Inr x)
  show ?thesis
  proof (cases x)
    case None
    with Inr show ?thesis by (simp add: submit_ingest_def)
  next
    case (Some v)
    obtain jid s1 where u: "sv_uuid sv (w_srv (hb_world h)) = (jid, s1)"
      by (cases "sv_uuid sv (w_srv (hb_world h))")
    obtain now s2 where n: "en_now (sv_pipe sv) s1 = (now, s2)" by (cases "en_now (sv_pipe sv) s1")
    obtain c d where c: "create_job (en_store (sv_pipe sv)) now (new_job jid name) (w_jobs (hb_world h)) = (c, d)"
      by (cases "create_job (en_store (sv_pipe sv)) now (new_job jid name) (w_jobs (hb_world h))")
    obtain r q where q: "submit name jid (hb_queue h) = (r, q)" by (cases "submit name jid (hb_queue h)")
    have id: "job_id (new_job jid name) = jid" by (simp add: new_job_def)
    note facts = created_cases [OF c, unfolded id] submit_cases [OF q]
    show ?thesis
    proof (cases c)
      case (Inl e)
      with facts show ?thesis
        by (simp add: submit_ingest_def \<open>reg_get _ _ = _\<close> Some u n c with_srv_def same_vault_def)
    next
      case (Inr k)
      with facts have load: "load_job d jid = Inr (Some ((new_job jid name)\<lparr>created_at := Some now, updated_at := Some now\<rparr>))"
        by simp
      show ?thesis
      proof (cases r)
        case (Inl e)
        with facts Inr show ?thesis
          by (simp add: submit_ingest_def \<open>reg_get _ _ = _\<close> Some u n c q with_srv_def same_vault_def)
      next
        case (Inr k')
        with facts \<open>c = Inr k\<close> load show ?thesis
          by (auto simp: submit_ingest_def \<open>reg_get _ _ = _\<close> Some u n c q with_srv_def same_vault_def store_simps get_job_def)
      qed
    qed
  qed
qed

text \<open>
  C27. The only way to a schema. A schema update of an unknown vault, or of one whose configuration
  cannot be loaded, changes nothing; if the configuration does not allow schema writes it is refused with
  \<open>SchemaWriteRefusedError\<close> and neither the disk nor git sees it; and an allowed one can change the
  repository only, never the registry, the jobs, the queue or the index.
\<close>

theorem schema_update_gate:
  "case svc_update_schema sv name md rationale h of (r, h') \<Rightarrow>
     (case vault_and_config sv name h of
        Inl e \<Rightarrow> r = Inl e \<and> h' = h
      | Inr (v, cfg) \<Rightarrow>
          if vc_allow_schema_writes cfg
          then h' = h\<lparr>hb_world := (hb_world h)\<lparr>w_repo := w_repo (hb_world h')\<rparr>\<rparr>
            \<and> (r, w_repo (hb_world h')) =
                (case on_fs (write_schema (vault_dir v) md True) (w_repo (hb_world h)) of
                   (Inl e, rp) \<Rightarrow> (Inl e, rp)
                 | (Inr _, rp) \<Rightarrow>
                    (case commit_paths (svc_git sv (repo_root v)) [schema_path v]
                       (lit ''schema('' @ vault_name v @ lit ''): '' @ rationale) rp of
                       (Inl e, rp') \<Rightarrow> (Inl e, rp') | (Inr _, rp') \<Rightarrow> (Inr (), rp')))
          else h' = h \<and> (\<exists>m. r = Inl (exc SchemaWriteRefusedError m)))"
proof (cases "vault_and_config sv name h")
  case (Inl e)
  then show ?thesis by (simp add: svc_update_schema_def)
next
  case (Inr vc)
  obtain v cfg where vc: "vc = (v, cfg)" by (cases vc)
  show ?thesis
  proof (cases "vc_allow_schema_writes cfg")
    case True
    then show ?thesis
      by (simp add: svc_update_schema_def Inr vc on_world_def on_repo_def bindA_def split: prod.split sum.split)
  next
    case False
    then show ?thesis
      by (simp add: svc_update_schema_def Inr vc on_world_def on_repo_def bindA_def on_fs_def write_schema_def) blast
  qed
qed

end
