(* ===== verification/Web.thy ===== *)
theory Web
  imports Links
begin

text \<open>
  Rendering of untrusted text as HTML: note bodies (\<^verbatim>\<open>src/groundtruth/web/render.py\<close>) and answers
  (\<open>_render_answer_html\<close> of \<^verbatim>\<open>web/views.py\<close>), and the tree of the browse page (\<^verbatim>\<open>web/browse.py\<close>).
  \<open>html.unescape\<close> needs the HTML5 entity table and is an argument.

  Shown: whatever the body, the vault name and the note paths are, the output consists of escaped text
  and of tags from a fixed list, with links only to the browse page; and the tree lists every note
  exactly under the directories of its path, in order.
\<close>

section \<open>Escaping\<close>

definition esc_html :: "uchar \<Rightarrow> pystr" where
  "esc_html c =
    (if c = 38 then lit ''&amp;'' else if c = 60 then lit ''&lt;'' else if c = 62 then lit ''&gt;''
     else if c = 34 then lit ''&quot;'' else if c = 39 then lit ''&#x27;'' else [c])"

definition html_escape :: "pystr \<Rightarrow> pystr" where
  "html_escape s = concat (map esc_html s)"

section \<open>Note bodies\<close>

text \<open>\<open>^(#{1,6})\s+(.*)$\<close>, \<open>`([^`\n]+)`\<close> and \<open>\*\*([^*\n]+)\*\*\<close>; the wikilink pattern is that of
  theory \<open>Links\<close>.\<close>

definition heading_line :: re where
  "heading_line = SeqL [Bos, Grp 1 (Seq (Chr 35) (UpTo 5 (Chr 35))), Plus (Cls False [CSpace]),
     Grp 2 (Star True Dot), Eol]"

definition code_span :: re where
  "code_span = SeqL [Chr 96, Grp 1 (Plus (Cls True [Rng 96 96, Rng 10 10])), Chr 96]"

definition bold_span :: re where
  "bold_span = SeqL [Str [42, 42], Grp 1 (Plus (Cls True [Rng 42 42, Rng 10 10])), Str [42, 42]]"

definition in_tag :: "string \<Rightarrow> pystr \<Rightarrow> pystr" where
  "in_tag t s = lit (''<'' @ t @ ''>'') @ s @ lit (''</'' @ t @ ''>'')"

definition resolve_link :: "pystr \<Rightarrow> pystr list \<Rightarrow> pystr option" where
  "resolve_link target existing =
    (if target \<in> link_target ` set (check_links [\<lparr>link_target = target, link_display = None\<rparr>] existing [])
     then None
     else find (\<lambda>p. target \<in> {stem_of p, last_field 47 (stem_of p)}) existing)"

definition browse_href :: "pystr \<Rightarrow> pystr \<Rightarrow> pystr" where
  "browse_href vault p = lit ''<a href='' @ [34] @ lit ''/browse/'' @ html_escape vault @ [47] @ html_escape p @ [34, 62]"

definition bracketed :: "pystr \<Rightarrow> pystr" where
  "bracketed label = [91, 91] @ label @ [93, 93]"

definition broken_open :: pystr where
  "broken_open = lit ''<span class='' @ [34] @ lit ''broken-link'' @ [34] @ lit '' title='' @ [34]
     @ lit ''no such note'' @ [34, 62]"

definition link_html :: "(pystr \<Rightarrow> pystr) \<Rightarrow> pystr \<Rightarrow> pystr list \<Rightarrow> matched \<Rightarrow> pystr" where
  "link_html unesc vault existing m =
    (let raw = strip (unesc (group_str 1 m));
         label = html_escape (strip (if group_str 2 m \<noteq> [] then group_str 2 m else group_str 1 m)) in
     case resolve_link raw existing of
       None \<Rightarrow> broken_open @ bracketed label @ lit ''</span>''
     | Some p \<Rightarrow> browse_href vault p @ bracketed label @ lit ''</a>'')"

definition linkify :: "(pystr \<Rightarrow> pystr) \<Rightarrow> pystr \<Rightarrow> pystr list \<Rightarrow> pystr \<Rightarrow> pystr" where
  "linkify unesc vault existing line = re_sub nw wikilink (link_html unesc vault existing) line"

definition inline_html :: "pystr \<Rightarrow> pystr" where
  "inline_html raw =
    re_sub nw bold_span (\<lambda>m. in_tag ''strong'' (group_str 1 m))
      (re_sub nw code_span (\<lambda>m. in_tag ''code'' (group_str 1 m)) (html_escape raw))"

text \<open>\<open>flush\<close>, and the loop over the lines with the finished blocks and the open paragraph.\<close>

definition flush :: "pystr list \<Rightarrow> pystr list \<Rightarrow> pystr list" where
  "flush out para = (if para = [] then out else out @ [in_tag ''p'' (join (lit ''<br>'') para)])"

definition heading_html :: "matched \<Rightarrow> pystr \<Rightarrow> pystr" where
  "heading_html m inner =
    (let n = nat_digits (length (group_str 1 m)) in
     lit ''<h'' @ n @ lit ''>'' @ inner @ lit ''</h'' @ n @ lit ''>'')"

fun render_lines ::
  "(pystr \<Rightarrow> pystr) \<Rightarrow> pystr \<Rightarrow> pystr list \<Rightarrow> pystr list \<Rightarrow> pystr list \<Rightarrow> pystr list \<Rightarrow> pystr list" where
  "render_lines unesc vault existing out para [] = flush out para"
| "render_lines unesc vault existing out para (raw # ls) =
    (case re_match nw heading_line raw of
       Some m \<Rightarrow> render_lines unesc vault existing
           (flush out para @ [heading_html m (linkify unesc vault existing (html_escape (group_str 2 m)))]) [] ls
     | None \<Rightarrow>
         if strip raw = [] then render_lines unesc vault existing (flush out para) [] ls
         else render_lines unesc vault existing out
                (para @ [linkify unesc vault existing (inline_html raw)]) ls)"

definition render_note_body :: "(pystr \<Rightarrow> pystr) \<Rightarrow> pystr \<Rightarrow> pystr list \<Rightarrow> pystr \<Rightarrow> pystr" where
  "render_note_body unesc vault existing body =
    join [10] (render_lines unesc vault existing [] [] (splitlines body))"

section \<open>Answers\<close>

text \<open>\<open>\[\[([^\[\]|]+?)\]\]\<close>. The text between two matches is escaped character by character.\<close>

definition plain_wikilink :: re where
  "plain_wikilink = SeqL [Chr 91, Chr 91, Grp 1 (LazyPlus (Cls True [Rng 91 91, Rng 93 93, Rng 124 124])),
     Chr 93, Chr 93]"

definition answer_link :: "pystr \<Rightarrow> matched \<Rightarrow> pystr" where
  "answer_link vault m =
    (let p = strip (group_str 1 m) in browse_href vault p @ bracketed (html_escape p) @ lit ''</a>'')"

definition render_answer_html :: "pystr \<Rightarrow> pystr \<Rightarrow> pystr" where
  "render_answer_html vault text =
    replace_all
      (concat (map (case_sum (\<lambda>c. html_escape [c]) (answer_link vault)) (scan nw plain_wikilink ([], text))))
      [10] (lit ''<br>'')"

section \<open>The browse tree\<close>

datatype tree = Tree "(pystr \<times> tree) list" "(pystr \<times> pystr) list"

fun add_note :: "pystr list \<Rightarrow> pystr \<Rightarrow> pystr \<Rightarrow> tree \<Rightarrow> tree" where
  "add_note [] name p (Tree ds ns) = Tree ds (ns @ [(name, p)])"
| "add_note (d # rest) name p (Tree ds ns) =
    Tree (dict_set d (add_note rest name p (case map_of ds d of Some t \<Rightarrow> t | None \<Rightarrow> Tree [] [])) ds) ns"

definition add_path :: "tree \<Rightarrow> pystr \<Rightarrow> tree" where
  "add_path t p = (let parts = split_on 47 p in add_note (butlast parts) (last parts) p t)"

definition browse_tree :: "pystr list \<Rightarrow> tree" where
  "browse_tree paths = foldl add_path (Tree [] []) (sort paths)"

section \<open>Well-tagged text\<close>

text \<open>
  Text made of escaped characters and of tags from a set. An escaped character is none of the angle
  brackets and quotes.
\<close>

definition text_char :: "uchar \<Rightarrow> bool" where
  "text_char c \<longleftrightarrow> c \<notin> {60, 62, 34, 39}"

inductive tagged :: "(pystr \<Rightarrow> bool) \<Rightarrow> pystr \<Rightarrow> bool" for T where
  Done: "tagged T []"
| Char: "text_char c \<Longrightarrow> tagged T s \<Longrightarrow> tagged T (c # s)"
| Tag: "T t \<Longrightarrow> tagged T s \<Longrightarrow> tagged T (t @ s)"

lemma tagged_append: "tagged T a \<Longrightarrow> tagged T b \<Longrightarrow> tagged T (a @ b)"
  by (induction rule: tagged.induct) (auto intro: tagged.intros)

lemma tagged_tag: "T t \<Longrightarrow> tagged T t"
  using tagged.Tag [OF _ tagged.Done, of T t] by simp

lemma tagged_text: "list_all text_char s \<Longrightarrow> tagged T s"
  by (induction s) (auto intro: tagged.intros)

lemma tagged_mono: "tagged T s \<Longrightarrow> (\<And>t. T t \<Longrightarrow> tagged U t) \<Longrightarrow> tagged U s"
  by (induction rule: tagged.induct) (auto intro: tagged.intros tagged_append)

lemma tagged_concat: "list_all (tagged T) xs \<Longrightarrow> tagged T (concat xs)"
  by (induction xs) (auto intro: tagged.intros tagged_append)

lemma tagged_join: "tagged T sep \<Longrightarrow> list_all (tagged T) xs \<Longrightarrow> tagged T (join sep xs)"
proof (induction xs)
  case (Cons x xs)
  then show ?case by (cases xs) (auto simp: join_Cons intro: tagged_append)
qed (simp add: tagged.Done)

text \<open>A character that occurs in no tag cuts a well-tagged text into two.\<close>

lemma tagged_cut:
  assumes "tagged T s" and "\<And>t. T t \<Longrightarrow> c \<notin> set t" and "s = u @ c # v"
  shows "tagged T u \<and> tagged T v"
  using assms
proof (induction arbitrary: u rule: tagged.induct)
  case Done
  then show ?case by simp
next
  case (Char a s)
  show ?case
  proof (cases u)
    case Nil
    with Char show ?thesis by (auto intro: tagged.Done)
  next
    case (Cons b u')
    with Char.IH [of u'] Char.prems Char.hyps show ?thesis by (auto intro: tagged.intros)
  qed
next
  case (Tag t s)
  from Tag.prems(2) obtain us where "t = u @ us \<and> us @ s = c # v \<or> t @ us = u \<and> s = us @ c # v"
    by (auto simp: append_eq_append_conv2)
  then show ?case
  proof
    assume l: "t = u @ us \<and> us @ s = c # v"
    with Tag.prems(1) [OF Tag.hyps(1)] have "us = []" by (cases us) auto
    with l Tag.hyps Tag.IH [of "[]"] Tag.prems(1) have "t = u" "s = [] @ c # v" by auto
    with Tag.IH [of "[]"] Tag.prems(1) Tag.hyps(1) show ?thesis by (auto intro: tagged_tag)
  next
    assume r: "t @ us = u \<and> s = us @ c # v"
    with Tag.IH [of us] Tag.prems(1) Tag.hyps(1) show ?thesis by (auto intro: tagged.Tag)
  qed
qed

lemma escape_text: "list_all text_char (html_escape s)"
  by (induction s) (auto simp: html_escape_def esc_html_def text_char_def)

text \<open>
  Substituting in a well-tagged text keeps it well-tagged when a match is a well-tagged text between two
  delimiters that occur in no tag.
\<close>

lemma chunks_tagged:
  assumes T: "\<And>t. T t \<Longrightarrow> d \<notin> set t \<and> e \<notin> set t"
    and f: "\<And>m mid. Inr m \<in> set xs \<Longrightarrow> m_text m = d # mid @ [e] \<Longrightarrow> tagged T mid \<Longrightarrow> tagged U (f m)"
    and shape: "\<And>m. Inr m \<in> set xs \<Longrightarrow> \<exists>mid. m_text m = d # mid @ [e]"
    and TU: "\<And>s. tagged T s \<Longrightarrow> tagged U s"
    and s: "tagged T (u @ concat (map chunk_text xs))"
  shows "tagged U (u @ concat (map (case_sum (\<lambda>c. [c]) f) xs))"
  using f shape s
proof (induction xs arbitrary: u)
  case Nil
  then show ?case using TU by simp
next
  case (Cons x xs)
  show ?case
  proof (cases x)
    case (Inl c)
    have "tagged U ((u @ [c]) @ concat (map (case_sum (\<lambda>c. [c]) f) xs))"
      by (rule Cons.IH) (use Cons.prems Inl in auto)
    with Inl show ?thesis by simp
  next
    case (Inr m)
    obtain mid where mid: "m_text m = d # mid @ [e]" using Cons.prems(2) [of m] Inr by auto
    with Cons.prems(3) Inr have "tagged T (u @ d # mid @ e # concat (map chunk_text xs))" by simp
    from tagged_cut [OF this, of d] T have u: "tagged T u" and "tagged T (mid @ e # concat (map chunk_text xs))"
      by blast+
    from tagged_cut [OF this(2), of e] T have m: "tagged T mid" and rest: "tagged T ([] @ concat (map chunk_text xs))"
      by auto
    have "tagged U ([] @ concat (map (case_sum (\<lambda>c. [c]) f) xs))"
      by (rule Cons.IH [OF _ _ rest]) (use Cons.prems in auto)
    with Cons.prems(1) [of m mid] Inr mid m TU [OF u] show ?thesis by (auto intro: tagged_append)
  qed
qed

section \<open>The shape of the matches\<close>

definition ends_in :: "uchar \<Rightarrow> re \<Rightarrow> bool" where
  "ends_in e r \<longleftrightarrow> (\<forall>z z'. rmatch nw r z z' \<longrightarrow> (\<exists>x. snd z = x @ e # snd z'))"

lemma ends_in_Chr: "ends_in e (Chr e)"
proof -
  have "\<exists>x. snd z = x @ e # snd z'" if "rmatch nw (Chr e) z z'" for z z'
    using that by (intro exI [of _ "[]"]) (auto simp: Chr_def rmatch_Cls cls_ok_def)
  then show ?thesis by (simp add: ends_in_def)
qed

lemma ends_in_Seq: "ends_in e b \<Longrightarrow> ends_in e (Seq a b)"
  unfolding ends_in_def rmatch_Seq by (metis append.assoc rmatch_shift)

lemma delimited:
  assumes "match_at nw (Seq (Chr d) r) z = Some m" and "ends_in e r"
  shows "\<exists>mid. m_text m = d # mid @ [e]"
proof -
  from match_at_Some(1) [OF assms(1)] obtain y where d: "rmatch nw (Chr d) z y" and r: "rmatch nw r y (m_after m)"
    by (auto simp: rmatch_Seq)
  from d have "snd z = d # snd y" by (auto simp: Chr_def rmatch_Cls cls_ok_def)
  moreover from r assms(2) obtain x where "snd y = x @ e # snd (m_after m)" unfolding ends_in_def by blast
  ultimately have "m_text m @ snd (m_after m) = (d # x @ [e]) @ snd (m_after m)"
    using match_at_Some(2) [OF assms(1)] by simp
  then show ?thesis by blast
qed

fun has_group :: "nat \<Rightarrow> re \<Rightarrow> bool" where
  "has_group n (Grp k a) = (n = k \<or> has_group n a)"
| "has_group n (Seq a b) = (has_group n a \<or> has_group n b)"
| "has_group n (Alt a b) = (has_group n a \<or> has_group n b)"
| "has_group n (Star g a) = has_group n a"
| "has_group n _ = False"

lemma iterate_groups:
  assumes "\<And>st t. t \<in> set (f st) \<Longrightarrow> map_of (snd t) n = map_of (snd st) n"
  shows "t \<in> set (iterate f g k st) \<Longrightarrow> map_of (snd t) n = map_of (snd st) n"
proof (induction k arbitrary: st)
  case (Suc k)
  from Suc.prems consider "t = st" | s' where "s' \<in> set (f st)" "t \<in> set (iterate f g k s')"
    unfolding set_iterate_Suc by blast
  then show ?case using Suc.IH assms by cases fastforce+
qed simp

lemma mt_groups: "\<not> has_group n r \<Longrightarrow> t \<in> set (mt w r st) \<Longrightarrow> map_of (snd t) n = map_of (snd st) n"
proof (induction r arbitrary: st t)
  case (Star g r)
  show ?case by (rule iterate_groups [of "mt w r"]) (use Star in auto)
next
  case (Seq a b)
  from Seq.prems(2) obtain y where y: "y \<in> set (mt w a st)" "t \<in> set (mt w b y)" by auto
  from Seq.prems(1) have "\<not> has_group n a" "\<not> has_group n b" by simp_all
  with Seq.IH y show ?case by metis
next
  case (Alt a b)
  from Alt.prems have "\<not> has_group n a" "\<not> has_group n b" "t \<in> set (mt w a st) \<or> t \<in> set (mt w b st)" by simp_all
  with Alt.IH show ?case by blast
next
  case (Grp k a)
  from Grp.prems(2) obtain y where y: "y \<in> set (mt w a st)" "t = add_group k st y" by (simp only: mt.simps) auto
  from Grp.prems(1) have "n \<noteq> k" "\<not> has_group n a" by simp_all
  with Grp.IH [OF _ y(1)] y(2) show ?case by (simp add: add_group_def)
next
  case (Cls neg ks)
  then show ?case by (cases st; cases "snd (fst st)") (auto split: if_splits)
qed (simp_all split: prod.splits if_splits, blast+)

text \<open>A group that is set once: its text is what its part consumed.\<close>

lemma group_parts:
  assumes m: "match_at w (Seq a (Seq (Grp n b) c)) z = Some m" and once: "\<not> has_group n c"
  shows "\<exists>z1 z2. rmatch w a z z1 \<and> rmatch w b z1 z2 \<and> rmatch w c z2 (m_after m)
    \<and> snd z1 = group_str n m @ snd z2"
proof -
  from m obtain t where t: "t \<in> set (mt w (Seq a (Seq (Grp n b) c)) (z, []))"
    and g: "m_groups m = snd t" and after: "m_after m = fst t"
  proof (cases "mt w (Seq a (Seq (Grp n b) c)) (z, [])")
    case (Cons t ts)
    with m that [of t] show ?thesis by (cases t) (auto simp: match_at_def simp del: mt.simps)
  qed (use m in \<open>simp add: match_at_def del: mt.simps\<close>)
  from t obtain y1 y2 where y1: "y1 \<in> set (mt w a (z, []))" and y2: "y2 \<in> set (mt w b y1)"
    and t': "t \<in> set (mt w c (add_group n y1 y2))" by auto
  obtain k where k: "snd (fst y1) = k @ snd (fst y2)"
    using rmatch_shift [OF mt_sound [OF y2]] by blast
  have "map_of (snd t) n = Some k"
    using mt_groups [OF once t'] k by (simp add: add_group_def rest_len_def)
  then have "group_str n m = k" by (simp add: group_str_def group_def g)
  with k after mt_sound [OF y1] mt_sound [OF y2] mt_sound [OF t'] show ?thesis
    by (intro exI [of _ "fst y1"] exI [of _ "fst y2"]) simp
qed

lemma lang_text:
  assumes "lang w a A" and "rmatch w a z z'"
  shows "\<exists>x. snd z = x @ snd z' \<and> A x"
  using langD [OF assms(1), of "fst z" "snd z" "fst z'" "snd z'"] assms(2) by auto

lemma group_between:
  assumes m: "match_at w (Seq a (Seq (Grp n b) c)) z = Some m" and once: "\<not> has_group n c"
    and a: "lang w a A" and c: "lang w c C"
  shows "\<exists>x y. m_text m = x @ group_str n m @ y \<and> A x \<and> C y"
proof -
  from group_parts [OF m once] obtain z1 z2 where z: "rmatch w a z z1" "rmatch w c z2 (m_after m)"
    "snd z1 = group_str n m @ snd z2" by blast
  from lang_text [OF a z(1)] lang_text [OF c z(2)] z(3) match_at_Some(2) [OF m] show ?thesis
    by (metis append.assoc append_same_eq)
qed

section \<open>Every rendering is well-tagged\<close>

text \<open>The tags of the inline passes, all tags without an argument, and the links.\<close>

definition inline_tags :: "pystr \<Rightarrow> bool" where
  "inline_tags t \<longleftrightarrow> t \<in> set (map lit [''<code>'', ''</code>'', ''<strong>'', ''</strong>''])"

definition fixed_tags :: "pystr list" where
  "fixed_tags = broken_open # map lit [''<code>'', ''</code>'', ''<strong>'', ''</strong>'', ''<p>'', ''</p>'', ''<br>'',
     ''<h1>'', ''</h1>'', ''<h2>'', ''</h2>'', ''<h3>'', ''</h3>'', ''<h4>'', ''</h4>'', ''<h5>'', ''</h5>'',
     ''<h6>'', ''</h6>'', ''</span>'', ''</a>'']"

definition page_tags :: "pystr \<Rightarrow> bool" where
  "page_tags t \<longleftrightarrow> t \<in> set fixed_tags
     \<or> (\<exists>x. t = lit ''<a href='' @ [34] @ lit ''/browse/'' @ x @ [34, 62] \<and> 34 \<notin> set x)"

lemma inline_page: "tagged inline_tags s \<Longrightarrow> tagged page_tags s"
  by (erule tagged_mono, rule tagged_tag) (auto simp: inline_tags_def page_tags_def fixed_tags_def)

lemma inline_free: "inline_tags t \<Longrightarrow> c \<in> {42, 91, 93, 96, 124} \<Longrightarrow> c \<notin> set t"
  by (auto simp: inline_tags_def)

lemma page_tag: "t \<in> set fixed_tags \<Longrightarrow> tagged page_tags t"
  by (rule tagged_tag) (simp add: page_tags_def)

lemma tagged_html_escape: "tagged T (html_escape s)"
  by (rule tagged_text [OF escape_text])

lemma no_quote: "34 \<notin> set (html_escape s)"
  using escape_text [of s] by (auto simp: list_all_iff text_char_def)

lemma tagged_href: "tagged page_tags (browse_href vault p)"
proof (rule tagged_tag)
  have "browse_href vault p =
      lit ''<a href='' @ [34] @ lit ''/browse/'' @ (html_escape vault @ [47] @ html_escape p) @ [34, 62]"
    by (simp add: browse_href_def)
  moreover have "34 \<notin> set (html_escape vault @ [47] @ html_escape p)" by (simp add: no_quote)
  ultimately show "page_tags (browse_href vault p)" unfolding page_tags_def by blast
qed

lemma tagged_bracketed:
  assumes "tagged T s" shows "tagged T (bracketed s)"
proof -
  have "tagged T [91, 91]" "tagged T [93, 93]" by (rule tagged_text, simp add: text_char_def)+
  with assms show ?thesis unfolding bracketed_def by (intro tagged_append)
qed

lemma tagged_link: "tagged page_tags (link_html unesc vault existing m)"
proof -
  have "tagged page_tags broken_open" "tagged page_tags (lit ''</span>'')" "tagged page_tags (lit ''</a>'')"
    by (rule page_tag, simp add: fixed_tags_def)+
  then show ?thesis
    unfolding link_html_def Let_def
    by (auto simp del: lit_Cons split: option.split intro!: tagged_append tagged_bracketed tagged_html_escape tagged_href)
qed

lemma sub_tagged:
  assumes s: "tagged T s" and T: "\<And>t. T t \<Longrightarrow> d \<notin> set t \<and> e \<notin> set t"
    and TU: "\<And>s. tagged T s \<Longrightarrow> tagged U s"
    and shape: "\<And>m z. match_at nw r z = Some m \<Longrightarrow> \<exists>mid. m_text m = d # mid @ [e]"
    and f: "\<And>m mid z. match_at nw r z = Some m \<Longrightarrow> m_text m = d # mid @ [e] \<Longrightarrow> tagged T mid \<Longrightarrow> tagged U (f m)"
  shows "tagged U (re_sub nw r f s)"
proof -
  have "tagged U ([] @ concat (map (case_sum (\<lambda>c. [c]) f) (scan nw r ([], s))))"
  proof (rule chunks_tagged [OF T _ _ TU])
    fix m mid
    assume "Inr m \<in> set (scan nw r ([], s))" "m_text m = d # mid @ [e]" "tagged T mid"
    with scan_matches f show "tagged U (f m)" by blast
  next
    fix m
    assume "Inr m \<in> set (scan nw r ([], s))"
    with scan_matches shape show "\<exists>mid. m_text m = d # mid @ [e]" by blast
  qed (use s in \<open>simp_all add: scan_text\<close>)
  then show ?thesis by (simp add: re_sub_def)
qed

lemma wikilink_shape: "match_at nw wikilink z = Some m \<Longrightarrow> \<exists>mid. m_text m = 91 # mid @ [93]"
  unfolding wikilink_def SeqL.simps by (erule delimited) (intro ends_in_Seq ends_in_Chr)

lemma plain_wikilink_shape: "match_at nw plain_wikilink z = Some m \<Longrightarrow> \<exists>mid. m_text m = 91 # mid @ [93]"
  unfolding plain_wikilink_def SeqL.simps by (erule delimited) (intro ends_in_Seq ends_in_Chr)

lemma linkify_tagged:
  assumes "tagged inline_tags line"
  shows "tagged page_tags (linkify unesc vault existing line)"
  unfolding linkify_def
  by (rule sub_tagged [OF assms _ inline_page wikilink_shape tagged_link]) (simp add: inline_free)

lemma code_group:
  "match_at nw code_span z = Some m \<Longrightarrow> m_text m = [96] @ group_str 1 m @ [96]"
  unfolding code_span_def SeqL.simps
  by (drule group_between [OF _ _ lang_Chr lang_Chr]) (auto simp: Chr_def Plus_def)

lemma bold_group:
  "match_at nw bold_span z = Some m \<Longrightarrow> m_text m = [42, 42] @ group_str 1 m @ [42, 42]"
  unfolding bold_span_def SeqL.simps
  by (drule group_between [OF _ _ lang_Str lang_Str]) (auto simp: Chr_def Plus_def)

lemma tagged_in_tag:
  assumes "tagged inline_tags s" and "t = ''code'' \<or> t = ''strong''"
  shows "tagged inline_tags (in_tag t s)"
proof -
  have "inline_tags (lit (''<'' @ t @ ''>''))" "inline_tags (lit (''</'' @ t @ ''>''))"
    using assms(2) by (auto simp: inline_tags_def)
  then show ?thesis unfolding in_tag_def by (intro tagged_append tagged_tag assms(1))
qed

lemma code_tagged:
  assumes "tagged inline_tags s"
  shows "tagged inline_tags (re_sub nw code_span (\<lambda>m. in_tag ''code'' (group_str 1 m)) s)"
proof (rule sub_tagged [OF assms, where d = 96 and e = 96])
  fix m mid z
  assume m: "match_at nw code_span z = Some m" and t: "m_text m = 96 # mid @ [96]" "tagged inline_tags mid"
  from code_group [OF m] t show "tagged inline_tags (in_tag ''code'' (group_str 1 m))"
    by (intro tagged_in_tag) simp_all
qed (auto simp: inline_free dest!: code_group)

lemma bold_tagged:
  assumes "tagged inline_tags s"
  shows "tagged inline_tags (re_sub nw bold_span (\<lambda>m. in_tag ''strong'' (group_str 1 m)) s)"
proof (rule sub_tagged [OF assms, where d = 42 and e = 42])
  fix m mid z
  assume m: "match_at nw bold_span z = Some m" and t: "m_text m = 42 # mid @ [42]" "tagged inline_tags mid"
  from bold_group [OF m] t(1) have "mid = [] @ 42 # group_str 1 m @ [42]" by simp
  with tagged_cut [OF t(2)] have "tagged inline_tags (group_str 1 m @ [42])" by (metis inline_free insertI1)
  with tagged_cut [of inline_tags "group_str 1 m @ [42]" 42 "group_str 1 m" "[]"]
  have "tagged inline_tags (group_str 1 m)" by (simp add: inline_free)
  then show "tagged inline_tags (in_tag ''strong'' (group_str 1 m))" by (intro tagged_in_tag) simp_all
next
  show "\<exists>mid. m_text m = 42 # mid @ [42]" if "match_at nw bold_span z = Some m" for m z
    using bold_group [OF that] by (intro exI [of _ "42 # group_str 1 m @ [42]"]) simp
qed (simp_all add: inline_free)

lemma lang_hashes: "lang w (UpTo n (Chr 35)) (\<lambda>x. x = replicate (length x) 35 \<and> length x \<le> n)"
proof (induction n)
  case 0
  show ?case by (simp, rule lang_cong [OF lang_Eps]) auto
next
  case (Suc n)
  show ?case
    unfolding UpTo.simps
  proof (rule lang_cong [OF lang_Alt [OF lang_Seq [OF lang_Chr Suc.IH] lang_Eps]])
    fix x :: pystr
    show "(\<exists>y z. x = y @ z \<and> y = [35] \<and> z = replicate (length z) 35 \<and> length z \<le> n) \<or> x = [] \<longleftrightarrow>
        x = replicate (length x) 35 \<and> length x \<le> Suc n"
      by (cases x) auto
  qed
qed

lemma heading_level:
  assumes "re_match nw heading_line raw = Some m"
  shows "1 \<le> length (group_str 1 m)" and "length (group_str 1 m) \<le> 6"
proof -
  from assms have m: "match_at nw (Seq Bos (Seq (Grp 1 (Seq (Chr 35) (UpTo 5 (Chr 35))))
      (Seq (Plus (Cls False [CSpace])) (Seq (Grp 2 (Star True Dot)) Eol)))) ([], raw) = Some m"
    by (simp add: re_match_def heading_line_def del: UpTo.simps)
  have once: "\<not> has_group 1 (Seq (Plus (Cls False [CSpace])) (Seq (Grp 2 (Star True Dot)) Eol))"
    by (simp add: Plus_def Dot_def)
  from group_parts [OF m once] obtain z1 z2 where
    z: "rmatch nw (Seq (Chr 35) (UpTo 5 (Chr 35))) z1 z2" "snd z1 = group_str 1 m @ snd z2" by blast
  from lang_text [OF lang_Seq [OF lang_Chr lang_hashes] z(1)] z(2)
  have "\<exists>y. group_str 1 m = 35 # y \<and> length y \<le> 5" by auto
  then show "1 \<le> length (group_str 1 m)" and "length (group_str 1 m) \<le> 6" by auto
qed

lemma tagged_heading:
  assumes "1 \<le> length (group_str 1 m)" "length (group_str 1 m) \<le> 6" and "tagged page_tags s"
  shows "tagged page_tags (heading_html m s)"
proof -
  let ?n = "length (group_str 1 m)"
  have one: "nat_digits n = [48 + int n]" if "n < 10" for n
    using that by (simp add: nat_digits.simps)
  from assms(1,2) have "?n = 1 \<or> ?n = 2 \<or> ?n = 3 \<or> ?n = 4 \<or> ?n = 5 \<or> ?n = 6" by linarith
  then have "lit ''<h'' @ nat_digits ?n @ lit ''>'' \<in> set fixed_tags \<and> lit ''</h'' @ nat_digits ?n @ lit ''>'' \<in> set fixed_tags"
    by (elim disjE) (simp_all add: fixed_tags_def one)
  then have open_close: "tagged page_tags (lit ''<h'' @ nat_digits ?n @ lit ''>'')"
      "tagged page_tags (lit ''</h'' @ nat_digits ?n @ lit ''>'')"
    by (blast intro: page_tag)+
  have "tagged page_tags ((lit ''<h'' @ nat_digits ?n @ lit ''>'') @ s @ (lit ''</h'' @ nat_digits ?n @ lit ''>''))"
    by (rule tagged_append [OF open_close(1) tagged_append [OF assms(3) open_close(2)]])
  then show ?thesis by (simp add: heading_html_def Let_def)
qed

lemma tagged_flush:
  assumes "list_all (tagged page_tags) out" and "list_all (tagged page_tags) para"
  shows "list_all (tagged page_tags) (flush out para)"
proof -
  have "tagged page_tags (lit ''<p>'')" "tagged page_tags (lit ''</p>'')" "tagged page_tags (lit ''<br>'')"
    by (rule page_tag, simp add: fixed_tags_def)+
  then have "tagged page_tags (in_tag ''p'' (join (lit ''<br>'') para))"
    unfolding in_tag_def append_Cons append_Nil by (intro tagged_append tagged_join assms(2))
  with assms show ?thesis by (simp add: flush_def)
qed

lemma render_lines_tagged:
  "list_all (tagged page_tags) out \<Longrightarrow> list_all (tagged page_tags) para \<Longrightarrow>
    list_all (tagged page_tags) (render_lines unesc vault existing out para ls)"
proof (induction ls arbitrary: out para)
  case Nil
  then show ?case by (simp add: tagged_flush)
next
  case (Cons raw ls)
  have line: "tagged page_tags (linkify unesc vault existing (inline_html raw))"
    unfolding inline_html_def by (intro linkify_tagged bold_tagged code_tagged tagged_html_escape)
  have head: "tagged page_tags (heading_html m (linkify unesc vault existing (html_escape t)))"
    if "re_match nw heading_line raw = Some m" for m t
    by (intro tagged_heading heading_level [OF that] linkify_tagged tagged_html_escape)
  show ?case
    using Cons.IH Cons.prems tagged_flush [OF Cons.prems] line head by (auto split: option.split)
qed

lemma replace_newlines:
  "tagged page_tags s \<Longrightarrow> tagged page_tags (replace_all s [10] (lit ''<br>''))"
proof (induction rule: tagged.induct)
  case Done
  then show ?case by (simp add: tagged.Done)
next
  case (Char c s)
  have "tagged page_tags (lit ''<br>'')" by (rule page_tag) (simp add: fixed_tags_def)
  with Char show ?case
    by (cases "c = 10") (auto simp: starts_with_def simp del: lit_Cons intro: tagged_append tagged.Char)
next
  case (Tag t s)
  have app: "replace_all (x @ y) [10] z = replace_all x [10] z @ replace_all y [10] z" for x y z
    by (induction x) (auto simp: starts_with_def)
  have "page_tags (replace_all t [10] (lit ''<br>''))"
  proof (cases "t \<in> set fixed_tags")
    case True
    have "list_all (\<lambda>t. 10 \<notin> set t) fixed_tags" by (simp add: fixed_tags_def broken_open_def)
    with True have "10 \<notin> set t" by (simp add: list_all_iff)
    then have "replace_all t [10] z = t" for z by (induction t) (auto simp: starts_with_def)
    with True show ?thesis by (simp add: page_tags_def)
  next
    case False
    with Tag.hyps(1) obtain x where t: "t = lit ''<a href='' @ [34] @ lit ''/browse/'' @ x @ [34, 62]" and x: "34 \<notin> set x"
      by (auto simp: page_tags_def simp del: lit_Cons)
    have "34 \<notin> set (replace_all x [10] (lit ''<br>''))" using x
      by (induction x) (auto simp: starts_with_def)
    moreover have "replace_all t [10] (lit ''<br>'') =
        lit ''<a href='' @ [34] @ lit ''/browse/'' @ replace_all x [10] (lit ''<br>'') @ [34, 62]"
      by (simp add: t app starts_with_def)
    ultimately show ?thesis unfolding page_tags_def by blast
  qed
  with Tag.IH show ?case by (simp add: app tagged.Tag del: lit_Cons)
qed

text \<open>
  C25. No injection through rendered text. Whatever the note body, the answer, the vault name, the note
  paths and the entity table are, the HTML that the browse page and the answer view get is a sequence
  of escaped characters and of tags from a fixed list; the only tag with a variable part is a link
  whose address starts with \<open>/browse/\<close> and cannot leave its quotes.
\<close>

theorem rendering_injects_nothing:
  "tagged page_tags (render_note_body unesc vault existing body)
    \<and> tagged page_tags (render_answer_html vault answer)"
proof
  have "tagged page_tags [10]" by (rule tagged_text) (simp add: text_char_def)
  then show "tagged page_tags (render_note_body unesc vault existing body)"
    unfolding render_note_body_def by (intro tagged_join render_lines_tagged) simp_all
  have "tagged page_tags (answer_link vault m)" for m
    unfolding answer_link_def Let_def
    by (intro tagged_append tagged_href tagged_bracketed tagged_html_escape page_tag) (simp add: fixed_tags_def)
  then have "list_all (tagged page_tags) (map (case_sum (\<lambda>c. html_escape [c]) (answer_link vault)) xs)" for xs
    by (auto simp: list_all_iff tagged_html_escape split: sum.split)
  then show "tagged page_tags (render_answer_html vault answer)"
    unfolding render_answer_html_def by (intro replace_newlines tagged_concat)
qed

section \<open>The browse tree lists every note in its place\<close>

fun notes_at :: "tree \<Rightarrow> pystr list \<Rightarrow> (pystr \<times> pystr) list" where
  "notes_at (Tree ds ns) [] = ns"
| "notes_at (Tree ds ns) (d # rest) = (case map_of ds d of None \<Rightarrow> [] | Some t \<Rightarrow> notes_at t rest)"

lemma notes_at_empty: "notes_at (Tree [] []) q = []"
  by (cases q) simp_all

lemma notes_at_add:
  "notes_at (add_note ds name p t) q = notes_at t q @ (if q = ds then [(name, p)] else [])"
proof (induction ds name p t arbitrary: q rule: add_note.induct)
  case (1 name p ds ns)
  then show ?case by (cases q) simp_all
next
  case (2 d rest name p ds ns)
  then show ?case by (cases q) (auto simp: store_simps notes_at_empty split: option.split)
qed

text \<open>
  The browse tree. For every list of directories, the notes shown there are exactly the given paths
  whose leading segments are those directories, each under its last segment, in sorted order.
\<close>

lemma browse_tree_lists:
  "notes_at (browse_tree paths) ds =
    map (\<lambda>p. (last (split_on 47 p), p)) (filter (\<lambda>p. butlast (split_on 47 p) = ds) (sort paths))"
proof -
  have "notes_at (foldl add_path t ps) ds = notes_at t ds @
      map (\<lambda>p. (last (split_on 47 p), p)) (filter (\<lambda>p. butlast (split_on 47 p) = ds) ps)" for t ps
    by (induction ps arbitrary: t) (auto simp: add_path_def Let_def notes_at_add)
  then show ?thesis by (simp add: browse_tree_def notes_at_empty)
qed

end
