(* ===== verification/Api.thy ===== *)
theory Api
  imports Services Web
begin

text \<open>
  The HTTP adapter: the error handlers and the principal gate of \<^verbatim>\<open>src/groundtruth/api/app.py\<close>, the
  routers \<^verbatim>\<open>api/ingest.py\<close>, \<^verbatim>\<open>api/query.py\<close> and \<^verbatim>\<open>api/vaults.py\<close>, and the MCP tools of
  \<^verbatim>\<open>mcp/tools.py\<close>, which call the same service operations. FastAPI's routing and the parsing of requests
  are not modelled: a handler gets its arguments, and its result or exception is the response.

  Shown: every exception of the program has its status, and the text of an error that is not written
  for the client never contains an absolute path; which vaults can be adopted.
\<close>

section \<open>Error responses\<close>

text \<open>\<open>(?:/[\w.\-]+){2,}\<close>.\<close>

definition path_segment :: re where
  "path_segment = Seq (Chr 47) (Plus (Cls False [CWord, Rng 46 46, Rng 45 45]))"

definition abs_path :: re where
  "abs_path = RepMin 2 path_segment"

definition path_mark :: pystr where
  "path_mark = lit ''<path>''"

definition safe_detail :: "ucd \<Rightarrow> message \<Rightarrow> pystr" where
  "safe_detail u m = re_sub (word_char u) abs_path (\<lambda>_. path_mark) (redact u (render u m))"

definition or_text :: "pystr \<Rightarrow> string \<Rightarrow> pystr" where
  "or_text t d = (if t = [] then lit d else t)"

text \<open>The handlers, looked up along the classes of the exception; \<open>None\<close> is a server error without a
  handler.\<close>

definition respond :: "ucd \<Rightarrow> exn \<Rightarrow> (int \<times> pystr) option" where
  "respond u e =
    (if isinstance e ApiError
     then Some (case eattr e of HttpAttr n \<Rightarrow> n | _ \<Rightarrow> 500, render u (emsg e))
     else if isinstance e TransientError then Some (503, or_text (safe_detail u (emsg e)) ''temporarily unavailable'')
     else if isinstance e GroundtruthError then Some (400, or_text (safe_detail u (emsg e)) ''bad request'')
     else None)"

text \<open>A request body that fails pydantic's validation: locations and messages, no values.\<close>

definition validation_response :: "(json list \<times> json) list \<Rightarrow> int \<times> json" where
  "validation_response errs = (422, JObj [(lit ''detail'', JStr (lit ''validation error'')),
     (lit ''fields'', JArr (map (\<lambda>(loc, msg). JObj [(lit ''loc'', JArr loc), (lit ''msg'', msg)]) errs))])"

definition outcome_response :: "recovery_outcome \<Rightarrow> int \<times> json" where
  "outcome_response r = (200, to_payload r)"

definition health :: json where
  "health = JObj [(lit ''status'', JStr (lit ''ok''))]"

definition whoami :: "principal \<Rightarrow> json" where
  "whoami p = JObj [(lit ''name'', JStr (pr_name p)), (lit ''anonymous'', JBool (pr_anonymous p))]"

text \<open>Every router is included with the principal dependency: it runs before the handler.\<close>

definition guarded :: "strategy \<Rightarrow> headers \<Rightarrow> ('w, 'a) act \<Rightarrow> ('w, 'a) act" where
  "guarded auth hs m = bindA (liftR (require_principal auth hs)) (\<lambda>_. m)"

section \<open>No absolute path in a scrubbed text\<close>

lemma sub_scan_None:
  assumes "match_at w r (p, c # t) = None"
  shows "scan w r (p, c # t) = Inl c # scan w r (c # p, t)"
  using assms by (subst scan.simps) simp

lemma sub_scan_Some:
  assumes "match_at w r (p, s) = Some m" and "m_text m \<noteq> []"
  shows "scan w r (p, s) = Inr m # scan w r (m_after m)"
proof -
  have "length (snd (m_after m)) < length s" using match_at_Some(2) [OF assms(1)] assms(2) by simp
  with assms(1) show ?thesis by (subst scan.simps) simp
qed

abbreviation put_mark :: "pystr \<Rightarrow> (uchar + matched) list \<Rightarrow> pystr" where
  "put_mark y xs \<equiv> concat (map (case_sum (\<lambda>c. [c]) (\<lambda>_. y)) xs)"

lemma marked_prefix:
  assumes y: "y \<noteq> []" "hd y \<notin> A"
  shows "set k \<subseteq> A \<Longrightarrow> put_mark y (scan w r z) = k @ b \<Longrightarrow> \<exists>b'. snd z = k @ b'"
proof (induction w r z arbitrary: k b rule: scan.induct)
  case (1 w r p s)
  show ?case
  proof (cases k)
    case Nil
    then show ?thesis by simp
  next
    case (Cons d k')
    have no: "put_mark y (Inr m # xs) \<noteq> k @ b" for m xs
      using y 1(4) Cons by (cases y) auto
    have step: "\<exists>b'. snd (p, s) = k @ b'"
      if s: "s = c # t" and eq: "put_mark y (Inl c # scan w r (c # p, t)) = k @ b"
        and IH: "\<And>k b. set k \<subseteq> A \<Longrightarrow> put_mark y (scan w r (c # p, t)) = k @ b \<Longrightarrow> \<exists>b'. snd (c # p, t) = k @ b'" for c t
      using IH [of k' b] eq s Cons 1(4) by auto
    show ?thesis
    proof (cases "match_at w r (p, s)")
      case None
      with 1(5) Cons obtain c t where s: "s = c # t" by (cases s) (auto simp: scan.simps [of w r p])
      show ?thesis
        using step [OF s _ 1(1) [OF None s]] 1(5) by (simp add: s sub_scan_None [OF None [unfolded s]])
    next
      case (Some m)
      show ?thesis
      proof (cases "length (snd (m_after m)) < length s")
        case True
        then have "m_text m \<noteq> []" using match_at_Some(2) [OF Some] by auto
        with 1(5) no sub_scan_Some [OF Some] show ?thesis by metis
      next
        case False
        with 1(5) Cons Some obtain c t where s: "s = c # t" by (cases s) (auto simp: scan.simps [of w r p])
        have "scan w r (p, s) = Inl c # scan w r (c # p, t)"
          using Some False by (subst scan.simps) (simp add: s)
        with step [OF s _ 1(3) [OF Some False s]] 1(5) show ?thesis by simp
      qed
    qed
  qed
qed

lemma lang_match_shorter:
  assumes "lang w r P" and "match_at w r (p, s) = Some m"
  shows "P (m_text m)"
proof -
  obtain q t where a: "m_after m = (q, t)" by (cases "m_after m")
  from match_at_Some(1) [OF assms(2)] a assms(1) obtain x where "s = x @ t" "P x" by (auto simp: langD)
  with match_at_Some(2) [OF assms(2)] a show ?thesis by simp
qed

lemma lang_no_match: "lang w r P \<Longrightarrow> match_at w r (p, x @ t) = None \<Longrightarrow> \<not> P x"
  by (meson langD match_at_None)

text \<open>Replacing every match by a mark that cannot be part of a match leaves none.\<close>

lemma sub_leaves_none:
  assumes r: "lang w r P" and P: "\<And>x. P x \<Longrightarrow> x \<noteq> [] \<and> set x \<subseteq> A \<and> hd x \<notin> set y"
    and y: "y \<noteq> []" "hd y \<notin> A"
  shows "put_mark y (scan w r z) = a @ x @ b \<Longrightarrow> \<not> P x"
proof (induction w\<equiv>w r\<equiv>r z arbitrary: a rule: scan.induct)
  case (1 p s)
  show ?case
  proof (cases "match_at w r (p, s)")
    case (Some m)
    have ne: "m_text m \<noteq> []" using lang_match_shorter [OF r Some] P by blast
    have len: "length (snd (m_after m)) < length s" using match_at_Some(2) [OF Some] ne by simp
    from 1(4) sub_scan_Some [OF Some ne] have "y @ put_mark y (scan w r (m_after m)) = a @ x @ b" by simp
    then obtain us where
      "y = a @ us \<and> us @ put_mark y (scan w r (m_after m)) = x @ b \<or>
       put_mark y (scan w r (m_after m)) = us @ x @ b"
      unfolding append_eq_append_conv2 by blast
    then consider "us \<noteq> []" "y = a @ us" "us @ put_mark y (scan w r (m_after m)) = x @ b"
      | us' where "put_mark y (scan w r (m_after m)) = us' @ x @ b"
    proof (cases "us = []")
      case True
      with \<open>y = a @ us \<and> _ \<or> _\<close> have "put_mark y (scan w r (m_after m)) = [] @ x @ b \<or>
          put_mark y (scan w r (m_after m)) = us @ x @ b" by auto
      with that(2) show ?thesis by blast
    qed blast
    then show ?thesis
    proof cases
      case 1
      have "hd x \<in> set y" if "x \<noteq> []"
        using 1 that by (cases us; cases x) auto
      with P show ?thesis by blast
    next
      case 2
      show ?thesis by (rule 1(2) [OF Some len 2])
    qed
  next
    case None
    show ?thesis
    proof (cases s)
      case Nil
      have "scan w r (p, s) = []" using None Nil by (simp add: scan.simps [of w r p])
      with 1(4) have "x = []" by simp
      with P show ?thesis by blast
    next
      case (Cons c t)
      have eq: "c # put_mark y (scan w r (c # p, t)) = a @ x @ b"
        using 1(4) sub_scan_None [OF None [unfolded Cons]] Cons by simp
      show ?thesis
      proof (cases a)
        case (Cons d a')
        with eq have "put_mark y (scan w r (c # p, t)) = a' @ x @ b" by auto
        then show ?thesis by (rule 1(1) [OF None \<open>s = c # t\<close>])
      next
        case Nil
        show ?thesis
        proof
          assume px: "P x"
          from P [OF this] eq Nil obtain x' where x: "x = c # x'" "put_mark y (scan w r (c # p, t)) = x' @ b" "set x' \<subseteq> A"
            by (cases x) auto
          from marked_prefix [OF y x(3,2)] obtain b' where "t = x' @ b'" by auto
          with lang_no_match [OF r, of p x b'] None x Cons px show False by simp
        qed
      qed
    qed
  qed
qed

lemma re_sub_leaves_none:
  assumes "lang w r P" and "\<And>x. P x \<Longrightarrow> x \<noteq> [] \<and> set x \<subseteq> A \<and> hd x \<notin> set y" and "y \<noteq> []" and "hd y \<notin> A"
  shows "re_search w r (re_sub w r (\<lambda>_. y) s) = None"
  unfolding re_search_None
proof clarify
  fix a b q t
  assume eq: "re_sub w r (\<lambda>_. y) s = a @ b" and m: "rmatch w r (rev a, b) (q, t)"
  from m obtain x where "b = x @ t" "P x" by (auto simp: langD [OF assms(1)])
  with sub_leaves_none [OF assms, of "([], s)" a x t] eq show False by (simp add: re_sub_def)
qed

text \<open>A path of two or more segments: characters of words, dots, dashes and slashes, from a slash.\<close>

abbreviation path_chars :: "ucd \<Rightarrow> uchar set" where
  "path_chars u \<equiv> {c. word_char u c \<or> c = 46 \<or> c = 45 \<or> c = 47}"

lemma lang_path_segment:
  "lang (word_char u) path_segment
     (\<lambda>z. \<exists>y. z = 47 # y \<and> y \<noteq> [] \<and> list_all (cls_ok (word_char u) False [CWord, Rng 46 46, Rng 45 45]) y)"
  unfolding path_segment_def
  by (rule lang_cong [OF lang_Seq [OF lang_Chr lang_Plus_Cls]]) auto

lemma lang_RepMin2:
  assumes "lang w r P"
  shows "lang w (RepMin 2 r) (\<lambda>z. \<exists>xs. z = concat xs \<and> 2 \<le> length xs \<and> list_all P xs)"
proof -
  have "lang w (Rep 2 r) (\<lambda>z. \<exists>x y. z = x @ y \<and> P x \<and> P y)"
    unfolding numeral_2_eq_2
    by (simp, rule lang_cong [OF lang_Seq [OF assms lang_Seq [OF assms lang_Eps]]]) auto
  then have "lang w (RepMin 2 r) (\<lambda>z. \<exists>x y. z = x @ y \<and> (\<exists>a b. x = a @ b \<and> P a \<and> P b) \<and>
      (\<exists>xs. y = concat xs \<and> list_all P xs))"
    unfolding RepMin_def by (rule lang_Seq [OF _ lang_Star [OF assms]])
  then show ?thesis
  proof (rule lang_cong)
    fix z
    show "(\<exists>x y. z = x @ y \<and> (\<exists>a b. x = a @ b \<and> P a \<and> P b) \<and> (\<exists>xs. y = concat xs \<and> list_all P xs)) \<longleftrightarrow>
      (\<exists>xs. z = concat xs \<and> 2 \<le> length xs \<and> list_all P xs)" (is "?L \<longleftrightarrow> ?R")
    proof
      assume ?L
      then obtain a b xs where "z = concat (a # b # xs) \<and> 2 \<le> length (a # b # xs) \<and> list_all P (a # b # xs)"
        by auto
      then show ?R by blast
    next
      assume ?R
      then obtain a b xs where "z = (a @ b) @ concat xs" "P a" "P b" "list_all P xs"
        by (auto simp: numeral_2_eq_2 Suc_le_length_iff)
      then show ?L by blast
    qed
  qed
qed

definition host_path :: "ucd \<Rightarrow> pystr \<Rightarrow> bool" where
  "host_path u z \<longleftrightarrow> (\<exists>xs. z = concat xs \<and> 2 \<le> length xs \<and>
     (\<forall>x \<in> set xs. \<exists>y. x = 47 # y \<and> y \<noteq> [] \<and> (\<forall>c \<in> set y. word_char u c \<or> c = 46 \<or> c = 45)))"

lemma path_char_ok:
  "cls_ok (word_char u) False [CWord, Rng 46 46, Rng 45 45] c \<longleftrightarrow> word_char u c \<or> c = 46 \<or> c = 45"
  by (auto simp: cls_ok_def)

lemma lang_abs_path: "lang (word_char u) abs_path (host_path u)"
  unfolding abs_path_def
  by (rule lang_cong [OF lang_RepMin2 [OF lang_path_segment]])
    (simp only: host_path_def list_all_iff path_char_ok Ball_def)

lemma host_path_chars:
  assumes "host_path u z"
  shows "z \<noteq> [] \<and> set z \<subseteq> path_chars u \<and> hd z = 47"
proof -
  from assms obtain xs where xs: "z = concat xs" "2 \<le> length xs"
    "\<forall>x \<in> set xs. \<exists>y. x = 47 # y \<and> y \<noteq> [] \<and> (\<forall>c \<in> set y. word_char u c \<or> c = 46 \<or> c = 45)"
    unfolding host_path_def by blast
  then obtain x ys where "xs = x # ys" by (cases xs) auto
  with xs(1,3) have "z \<noteq> [] \<and> hd z = 47" by auto
  moreover have "set z \<subseteq> path_chars u" using xs(1,3) by fastforce
  ultimately show ?thesis by blast
qed

lemma safe_detail_pathless:
  assumes "\<not> alnum u 60"
  shows "re_search (word_char u) abs_path (safe_detail u m) = None"
  unfolding safe_detail_def
proof (rule re_sub_leaves_none [OF lang_abs_path, of u "path_chars u"])
  fix x assume "host_path u x"
  from host_path_chars [OF this]
  show "x \<noteq> [] \<and> set x \<subseteq> path_chars u \<and> hd x \<notin> set path_mark"
    by (auto simp: path_mark_def lit_def)
qed (use assms in \<open>auto simp: path_mark_def lit_def word_char_def\<close>)

lemma no_slash_no_path: "47 \<notin> set t \<Longrightarrow> re_search (word_char u) abs_path t = None"
  unfolding re_search_None langD [OF lang_abs_path] split_paired_Ex
  using host_path_chars by (metis Un_iff hd_in_set set_append)

text \<open>
  C29. What a client sees of an error. Every exception of the program becomes a response with the status
  of its class: an adapter error its own status and text, a transient failure 503 and any other error of
  the program 400, both with a text that is never empty and contains no absolute path of two or more
  segments; any other exception has no handler. The letter test of the Unicode database is assumed to
  reject \<open><\<close>.
\<close>

theorem error_responses:
  assumes "\<not> alnum u 60"
  shows "case respond u e of
      None \<Rightarrow> \<not> isinstance e GroundtruthError \<and> ecls e \<noteq> ApiError
    | Some (status, d) \<Rightarrow>
        if ecls e = ApiError then d = render u (emsg e) \<and> (\<forall>n. eattr e = HttpAttr n \<longrightarrow> status = n)
        else isinstance e GroundtruthError \<and> status = (if is_transient e then 503 else 400)
          \<and> d \<noteq> [] \<and> re_search (word_char u) abs_path d = None"
proof -
  have lits: "re_search (word_char u) abs_path (lit ''temporarily unavailable'') = None"
    "re_search (word_char u) abs_path (lit ''bad request'') = None"
    by (rule no_slash_no_path, simp add: lit_def)+
  have scr: "or_text (safe_detail u (emsg e)) d \<noteq> []
      \<and> re_search (word_char u) abs_path (or_text (safe_detail u (emsg e)) d) = None"
    if "d \<noteq> []" "re_search (word_char u) abs_path (lit d) = None" for d
    using that safe_detail_pathless [OF assms] by (simp add: or_text_def lit_def)
  have api: "isinstance e ApiError \<longleftrightarrow> ecls e = ApiError"
    by (cases "ecls e") (simp_all add: isinstance_def numeral_eq_Suc)
  have tr: "is_transient e \<longleftrightarrow> isinstance e TransientError" if "isinstance e GroundtruthError"
    using that by (simp add: is_transient_def del: isinstance_cases)
  have sub: "isinstance e TransientError \<Longrightarrow> isinstance e GroundtruthError" by auto
  consider "ecls e = ApiError" | "ecls e \<noteq> ApiError" "isinstance e TransientError"
    | "ecls e \<noteq> ApiError" "\<not> isinstance e TransientError" "isinstance e GroundtruthError"
    | "ecls e \<noteq> ApiError" "\<not> isinstance e TransientError" "\<not> isinstance e GroundtruthError"
    by blast
  then show ?thesis
  proof cases
    case 1
    then show ?thesis by (simp add: respond_def api)
  next
    case 2
    from sub [OF 2(2)] 2 show ?thesis using scr [OF _ lits(1)]
      by (simp add: respond_def api tr del: isinstance_cases)
  next
    case 3
    then show ?thesis using scr [OF _ lits(2)]
      by (simp add: respond_def api tr del: isinstance_cases)
  next
    case 4
    then show ?thesis by (simp add: respond_def api del: isinstance_cases)
  qed
qed

text \<open>A malformed vault file: the path in the message is gone, its name in quotes stays.\<close>

definition demo_error :: exn where
  "demo_error = exc NoteRepositoryError [Lit ''cannot read /srv/vaults/acme/a.md now'']"

theorem error_responses_witness:
  "\<not> alnum ascii_ucd 60 \<and> respond ascii_ucd demo_error = Some (400, lit ''cannot read <path> now'')
   \<and> re_search (word_char ascii_ucd) abs_path (lit ''cannot read <path> now'') = None"
proof -
  have a: "\<not> alnum ascii_ucd 60" and b: "respond ascii_ucd demo_error = Some (400, lit ''cannot read <path> now'')"
    by code_simp+
  from error_responses [OF a, of demo_error] a b show ?thesis by (simp add: demo_error_def)
qed

section \<open>Jobs on the wire\<close>

record job_response =
  jr_id :: pystr
  jr_vault :: pystr
  jr_state :: job_state
  jr_deduplicated :: bool
  jr_failure_stage :: "string option"
  jr_error :: "pystr option"
  jr_commit_sha :: "pystr option"
  jr_notes_created :: "pystr list"
  jr_notes_updated :: "pystr list"
  jr_attempts :: int
  jr_attempt_errors :: "pystr list"
  jr_source_sha :: "pystr option"
  jr_source_bytes :: "int option"
  jr_stage_timings :: "(string \<times> int) list"
  jr_token_usage :: "(string \<times> token_counts) list"
  jr_created_at :: "instant option"
  jr_started_at :: "instant option"
  jr_updated_at :: "instant option"

text \<open>\<open>redact(record.error) if record.error else None\<close>.\<close>

definition redacted_error :: "ucd \<Rightarrow> message option \<Rightarrow> pystr option" where
  "redacted_error u o' =
    (case o' of None \<Rightarrow> None
     | Some m \<Rightarrow> let t = render u m in if t = [] then None else Some (redact u t))"

definition job_response_of :: "ucd \<Rightarrow> job_record \<Rightarrow> job_response" where
  "job_response_of u r =
    \<lparr>jr_id = job_id r, jr_vault = job_vault r, jr_state = job_state r,
     jr_deduplicated = (dedup_of r \<noteq> None), jr_failure_stage = failure_stage r,
     jr_error = redacted_error u (error r), jr_commit_sha = commit_sha r,
     jr_notes_created = notes_created r, jr_notes_updated = notes_updated r,
     jr_attempts = attempts r, jr_attempt_errors = map (\<lambda>m. redact u (render u m)) (attempt_errors r),
     jr_source_sha = source_sha r, jr_source_bytes = source_bytes r,
     jr_stage_timings = stage_timings r, jr_token_usage = token_usage r,
     jr_created_at = created_at r, jr_started_at = started_at r, jr_updated_at = updated_at r\<rparr>"

datatype ingest_reply = QueuedReply pystr | JobReply job_response

definition ingest_reply :: "ucd \<Rightarrow> ingest_result \<Rightarrow> ingest_reply" where
  "ingest_reply u x = (case x of IngestId i \<Rightarrow> QueuedReply i | IngestDone r \<Rightarrow> JobReply (job_response_of u r))"

definition reply_json :: "pystr \<Rightarrow> json" where
  "reply_json i = JObj [(lit ''id'', JStr i), (lit ''state'', JStr (lit ''queued''))]"

text \<open>The two ends of an ingest request: the submission, and the reply when the wait is over.\<close>

record ingest_request =
  ir_vault :: pystr
  ir_text :: pystr
  ir_label :: pystr

definition mk_ingest_request :: "pystr \<Rightarrow> pystr \<Rightarrow> pystr option \<Rightarrow> ingest_request option" where
  "mk_ingest_request vault text label =
    (if text = [] then None
     else Some \<lparr>ir_vault = vault, ir_text = text, ir_label = (case label of Some l \<Rightarrow> l | None \<Rightarrow> lit ''api'')\<rparr>)"

definition ingest_endpoint :: "('x, 't) svc \<Rightarrow> ingest_request \<Rightarrow> (('x, 't) svc_hub, pystr) act" where
  "ingest_endpoint sv rq = submit_ingest sv (ir_vault rq) (ir_text rq) (ir_label rq)"

definition ingest_finish :: "ucd \<Rightarrow> bool \<Rightarrow> pystr \<Rightarrow> ('x, 's) hub \<Rightarrow> ingest_reply res" where
  "ingest_finish u blocking jid h =
    bindR (ingest_result blocking jid (hb_queue h)) (\<lambda>x. Inr (ingest_reply u x))"

definition list_jobs_endpoint :: "ucd \<Rightarrow> int \<Rightarrow> ('x, 's) hub \<Rightarrow> job_response list res" where
  "list_jobs_endpoint u limit h = bindR (list_recent_jobs limit h) (\<lambda>rs. Inr (map (job_response_of u) rs))"

definition get_job_endpoint :: "ucd \<Rightarrow> pystr \<Rightarrow> ('x, 's) hub \<Rightarrow> job_response res" where
  "get_job_endpoint u jid h = bindR (get_job jid h) (\<lambda>r. Inr (job_response_of u r))"

section \<open>Notes and schemas\<close>

definition strs :: "pystr list \<Rightarrow> json" where
  "strs xs = JArr (map JStr xs)"

definition note_entry :: "vault_note \<Rightarrow> json" where
  "note_entry n = JObj [(lit ''path'', JStr (note_path n)), (lit ''title'', JStr (title (note_frontmatter n))),
     (lit ''tags'', strs (tags (note_frontmatter n)))]"

definition note_json :: "vault_note \<Rightarrow> json" where
  "note_json n = (let fm = note_frontmatter n in
     JObj [(lit ''path'', JStr (note_path n)),
       (lit ''frontmatter'', JObj [(lit ''title'', JStr (title fm)), (lit ''tags'', strs (tags fm)),
          (lit ''sources'', strs (sources fm)), (lit ''created'', JStr (isoformat (created fm))),
          (lit ''updated'', JStr (isoformat (updated fm)))]),
       (lit ''body'', JStr (note_body n))])"

definition schema_json :: "pystr \<Rightarrow> json" where
  "schema_json t = JObj [(lit ''schema_md'', JStr t)]"

definition query_endpoint :: "('x, 't) svc \<Rightarrow> pystr \<Rightarrow> pystr \<Rightarrow> (('x, 't) svc_hub, int \<times> json) act" where
  "query_endpoint sv name question =
    bindA (svc_query sv name question) (\<lambda>o'. retA (outcome_response o'))"

definition list_notes_endpoint ::
  "('x, 't) svc \<Rightarrow> pystr \<Rightarrow> pystr option \<Rightarrow> pystr option \<Rightarrow> ('x, 't) svc_hub \<Rightarrow> json res" where
  "list_notes_endpoint sv name tag pre h =
    bindR (svc_list_notes sv name tag pre h) (\<lambda>ns. Inr (JArr (map note_entry ns)))"

definition read_note_endpoint :: "('x, 't) svc \<Rightarrow> pystr \<Rightarrow> pystr \<Rightarrow> ('x, 't) svc_hub \<Rightarrow> json res" where
  "read_note_endpoint sv name p h = bindR (svc_read_note sv name p h) (\<lambda>n. Inr (note_json n))"

definition read_schema_endpoint :: "('x, 't) svc \<Rightarrow> pystr \<Rightarrow> ('x, 't) svc_hub \<Rightarrow> json res" where
  "read_schema_endpoint sv name h = bindR (svc_read_schema sv name h) (\<lambda>t. Inr (schema_json t))"

section \<open>The MCP tools\<close>

definition tool_names :: "pystr list" where
  "tool_names = map lit [''groundtruth_query'', ''groundtruth_ingest'', ''job_status'', ''list_vaults'',
     ''list_notes'', ''read_note'', ''get_schema'', ''update_schema'']"

definition mcp_query :: "('x, 't) svc \<Rightarrow> pystr \<Rightarrow> pystr \<Rightarrow> (('x, 't) svc_hub, json) act" where
  "mcp_query sv name question = bindA (svc_query sv name question) (\<lambda>o'. retA (to_payload o'))"

definition mcp_ingest ::
  "('x, 't) svc \<Rightarrow> pystr \<Rightarrow> pystr \<Rightarrow> pystr option \<Rightarrow> (('x, 't) svc_hub, pystr) act" where
  "mcp_ingest sv name text label =
    submit_ingest sv name text (case label of Some l \<Rightarrow> l | None \<Rightarrow> lit ''mcp'')"

definition mcp_job_status :: "ucd \<Rightarrow> pystr \<Rightarrow> ('x, 's) hub \<Rightarrow> job_response res" where
  "mcp_job_status u jid h = bindR (get_job jid h) (\<lambda>r. Inr (job_response_of u r))"

definition mcp_list_vaults :: "('x, 's) hub \<Rightarrow> json res" where
  "mcp_list_vaults h = bindR (svc_list_vaults h) (\<lambda>vs. Inr (JArr (map (\<lambda>v.
     JObj [(lit ''name'', JStr (vault_name v)), (lit ''repo_root'', JStr (path_text (repo_root v)))]) vs)))"

definition mcp_list_notes ::
  "('x, 't) svc \<Rightarrow> pystr \<Rightarrow> pystr option \<Rightarrow> pystr option \<Rightarrow> ('x, 't) svc_hub \<Rightarrow> json res" where
  "mcp_list_notes sv name pre tag h =
    bindR (svc_list_notes sv name tag pre h) (\<lambda>ns. Inr (JArr (map note_entry ns)))"

definition mcp_read_note :: "('x, 't) svc \<Rightarrow> pystr \<Rightarrow> pystr \<Rightarrow> ('x, 't) svc_hub \<Rightarrow> json res" where
  "mcp_read_note sv name p h = bindR (svc_read_note sv name p h) (\<lambda>n. Inr (JObj
     [(lit ''path'', JStr (note_path n)), (lit ''tags'', strs (tags (note_frontmatter n))),
      (lit ''body'', JStr (note_body n))]))"

definition mcp_get_schema :: "('x, 't) svc \<Rightarrow> pystr \<Rightarrow> ('x, 't) svc_hub \<Rightarrow> json res" where
  "mcp_get_schema sv name h = bindR (svc_read_schema sv name h) (\<lambda>t. Inr (schema_json t))"

definition mcp_update_schema ::
  "('x, 't) svc \<Rightarrow> pystr \<Rightarrow> pystr \<Rightarrow> pystr \<Rightarrow> (('x, 't) svc_hub, json) act" where
  "mcp_update_schema sv name markdown rationale =
    bindA (svc_update_schema sv name markdown rationale) (\<lambda>_. retA (JObj [(lit ''ok'', JBool True)]))"

section \<open>Vaults\<close>

record adopt_request =
  ad_name :: pystr
  ad_root :: path
  ad_init :: bool

record vault_info =
  vi_name :: pystr
  vi_repo_root :: path
  vi_vault_dir :: path

definition vault_info_of :: "vault \<Rightarrow> vault_info" where
  "vault_info_of v = \<lparr>vi_name = vault_name v, vi_repo_root = repo_root v,
     vi_vault_dir = to_path (repo_root v) (vault_name v)\<rparr>"

definition validate_adopt :: "('x, 't) svc \<Rightarrow> path \<Rightarrow> pystr \<Rightarrow> ('x repo_state, unit) act" where
  "validate_adopt sv root name rp =
    (if \<not> is_dir (fst rp) (root @ [lit ''.git''])
     then (Inl (api_error 422 [Txt (path_text root), Lit '' is not a git repository'']), rp)
     else if \<not> is_dir (fst rp) (to_path root name)
     then (Inl (api_error 422 [Lit ''vault directory '', Repr name, Lit '' does not exist under the repo'']), rp)
     else if \<not> is_file (fst rp) (to_path root name @ [schema_filename])
     then (Inl (api_error 422 [Txt name, Lit ''/schema.md is missing'']), rp)
     else case is_clean (svc_git sv root) rp of
            (Inr True, rp') \<Rightarrow> (Inr (), rp')
          | (Inr False, rp') \<Rightarrow> (Inl (api_error 422 [Lit ''the working tree is not clean'']), rp')
          | (Inl e, rp') \<Rightarrow>
              (Inl (if isinstance e GitError then api_error 422 [Lit ''could not read git status for the repo''] else e), rp'))"

text \<open>\<open>except E as exc: problem(status, str(exc))\<close>.\<close>

definition problem_on :: "exc_class \<Rightarrow> int \<Rightarrow> exn \<Rightarrow> exn" where
  "problem_on c status e = (if isinstance e c then api_error status (emsg e) else e)"

definition reg_add :: "pystr \<Rightarrow> path \<Rightarrow> (('x, 's) hub, vault) act" where
  "reg_add name root h =
    (case register name root (hb_registry h) of
       (Inl e, r) \<Rightarrow> (Inl (problem_on RegistryError 422 e), h\<lparr>hb_registry := r\<rparr>)
     | (Inr v, r) \<Rightarrow> (Inr v, h\<lparr>hb_registry := r\<rparr>))"

definition adopt :: "('x, 't) svc \<Rightarrow> adopt_request \<Rightarrow> (('x, 't) svc_hub, vault_info) act" where
  "adopt sv rq h =
    (case reg_contains (hb_registry h) (ad_name rq) of
       Inl e \<Rightarrow> (Inl e, h)
     | Inr True \<Rightarrow> (Inl (api_error 422 [Lit ''vault '', Repr (ad_name rq), Lit '' is already registered'']), h)
     | Inr False \<Rightarrow>
         bindA (\<lambda>h. case on_world (on_repo (if ad_init rq then scaffold_vault (svc_git sv (ad_root rq)) (ad_name rq)
                                     else validate_adopt sv (ad_root rq) (ad_name rq))) h of
                  (Inl e, h') \<Rightarrow> (Inl (if ad_init rq then problem_on ScaffoldError 422 e else e), h')
                | (Inr k, h') \<Rightarrow> (Inr k, h')) (\<lambda>_.
         bindA (reg_add (ad_name rq) (ad_root rq)) (\<lambda>v. retA (vault_info_of v))) h)"

definition list_vaults_endpoint :: "('x, 's) hub \<Rightarrow> vault_info list res" where
  "list_vaults_endpoint h = bindR (list_vaults (hb_registry h)) (\<lambda>vs. Inr (map vault_info_of vs))"

definition deregister_endpoint :: "pystr \<Rightarrow> (('x, 's) hub, unit) act" where
  "deregister_endpoint name h =
    (case deregister name (hb_registry h) of
       (Inl e, r) \<Rightarrow> (Inl (problem_on RegistryError 404 e), h\<lparr>hb_registry := r\<rparr>)
     | (Inr k, r) \<Rightarrow> (Inr (), h\<lparr>hb_registry := r,
         hb_world := (hb_world h)\<lparr>w_index := index_drop name (w_index (hb_world h))\<rparr>\<rparr>))"

lemma register_get: "register n root s = (Inr v, s') \<Longrightarrow>
    v = \<lparr>vault_name = n, repo_root = root\<rparr> \<and> reg_get s n = Inr None
    \<and> reg_get s' m = (if m = n then Inr (Some v) else reg_get s m)"
  by (auto simp: register_def reg_get_def reg.peek_replace store_simps split: sum.splits if_splits)

lemma register_failed: "register n root s = (Inl e, s') \<Longrightarrow> s' = s"
  by (auto simp: register_def split: sum.splits if_splits)

lemma validate_adopt_Inr:
  "validate_adopt sv root name rp = (Inr k, rp') \<Longrightarrow>
    is_dir (fst rp) (root @ [lit ''.git'']) \<and> is_dir (fst rp) (to_path root name)
    \<and> is_file (fst rp) (to_path root name @ [schema_filename])
    \<and> is_clean (svc_git sv root) rp = (Inr True, rp')"
  by (auto simp: validate_adopt_def simp del: lit_Cons split: if_splits prod.splits sum.splits bool.splits)

lemma scaffold_vault_Inr:
  "scaffold_vault g name rp = (Inr k, rp') \<Longrightarrow> stat (fst rp) (ge_path g) = None \<or> dir_entries (fst rp) (ge_path g) = Inr []"
  by (auto simp: scaffold_vault_def Let_def split: if_splits sum.splits list.splits)

lemma on_world_repo:
  "on_world (on_repo m) h = (r, h') \<Longrightarrow>
    (\<exists>rp. m (w_repo (hb_world h)) = (r, rp) \<and> h' = h\<lparr>hb_world := (hb_world h)\<lparr>w_repo := rp\<rparr>\<rparr>)"
  by (auto simp: on_world_def on_repo_def split: prod.splits)

definition prepare_vault :: "('x, 't) svc \<Rightarrow> adopt_request \<Rightarrow> ('x repo_state, unit) act" where
  "prepare_vault sv rq =
    (if ad_init rq then scaffold_vault (svc_git sv (ad_root rq)) (ad_name rq)
     else validate_adopt sv (ad_root rq) (ad_name rq))"

definition vault_ready :: "('x, 't) svc \<Rightarrow> adopt_request \<Rightarrow> 'x repo_state \<Rightarrow> bool" where
  "vault_ready sv rq rp \<longleftrightarrow>
    (if ad_init rq
     then stat (fst rp) (ad_root rq) = None \<or> dir_entries (fst rp) (ad_root rq) = Inr []
     else is_dir (fst rp) (ad_root rq @ [lit ''.git''])
       \<and> is_dir (fst rp) (to_path (ad_root rq) (ad_name rq))
       \<and> is_file (fst rp) (to_path (ad_root rq) (ad_name rq) @ [schema_filename])
       \<and> fst (is_clean (svc_git sv (ad_root rq)) rp) = Inr True)"

lemma prepare_vault_ready:
  assumes "prepare_vault sv rq rp = (Inr k, rp')"
  shows "vault_ready sv rq rp"
proof (cases "ad_init rq")
  case True
  with assms scaffold_vault_Inr [of "svc_git sv (ad_root rq)" "ad_name rq" rp k rp'] show ?thesis
    by (simp add: prepare_vault_def vault_ready_def svc_git_def)
next
  case False
  with assms validate_adopt_Inr [of sv "ad_root rq" "ad_name rq" rp k rp'] show ?thesis
    by (simp add: prepare_vault_def vault_ready_def del: lit_Cons)
qed

lemma adopt_cases:
  assumes "adopt sv rq h = (r, h')"
  shows "(\<exists>e rp. r = Inl e \<and> h' = h\<lparr>hb_world := (hb_world h)\<lparr>w_repo := rp\<rparr>\<rparr>)
    \<or> (\<exists>k rp v q. prepare_vault sv rq (w_repo (hb_world h)) = (Inr k, rp)
        \<and> register (ad_name rq) (ad_root rq) (hb_registry h) = (Inr v, q)
        \<and> r = Inr (vault_info_of v) \<and> h' = h\<lparr>hb_registry := q, hb_world := (hb_world h)\<lparr>w_repo := rp\<rparr>\<rparr>)"
proof (cases "reg_contains (hb_registry h) (ad_name rq) = Inr False")
  case False
  then have "\<exists>e. r = Inl e \<and> h' = h"
    using assms by (auto simp: adopt_def split: sum.splits bool.splits)
  then obtain e where "r = Inl e" "h' = h" by blast
  then show ?thesis by (intro disjI1 exI [of _ e] exI [of _ "w_repo (hb_world h)"]) simp
next
  case True
  obtain k h1 where k: "on_world (on_repo (prepare_vault sv rq)) h = (k, h1)"
    by (cases "on_world (on_repo (prepare_vault sv rq)) h")
  from on_world_repo [OF k] obtain rp where m: "prepare_vault sv rq (w_repo (hb_world h)) = (k, rp)"
    and h1: "h1 = h\<lparr>hb_world := (hb_world h)\<lparr>w_repo := rp\<rparr>\<rparr>" by blast
  obtain v q where v: "register (ad_name rq) (ad_root rq) (hb_registry h) = (v, q)"
    by (cases "register (ad_name rq) (ad_root rq) (hb_registry h)")
  note run = assms [unfolded adopt_def True bindA_def reg_add_def retA_def, folded prepare_vault_def]
  show ?thesis
  proof (cases k)
    case (Inl e)
    with run k h1 show ?thesis
      by (intro disjI1 exI [of _ "if ad_init rq then problem_on ScaffoldError 422 e else e"] exI [of _ rp]) simp
  next
    case kr: (Inr k')
    show ?thesis
    proof (cases v)
      case (Inl e)
      with register_failed v have "q = hb_registry h" by blast
      with run k kr h1 v Inl show ?thesis
        by (intro disjI1 exI [of _ "problem_on RegistryError 422 e"] exI [of _ rp]) auto
    next
      case (Inr w)
      with run k kr h1 v m show ?thesis
        by (intro disjI2 exI [of _ k'] exI [of _ rp] exI [of _ w] exI [of _ q]) auto
    qed
  qed
qed

text \<open>
  C28. Which directories become vaults. A request to adopt touches the disk under git's hands and the
  registry, never a job, the index or the queue. If it fails in any way the registry is what it was. If it
  succeeds, the name was free, exactly this name is now registered, with the requested root, and the
  checks of \<open>vault_ready\<close> held: for an existing repository that its root has a git directory, the vault its directory and
  schema, and git reported a clean tree; for a new one that the root did not exist or was empty.
\<close>

theorem adoption:
  "case adopt sv rq h of (r, h') \<Rightarrow>
     h' = h\<lparr>hb_registry := hb_registry h', hb_world := (hb_world h)\<lparr>w_repo := w_repo (hb_world h')\<rparr>\<rparr> \<and>
     (case r of
        Inl e \<Rightarrow> hb_registry h' = hb_registry h
      | Inr info \<Rightarrow>
          info = \<lparr>vi_name = ad_name rq, vi_repo_root = ad_root rq, vi_vault_dir = to_path (ad_root rq) (ad_name rq)\<rparr>
          \<and> reg_get (hb_registry h) (ad_name rq) = Inr None
          \<and> (\<forall>m. reg_get (hb_registry h') m =
                (if m = ad_name rq then Inr (Some \<lparr>vault_name = ad_name rq, repo_root = ad_root rq\<rparr>)
                 else reg_get (hb_registry h) m))
          \<and> vault_ready sv rq (w_repo (hb_world h)))"
proof -
  obtain r h' where a: "adopt sv rq h = (r, h')" by (cases "adopt sv rq h")
  from adopt_cases [OF a] show ?thesis
  proof (elim disjE exE conjE)
    fix k rp v q
    assume m: "prepare_vault sv rq (w_repo (hb_world h)) = (Inr k, rp)"
      and g: "register (ad_name rq) (ad_root rq) (hb_registry h) = (Inr v, q)"
      and r: "r = Inr (vault_info_of v)" "h' = h\<lparr>hb_registry := q, hb_world := (hb_world h)\<lparr>w_repo := rp\<rparr>\<rparr>"
    show ?thesis
      using register_get [OF g] prepare_vault_ready [OF m] by (simp add: a r vault_info_of_def)
  qed (simp add: a)
qed

text \<open>Deregistering removes the index of the vault and touches no file.\<close>

lemma deregister_keeps_files:
  assumes "deregister_endpoint name h = (r, h')"
  shows "w_repo (hb_world h') = w_repo (hb_world h) \<and> w_jobs (hb_world h') = w_jobs (hb_world h)
    \<and> (case r of
         Inl e \<Rightarrow> w_index (hb_world h') = w_index (hb_world h) \<and> hb_registry h' = hb_registry h
       | Inr _ \<Rightarrow> reg_get (hb_registry h') name = Inr None
           \<and> idx.contents (w_index (hb_world h')) = (idx.contents (w_index (hb_world h)))(name := Map.empty))"
  using assms deregister_contents [of name "hb_registry h"]
  by (auto simp: deregister_endpoint_def drop_contents deregister_def split: prod.splits sum.splits if_splits)

end
