(* ===== verification/Views.thy ===== *)
theory Views
  imports Api
begin

text \<open>
  The web pages (\<^verbatim>\<open>src/groundtruth/web/views.py\<close> and \<^verbatim>\<open>web/browse.py\<close>): the rows of the job queue, the
  detail of a job, the counts of the queue page, and the contexts that the handlers give to the
  templates. The templates are HTML files and are not modelled. Instants are microseconds since 1970 in
  UTC here, and durations are microseconds.

  Shown: the rounding of the printed numbers, and that the counts of the queue page add up to its rows.
\<close>

section \<open>Floating-point numbers with one decimal\<close>

text \<open>Rounding a quotient to an integer, ties to even.\<close>

definition round_even :: "int \<Rightarrow> int \<Rightarrow> int" where
  "round_even n d =
    (let q = n div d; r = n mod d in
     if 2 * r < d \<or> (2 * r = d \<and> q mod 2 = 0) then q else q + 1)"

function bits :: "int \<Rightarrow> int" where
  "bits n = (if n \<le> 0 then 0 else 1 + bits (n div 2))"
  by pat_completeness auto
termination
  by (relation "measure nat") auto

declare bits.simps [simp del]

text \<open>The double nearest to \<open>n / d\<close> for \<open>n \<ge> 0\<close>, as a quotient: 53 significant bits. This is what \<open>n / d\<close> of two
  integers and the division of two floats give; the numbers here are neither subnormal nor too large.\<close>

definition scaled :: "int \<Rightarrow> int \<Rightarrow> int \<Rightarrow> int \<times> int" where
  "scaled n d e = (n * 2 ^ nat (- e), d * 2 ^ nat e)"

definition double :: "int \<Rightarrow> int \<Rightarrow> int \<times> int" where
  "double n d =
    (if n \<le> 0 then (0, 1)
     else let e0 = bits n - bits d - 53;
              e = (case scaled n d e0 of (a, b) \<Rightarrow> if 2 ^ 53 * b \<le> a then e0 + 1 else e0);
              m = (case scaled n d e of (a, b) \<Rightarrow> round_even a b)
          in (m * 2 ^ nat e, 2 ^ nat (- e)))"

text \<open>\<open>f"{x:.1f}"\<close>: the exact value of the double, to tenths, ties to even.\<close>

definition tenths :: "int \<times> int \<Rightarrow> pystr" where
  "tenths x = (let t = round_even (10 * fst x) (snd x) in str_int (t div 10) @ [46] @ str_int (t mod 10))"

definition micro :: int where
  "micro = 1000000"

section \<open>Times and sizes\<close>

definition no_value :: pystr where
  "no_value = [8212]"

definition ago :: "instant option \<Rightarrow> instant \<Rightarrow> pystr" where
  "ago at' now =
    (case at' of
       None \<Rightarrow> no_value
     | Some t \<Rightarrow>
        (let secs = max 0 ((now - t) div micro) in
         if secs \<ge> 86400 then str_int (secs div 86400) @ lit ''d ago''
         else if secs \<ge> 3600 then str_int (secs div 3600) @ lit ''h ago''
         else if secs \<ge> 60 then str_int (secs div 60) @ lit ''m ago''
         else if secs \<noteq> 0 then str_int secs @ lit ''s ago'' else lit ''just now''))"

definition clock_text :: "int \<Rightarrow> pystr" where
  "clock_text us =
    (let s = double (max 0 us) micro in
     if fst s < 60 * snd s then tenths s @ lit ''s''
     else tenths (double (fst s) (60 * snd s)) @ lit ''m'')"

definition size_text :: "int option \<Rightarrow> pystr" where
  "size_text o' =
    (case o' of
       None \<Rightarrow> no_value
     | Some n \<Rightarrow>
        (if n < 1024 then str_int n @ lit '' B''
         else if n < 1024 * 1024 then tenths (double n 1024) @ lit '' KB''
         else tenths (double n (1024 * 1024)) @ lit '' MB''))"

definition waited :: "job_record \<Rightarrow> instant \<Rightarrow> pystr" where
  "waited r now =
    (case created_at r of
       None \<Rightarrow> no_value
     | Some c \<Rightarrow>
        clock_text ((case started_at r of Some s \<Rightarrow> s | None \<Rightarrow> if job_state r = QUEUED then now else c) - c))"

definition ran :: "job_record \<Rightarrow> instant \<Rightarrow> pystr" where
  "ran r now =
    (case started_at r of
       None \<Rightarrow> no_value
     | Some s \<Rightarrow>
        clock_text ((if job_state r = RUNNING then now else case updated_at r of Some t \<Rightarrow> t | None \<Rightarrow> now) - s))"

text \<open>\<open>isoformat(timespec="seconds")\<close> of a UTC datetime.\<close>

definition iso_seconds :: "instant \<Rightarrow> pystr" where
  "iso_seconds t =
    (let s = t div micro; d = s div 86400; k = s mod 86400 in
     isoformat (719163 + d) @ lit ''T'' @ padded 2 (k div 3600) @ lit '':'' @ padded 2 (k mod 3600 div 60)
       @ lit '':'' @ padded 2 (k mod 60) @ lit ''+00:00'')"

definition iso :: "instant option \<Rightarrow> pystr option" where
  "iso at' = map_option iso_seconds at'"

section \<open>The queue page\<close>

record job_row =
  rw_id :: pystr
  rw_vault :: pystr
  rw_state :: pystr
  rw_created :: pystr
  rw_waited :: pystr
  rw_ran :: pystr
  rw_text_size :: pystr
  rw_notes :: nat
  rw_created_n :: nat
  rw_updated_n :: nat
  rw_deduplicated :: bool
  rw_failure_stage :: "string option"
  rw_error :: "pystr option"
  rw_attempts :: int

definition job_row_of :: "ucd \<Rightarrow> job_record \<Rightarrow> instant \<Rightarrow> job_row" where
  "job_row_of u r now =
    \<lparr>rw_id = job_id r, rw_vault = job_vault r, rw_state = lit (state_value (job_state r)),
     rw_created = ago (created_at r) now, rw_waited = waited r now, rw_ran = ran r now,
     rw_text_size = size_text (source_bytes r),
     rw_notes = length (notes_created r) + length (notes_updated r),
     rw_created_n = length (notes_created r), rw_updated_n = length (notes_updated r),
     rw_deduplicated = (dedup_of r \<noteq> None), rw_failure_stage = failure_stage r,
     rw_error = map_option (render u) (error r), rw_attempts = attempts r\<rparr>"

text \<open>The detail overlay: the row with its error redacted, and the rest of the record.\<close>

record job_detail =
  jd_row :: job_row
  jd_source_sha :: "pystr option"
  jd_commit_sha :: "pystr option"
  jd_dedup_of :: "pystr option"
  jd_notes_created :: "pystr list"
  jd_notes_updated :: "pystr list"
  jd_stage_timings :: "(string \<times> pystr) list"
  jd_token_usage :: "(string \<times> token_counts) list"
  jd_tokens_total :: int
  jd_attempt_errors :: "pystr list"
  jd_created_at :: "pystr option"
  jd_started_at :: "pystr option"
  jd_updated_at :: "pystr option"

definition seconds_text :: "int \<Rightarrow> pystr" where
  "seconds_text us =
    (if us < 0 then 45 # tenths (double (- us) micro) else tenths (double us micro))"

definition job_detail_of :: "ucd \<Rightarrow> job_record \<Rightarrow> instant \<Rightarrow> job_detail" where
  "job_detail_of u r now =
    \<lparr>jd_row = (job_row_of u r now)\<lparr>rw_error := redacted_error u (error r)\<rparr>,
     jd_source_sha = source_sha r, jd_commit_sha = commit_sha r, jd_dedup_of = dedup_of r,
     jd_notes_created = notes_created r, jd_notes_updated = notes_updated r,
     jd_stage_timings = map (\<lambda>(s, v). (s, seconds_text v)) (stage_timings r),
     jd_token_usage = token_usage r,
     jd_tokens_total = sum_list (map (\<lambda>(_, c). total_tokens c) (token_usage r)),
     jd_attempt_errors = map (\<lambda>m. redact u (render u m)) (attempt_errors r),
     jd_created_at = iso (created_at r), jd_started_at = iso (started_at r), jd_updated_at = iso (updated_at r)\<rparr>"

record queue_page =
  qp_rows :: "job_row list"
  qp_counts :: "(string \<times> nat) list"
  qp_total :: nat

definition queue_context :: "ucd \<Rightarrow> instant \<Rightarrow> int \<Rightarrow> ('x, 's) hub \<Rightarrow> queue_page res" where
  "queue_context u now limit h =
    bindR (list_recent_jobs limit h) (\<lambda>recs. Inr
      \<lparr>qp_rows = map (\<lambda>r. job_row_of u r now) recs,
       qp_counts = map (\<lambda>s. (state_value s, length (filter (\<lambda>r. job_state r = s) recs)))
         [QUEUED, RUNNING, SUCCEEDED, FAILED],
       qp_total = length recs\<rparr>)"

lemma round_even_half:
  assumes "0 < d"
  shows "2 * \<bar>d * round_even n d - n\<bar> \<le> d"
proof -
  have n: "n = d * (n div d) + n mod d" by simp
  have r: "0 \<le> n mod d" "n mod d < d" using assms by simp_all
  show ?thesis
  proof (cases "round_even n d = n div d")
    case True
    then have "2 * (n mod d) \<le> d" by (auto simp: round_even_def Let_def split: if_splits)
    moreover have "d * round_even n d - n = - (n mod d)" unfolding True using n by linarith
    ultimately show ?thesis using r by simp
  next
    case False
    then have e: "round_even n d = n div d + 1" "d \<le> 2 * (n mod d)"
      by (auto simp: round_even_def Let_def split: if_splits)
    have "d * (n div d + 1) = d * (n div d) + d" by (simp add: algebra_simps)
    then have "d * round_even n d - n = d - n mod d" unfolding e(1) using n by linarith
    with e(2) r show ?thesis by simp
  qed
qed

section \<open>The handlers\<close>

definition vault_names :: "('x, 's) hub \<Rightarrow> pystr list res" where
  "vault_names h = bindR (svc_list_vaults h) (\<lambda>vs. Inr (map vault_name vs))"

text \<open>\<open>POST /ui/ingest\<close>: the submission, then the record it created.\<close>

definition web_submit :: "('x, 't) svc \<Rightarrow> pystr \<Rightarrow> pystr \<Rightarrow> (('x, 't) svc_hub, job_response) act" where
  "web_submit sv name text =
    bindA (submit_ingest sv name text (lit ''web'')) (\<lambda>jid h.
      (bindR (get_job jid h) (\<lambda>r. Inr (job_response_of (en_ucd (sv_pipe sv)) r)), h))"

definition web_job_status :: "ucd \<Rightarrow> pystr \<Rightarrow> ('x, 's) hub \<Rightarrow> job_response res" where
  "web_job_status u jid h = bindR (get_job jid h) (\<lambda>r. Inr (job_response_of u r))"

definition web_job_detail :: "ucd \<Rightarrow> instant \<Rightarrow> pystr \<Rightarrow> ('x, 's) hub \<Rightarrow> job_detail res" where
  "web_job_detail u now jid h = bindR (get_job jid h) (\<lambda>r. Inr (job_detail_of u r now))"

datatype answer_page =
    RefusedPage refusal_reason pystr
  | AnswerPage pystr "(pystr \<times> pystr) list"

fun answer_page_of :: "pystr \<Rightarrow> recovery_outcome \<Rightarrow> answer_page" where
  "answer_page_of name (Refusal r us) = RefusedPage r (render_refusal r)"
| "answer_page_of name (AnswerResult a) =
    AnswerPage (render_answer_html name (render_answer a False))
      (map (\<lambda>c. (cit_vault c, cit_path c)) (ans_citations a))"

definition web_query :: "('x, 't) svc \<Rightarrow> pystr \<Rightarrow> pystr \<Rightarrow> (('x, 't) svc_hub, answer_page) act" where
  "web_query sv name question = bindA (svc_query sv name question) (\<lambda>o'. retA (answer_page_of name o'))"

section \<open>Browsing\<close>

record note_view =
  nv_path :: pystr
  nv_title :: pystr
  nv_tags :: "pystr list"
  nv_created :: pystr
  nv_updated :: pystr
  nv_sources :: "pystr list"
  nv_html :: pystr

record browse_page =
  bp_vaults :: "pystr list"
  bp_vault :: "pystr option"
  bp_tree :: "tree option"
  bp_note :: "note_view option"

definition browse_index :: "('x, 's) hub \<Rightarrow> browse_page res" where
  "browse_index h =
    bindR (vault_names h) (\<lambda>vs. Inr \<lparr>bp_vaults = vs, bp_vault = None, bp_tree = None, bp_note = None\<rparr>)"

definition browse_vault :: "('x, 't) svc \<Rightarrow> pystr \<Rightarrow> ('x, 't) svc_hub \<Rightarrow> browse_page res" where
  "browse_vault sv name h =
    bindR (svc_list_notes sv name None None h) (\<lambda>ns.
    bindR (vault_names h) (\<lambda>vs.
    Inr \<lparr>bp_vaults = vs, bp_vault = Some name, bp_tree = Some (browse_tree (map note_path ns)), bp_note = None\<rparr>))"

definition note_view_of :: "(pystr \<Rightarrow> pystr) \<Rightarrow> pystr \<Rightarrow> pystr list \<Rightarrow> vault_note \<Rightarrow> note_view" where
  "note_view_of unesc name paths n = (let fm = note_frontmatter n in
     \<lparr>nv_path = note_path n, nv_title = title fm, nv_tags = tags fm,
      nv_created = isoformat (created fm), nv_updated = isoformat (updated fm), nv_sources = sources fm,
      nv_html = render_note_body unesc name paths (note_body n)\<rparr>)"

definition browse_note ::
  "(pystr \<Rightarrow> pystr) \<Rightarrow> ('x, 't) svc \<Rightarrow> pystr \<Rightarrow> pystr \<Rightarrow> ('x, 't) svc_hub \<Rightarrow> browse_page res" where
  "browse_note unesc sv name p h =
    bindR (svc_read_note sv name p h) (\<lambda>n.
    bindR (svc_list_notes sv name None None h) (\<lambda>ns.
    bindR (vault_names h) (\<lambda>vs.
    Inr \<lparr>bp_vaults = vs, bp_vault = Some name, bp_tree = Some (browse_tree (map note_path ns)),
      bp_note = Some (note_view_of unesc name (map note_path ns) n)\<rparr>)))"

section \<open>The counts of the queue page\<close>

lemma partition_states:
  "length (filter (\<lambda>r. job_state r = QUEUED) rs) + length (filter (\<lambda>r. job_state r = RUNNING) rs)
    + length (filter (\<lambda>r. job_state r = SUCCEEDED) rs) + length (filter (\<lambda>r. job_state r = FAILED) rs) = length rs"
proof (induction rs)
  case (Cons r rs)
  then show ?case by (cases "job_state r") auto
qed simp

lemma queue_page_counts:
  "queue_context u now limit h = Inr pg \<Longrightarrow>
    sum_list (map snd (qp_counts pg)) = qp_total pg \<and> length (qp_rows pg) = qp_total pg"
  using partition_states by (auto simp: queue_context_def add.assoc)

end
