(* ===== verification/JobFrame.thy ===== *)
theory JobFrame
  imports Services
begin

text \<open>
  What running a job does to the job store, whatever happens on the way: only the record of this job is
  written, it never vanishes and only moves forward, and the store stays well formed. Steps are
  composed by the rules of \<open>Frames\<close>. The worker's own handler for a runner that raises
  (\<^verbatim>\<open>src/groundtruth/jobs/queue.py\<close>, \<open>_work\<close> and \<open>_force_fail\<close>) closes the run.

  Shown: the frame of a whole run, and that the record it hands back is terminal and stored.
\<close>

section \<open>Writing one record\<close>

definition own_record :: "pystr \<Rightarrow> job_dir \<Rightarrow> job_dir \<Rightarrow> bool" where
  "own_record i d d' \<longleftrightarrow> store_wf d' \<and> (\<forall>j. j \<noteq> i \<longrightarrow> record_of d' j = record_of d j)
    \<and> (\<forall>r. record_of d i = Some r \<longrightarrow> (\<exists>r'. record_of d' i = Some r' \<and> evolves r r'))"

lemma record_of_loaded: "record_of d i = Some r \<longleftrightarrow> load_job d i = Inr (Some r)"
  by (auto simp: record_of_def split: sum.splits option.splits)

lemma own_record_refl: "store_wf d \<Longrightarrow> own_record i d d"
  by (simp add: own_record_def)

lemma own_record_trans: "own_record i d d1 \<Longrightarrow> own_record i d1 d2 \<Longrightarrow> own_record i d d2"
  unfolding own_record_def using evolves_trans by metis

lemma own_record_wf: "own_record i d d' \<Longrightarrow> store_wf d'"
  by (simp add: own_record_def)

lemma update_own:
  assumes "store_wf d" and "update_job cfg now j d = (r, d')"
  shows "own_record (job_id j) d d'"
proof (cases r)
  case (Inl e)
  with assms have "d' = d" by (auto dest: update_job_Inl)
  with assms show ?thesis by (simp add: own_record_refl)
next
  case (Inr k)
  with assms js.put_ok [OF assms(1), of cfg now j k d'] obtain old where
    "store_wf d'" "record_of d (job_id j) = Some old" "move_ok old j" "k = stamp now old j"
    "record_of d' = (record_of d)(job_id j \<mapsto> k)" by blast
  then show ?thesis by (simp add: own_record_def evolves_stamp)
qed

lemma create_own:
  assumes "store_wf d" and "create_job cfg now j d = (r, d')"
  shows "own_record (job_id j) d d'"
proof (cases rule: create_job_cases [of cfg now j d])
  case 1
  with assms show ?thesis by (simp add: own_record_refl)
next
  case (2 r')
  moreover have "record_of d (job_id j) = None" using 2(1) by (simp add: record_of_def load_job_def split: sum.split)
  ultimately show ?thesis using assms write_wf [of d r' "job_id j"] record_of_write [of "job_id j" r' now d]
    by (simp add: own_record_def)
qed

section \<open>Steps of a run\<close>

abbreviation world_wf :: "('x, 's) world \<Rightarrow> bool" where
  "world_wf w \<equiv> store_wf (w_jobs w)"

definition only_job :: "pystr \<Rightarrow> ('x, 's) world \<Rightarrow> ('x, 's) world \<Rightarrow> bool" where
  "only_job i w w' \<longleftrightarrow> own_record i (w_jobs w) (w_jobs w')"

interpretation oj: world_frame world_wf "only_job i" for i
  by unfold_locales
    (auto simp: only_job_def own_record_refl own_record_wf intro: own_record_trans)

abbreviation job_act :: "pystr \<Rightarrow> (('x, 's) world, 'a) act \<Rightarrow> ('a \<Rightarrow> bool) \<Rightarrow> bool" where
  "job_act i \<equiv> acts world_wf (only_job i)"

lemma job_act_save: "job_id j = i \<Longrightarrow> job_act i (save_job env j) (\<lambda>r. job_id r = i)"
proof (rule actsI)
  fix w :: "('a, 'b) world" and r w'
  assume i: "job_id j = i" and wf: "store_wf (w_jobs w)" and s: "save_job env j w = (r, w')"
  obtain t s' where n: "en_now env (w_srv w) = (t, s')" by (cases "en_now env (w_srv w)")
  obtain d where u: "update_job (en_store env) t j (w_jobs w) = (r, d)" and d: "w_jobs w' = d"
    using s by (auto simp: save_job_def n split: prod.splits)
  from update_own [OF wf u] i d u show "only_job i w w' \<and> (\<forall>x. r = Inr x \<longrightarrow> job_id x = i)"
    by (auto simp: update_job_Inr only_job_def)
qed

lemma job_act_move: "job_id j = i \<Longrightarrow> job_act i (bindA (liftR (transitioned_to j st)) (save_job env)) (\<lambda>r. job_id r = i)"
  by (rule oj.acts_bindA [where V = "\<lambda>j. job_id j = i"])
    (auto intro!: oj.acts_value job_act_save simp: transitioned_to_def simp del: transitioned_to_eq_Inr split: if_splits)

section \<open>The run of the pipeline\<close>

lemma job_act_open: "job_act (in_job_id q) (open_job env q) (\<lambda>j. job_id j = in_job_id q)"
proof (rule actsI)
  fix w :: "('a, 'b) world" and r w'
  assume wf: "store_wf (w_jobs w)" and s: "open_job env q w = (r, w')"
  let ?j = "new_job (in_job_id q) (vault_name (in_vault q))"
  show "only_job (in_job_id q) w w' \<and> (\<forall>x. r = Inr x \<longrightarrow> job_id x = in_job_id q)"
  proof (cases "load_job (w_jobs w) (in_job_id q) = Inr None")
    case True
    obtain t s' where n: "en_now env (w_srv w) = (t, s')" by (cases "en_now env (w_srv w)")
    obtain d where c: "create_job (en_store env) t ?j (w_jobs w) = (r, d)" and d: "w_jobs w' = d"
      using s True by (auto simp: open_job_def n split: prod.splits)
    from create_own [OF wf c] c d show ?thesis by (auto simp: create_job_Inr new_job_def only_job_def)
  next
    case False
    with s have "w' = w" "\<forall>x. r = Inr x \<longrightarrow> record_of (w_jobs w) (in_job_id q) = Some x"
      by (auto simp: open_job_def record_of_def split: sum.splits option.splits)
    with wf show ?thesis using record_of_id by (auto simp: own_record_refl only_job_def)
  qed
qed

lemma job_act_begin: "job_act (in_job_id q) (begin_run env q) (\<lambda>(sha, job). job_id job = in_job_id q)"
  unfolding begin_run_def
  by (rule oj.acts_then [OF oj.acts_basic(3)], rule oj.acts_bindA [OF job_act_open],
      rule oj.acts_bindA [where V = "\<lambda>j. job_id j = in_job_id q"], rule oj.acts_value,
      auto intro!: oj.acts_bindA [OF job_act_save] oj.acts_value)

lemma job_act_index [acts_intros]: "job_act i (on_index b) (\<lambda>_. True)"
  by (simp add: acts_def only_job_def own_record_refl on_index_def split: prod.split)

lemma job_act_publish:
  assumes "job_id job = i"
  shows "job_act i (publish env q sha job ps) (\<lambda>r. job_id r = i)"
  unfolding publish_def record_source_def
proof (intro acts_intros oj.acts_commit oj.acts_push)
  fix c err
  have f: "finish env job c ps err = (\<lambda>w. (\<lambda>w. bindA (liftR (transitioned_to (finished job c ps err (w_acc w)) SUCCEEDED)) (save_job env)) w w)"
    by (rule ext) (simp add: finish_def)
  show "job_act i (finish env job c ps err) (\<lambda>r. job_id r = i)"
    unfolding f by (rule acts_at, rule job_act_move) (simp add: finished_def assms)
qed

lemma job_act_body:
  assumes "job_id job = i"
  shows "job_act i (ingest_body env q sha job) (\<lambda>r. job_id r = i)"
  unfolding ingest_body_def
proof (intro acts_intros oj.acts_require)
  fix hit
  show "job_act i (case hit of None \<Rightarrow> bindA (draft env q sha) (publish env q sha job)
      | Some h \<Rightarrow> finish_deduped env job h) (\<lambda>r. job_id r = i)"
    using assms by (auto simp: finish_deduped_def mark_deduped_def split: option.split
        intro!: acts_intros oj.acts_draft job_act_publish job_act_move)
qed

lemma job_act_fail:
  assumes "job_id job = i"
  shows "job_act i (fail_job env q job st m back) (\<lambda>r. job_id r = i)"
  unfolding fail_job_def
proof (intro acts_intros)
  fix u
  have "job_act i (\<lambda>w. (\<lambda>w. bindA (liftR (transitioned_to (failed_record job st m (w_acc w)) FAILED)) (save_job env)) w w)
      (\<lambda>r. job_id r = i)"
    by (rule acts_at, rule job_act_move) (simp add: failed_record_def assms)
  then show "job_act i (\<lambda>w. bindA (liftR (transitioned_to (failed_record job st m (w_acc w)) FAILED)) (save_job env) w)
      (\<lambda>r. job_id r = i)" by simp
qed

lemma job_act_on_error:
  assumes "job_id job = i"
  shows "job_act i (on_error env q job e) (\<lambda>r. job_id r = i)"
proof -
  have o: "on_error env q job e = (\<lambda>w. (\<lambda>w.
      if isinstance e StageFailureError
      then fail_job env q job (case estage e of Some st \<Rightarrow> st | None \<Rightarrow> []) (emsg e) (wants_rollback e)
      else if isinstance e GroundtruthError then
        (if is_transient e then bindA (on_repo (rollback (git_of env q))) (\<lambda>_. raiseA e)
         else fail_job env q job (ac_current (w_acc w)) (emsg e) True)
      else raiseA e) w w)"
    by (rule ext) (simp add: on_error_def)
  show ?thesis unfolding o by (rule acts_at) (intro acts_intros job_act_fail assms)
qed

lemma job_act_ingest: "job_act (in_job_id q) (run_ingest env q) (\<lambda>r. job_id r = in_job_id q)"
proof -
  have "job_act (in_job_id q) (bindA (begin_run env q) (\<lambda>(sha, job). tryA (ingest_body env q sha job) (on_error env q job)))
      (\<lambda>r. job_id r = in_job_id q)"
    by (rule oj.acts_bindA [OF job_act_begin]) (auto intro!: oj.acts_tryA job_act_body job_act_on_error)
  then show ?thesis unfolding acts_def only_job_def run_ingest_def
    by (intro allI impI) (drule_tac x = "s\<lparr>w_acc := new_accum\<rparr>" in spec, simp)
qed

lemma ingest_terminal:
  assumes "run_ingest env q w = (Inr r, w')"
  shows "terminal (job_state r)"
proof -
  from assms obtain sha job w1 where t: "tryA (ingest_body env q sha job) (on_error env q job) w1 = (Inr r, w')"
    unfolding run_ingest_def by (auto simp: bindA_ok)
  obtain y w2 where body: "ingest_body env q sha job w1 = (y, w2)" by (cases "ingest_body env q sha job w1")
  show ?thesis
  proof (cases y)
    case (Inl e)
    with t body have "on_error env q job e w2 = (Inr r, w')" by (simp add: tryA_def)
    from on_error_Inr [OF this] show ?thesis by simp
  next
    case (Inr r')
    with t body have "ingest_body env q sha job w1 = (Inr r, w')" by (simp add: tryA_def)
    from ingest_body_Inr [OF this] show ?thesis by simp
  qed
qed

section \<open>The run in the hub\<close>

definition own_run :: "pystr \<Rightarrow> ('x, 's) hub \<Rightarrow> ('x, 's) hub \<Rightarrow> bool" where
  "own_run i h h' \<longleftrightarrow> hb_queue h' = hb_queue h \<and> hb_registry h' = hb_registry h
    \<and> (\<forall>j. j \<noteq> i \<longrightarrow> map_of (hb_pending h') j = map_of (hb_pending h) j)
    \<and> own_record i (w_jobs (hb_world h)) (w_jobs (hb_world h'))"

abbreviation hub_wf :: "('x, 's) hub \<Rightarrow> bool" where
  "hub_wf h \<equiv> store_wf (w_jobs (hb_world h))"

lemma own_run_refl: "hub_wf h \<Longrightarrow> own_run i h h"
  by (simp add: own_run_def own_record_refl)

lemma own_run_trans: "own_run i h h1 \<Longrightarrow> own_run i h1 h2 \<Longrightarrow> own_run i h h2"
  unfolding own_run_def using own_record_trans by fastforce

lemma own_run_wf: "own_run i h h' \<Longrightarrow> hub_wf h'"
  by (simp add: own_run_def own_record_def)

lemma on_world_own:
  assumes "job_act i m Q" and "hub_wf h" and "on_world m h = (r, h')"
  shows "own_run i h h' \<and> (\<forall>x. r = Inr x \<longrightarrow> Q x)"
proof -
  obtain w' where "m (hb_world h) = (r, w')" "h' = h\<lparr>hb_world := w'\<rparr>"
    using assms(3) by (auto simp: on_world_def split: prod.splits)
  with actsD [OF assms(1,2)] show ?thesis by (simp add: own_run_def only_job_def)
qed

text \<open>The forced failures of the retry wrapper, the services and the worker.\<close>

lemma job_act_failing:
  assumes "job_id j = i" and "\<And>j. job_id (f j) = job_id j"
  shows "job_act i (bindA (liftR (failing f j)) (save_job env)) (\<lambda>r. job_id r = i)"
  using assms
  by (intro oj.acts_bindA [where V = "\<lambda>j. job_id j = i"] oj.acts_value job_act_save)
    (auto simp: failing_def as_running_ok)

lemma orphan_own:
  assumes "hub_wf h" and "orphan_fail sv jid h = (r, h')"
  shows "own_run jid h h' \<and> (\<forall>v. r = Inr v \<longrightarrow> job_id v = jid \<and> terminal (job_state v))"
proof -
  have t: "terminal (job_state v)" if "r = Inr v" for v
    using orphan_same [OF assms(2)] that by (simp add: terminal_job_states_def)
  show ?thesis
  proof (cases "load_job (w_jobs (hb_world h)) jid")
    case (Inl e)
    with assms show ?thesis by (auto simp: orphan_fail_def own_run_refl)
  next
    case (Inr c)
    show ?thesis
    proof (cases c)
      case None
      with assms Inr t show ?thesis by (auto simp: orphan_fail_def own_run_refl new_job_def)
    next
      case (Some k)
      let ?f = "\<lambda>b. b\<lparr>failure_stage := Some ''restart'', error := Some lost_reason\<rparr>"
      from Inr Some have "job_id k = jid" using record_of_id [OF assms(1)] by (simp add: record_of_load)
      then have "job_act jid (bindA (liftR (failing ?f k)) (save_job (sv_pipe sv))) (\<lambda>r. job_id r = jid)"
        by (rule job_act_failing) simp
      moreover have "on_world (bindA (liftR (failing ?f k)) (save_job (sv_pipe sv))) h = (r, h')"
        using assms(2) Inr Some by (simp add: orphan_fail_def)
      ultimately show ?thesis using on_world_own assms(1) t by blast
    qed
  qed
qed

lemma run_job_own:
  assumes wf: "hub_wf h" and run: "run_job sv jid h = (r, h')"
  shows "own_run jid h h' \<and> (\<forall>v. r = Inr v \<longrightarrow> job_id v = jid \<and> terminal (job_state v))"
proof (cases "map_of (hb_pending h) jid")
  case None
  with run have "orphan_fail sv jid h = (r, h')" by (simp add: run_job_def)
  with wf show ?thesis by (rule orphan_own)
next
  case (Some p)
  show ?thesis
  proof (cases "bindR (config_of sv h (pi_vault p)) (\<lambda>cfg. bindR (client_of sv cfg) (\<lambda>m. Inr (cfg, m)))")
    case (Inl e)
    with run Some wf show ?thesis by (auto simp: run_job_def own_run_refl)
  next
    case (Inr cm)
    obtain cfg m where cm: "cm = (cfg, m)" by (cases cm)
    let ?env = "(sv_pipe sv)\<lparr>en_model := job_client sv jid m\<rparr>" and ?q = "ingest_of sv jid p cfg"
    obtain x h1 where w: "on_world (run_ingest ?env ?q) h = (x, h1)" by (cases "on_world (run_ingest ?env ?q) h")
    with run Some Inr cm have h': "x = r" "h' = h1\<lparr>hb_pending := dict_del jid (hb_pending h1)\<rparr>"
      by (simp_all add: run_job_def del: bindR_eq_Inr)
    have id: "in_job_id ?q = jid" by (simp add: ingest_of_def)
    from on_world_own [OF job_act_ingest wf w] id h'
    have "own_run jid h h'" "\<forall>v. r = Inr v \<longrightarrow> job_id v = jid" by (auto simp: own_run_def store_simps)
    moreover have "terminal (job_state v)" if "r = Inr v" for v
      using w h'(1) that ingest_terminal [of ?env ?q "hb_world h" v]
      by (auto simp: on_world_def split: prod.splits)
    ultimately show ?thesis by blast
  qed
qed

text \<open>What a run hands back: the record of the job, terminal, as the store has it.\<close>

definition handed_back :: "pystr \<Rightarrow> ('x, 's) hub \<Rightarrow> job_record res \<Rightarrow> ('x, 's) hub \<Rightarrow> bool" where
  "handed_back i h r h' \<longleftrightarrow> own_run i h h'
    \<and> (\<forall>v. r = Inr v \<longrightarrow> terminal (job_state v) \<and> record_of (w_jobs (hb_world h')) i = Some v)"

lemma saved_handed_back:
  assumes "hub_wf h" and "on_world m h = (r, h')" and "job_act i m (\<lambda>v. job_id v = i)"
    and "\<And>v w'. m (hb_world h) = (Inr v, w') \<Longrightarrow>
      terminal (job_state v) \<and> load_job (w_jobs w') (job_id v) = Inr (Some v)"
  shows "handed_back i h r h'"
proof -
  obtain w' where w: "m (hb_world h) = (r, w')" "h' = h\<lparr>hb_world := w'\<rparr>"
    using assms(2) by (auto simp: on_world_def split: prod.splits)
  from on_world_own [OF assms(3,1,2)] assms(4) [of _ w'] w show ?thesis
    by (auto simp: handed_back_def record_of_loaded)
qed

lemma failing_handed_back:
  assumes "hub_wf h" and "on_world (bindA (liftR (failing f j)) (save_job env)) h = (r, h')"
    and "job_id j = i" and "\<And>j. job_id (f j) = job_id j"
  shows "handed_back i h r h'"
  using assms(1,2)
proof (rule saved_handed_back)
  show "job_act i (bindA (liftR (failing f j)) (save_job env)) (\<lambda>v. job_id v = i)"
    using assms(3,4) by (rule job_act_failing)
  fix v w'
  assume "bindA (liftR (failing f j)) (save_job env) (hb_world h) = (Inr v, w')"
  then obtain b where b: "failing f j = Inr b" and s: "save_job env b (hb_world h) = (Inr v, w')"
    by (auto simp: bindA_ok liftR_def)
  from b have "job_state b = FAILED" by (auto simp: failing_def)
  with save_job_Inr(1,5) [OF s] show "terminal (job_state v) \<and> load_job (w_jobs w') (job_id v) = Inr (Some v)"
    by (simp add: terminal_job_states_def)
qed

lemma after_own:
  assumes "hub_wf h"
  shows "own_run jid h (after (\<lambda>_. run_job sv jid) k h)"
proof (induction k)
  case 0
  with assms show ?case by (simp add: own_run_refl)
next
  case (Suc k)
  let ?h = "after (\<lambda>_. run_job sv jid) k h"
  obtain r h' where "run_job sv jid ?h = (r, h')" by (cases "run_job sv jid ?h")
  with run_job_own [OF own_run_wf [OF Suc]] Suc own_run_trans show ?case by fastforce
qed

lemma runner_handed_back:
  assumes wf: "hub_wf h" and run: "service_runner sv base jid h = (z, h')"
  shows "handed_back jid h z h'"
proof -
  let ?f = "\<lambda>_. run_job sv jid"
  let ?k = "stop_at ?f 0 default_max_retries h"
  let ?rr = "retry_outcome ?f base ?k h" and ?h1 = "after ?f (Suc ?k) h"
  have h1: "own_run jid h ?h1" by (rule after_own [OF wf])
  note wf1 = own_run_wf [OF h1]
  have sp: "bindA (run_with_retry ?f default_max_retries base) g h = g ?rr ?h1" for g :: "_ \<Rightarrow> (_, job_record) act"
    by (simp add: bindA_def run_with_retry_spec)
  have "handed_back jid ?h1 z h'"
  proof (cases "outcome ?f ?k h")
    case (Inr v)
    obtain x h2 where x: "run_job sv jid (after ?f ?k h) = (x, h2)" by (cases "run_job sv jid (after ?f ?k h)")
    with Inr have "x = Inr v" by (simp add: outcome_def)
    with run_job_own [OF own_run_wf [OF after_own [OF wf]] x] have v: "job_id v = jid" "terminal (job_state v)" by simp_all
    have "on_world (save_job (sv_pipe sv) (annotate (rr_attempts ?rr) (rr_errors ?rr) v)) ?h1 = (z, h')"
      using run unfolding service_runner_def sp by (simp add: retry_outcome_def Inr del: after.simps)
    then show ?thesis
      by (rule saved_handed_back [OF wf1])
        (use v save_job_Inr(1,5) [of "sv_pipe sv" "annotate (rr_attempts ?rr) (rr_errors ?rr) v"] in
          \<open>auto intro!: job_act_save simp del: after.simps\<close>)
  next
    case (Inl e)
    then have rr: "rr_succeeded ?rr = False" by (simp add: retry_outcome_def)
    have ex: "record_exhausted sv jid ?rr ?h1 = (z, h')"
      using run unfolding service_runner_def sp rr by simp
    show ?thesis
    proof (cases "load_job (w_jobs (hb_world ?h1)) jid")
      case (Inl e)
      with ex wf1 show ?thesis by (auto simp: record_exhausted_def handed_back_def own_run_refl simp del: after.simps)
    next
      case (Inr c)
      let ?c = "case c of Some r \<Rightarrow> r | None \<Rightarrow> new_job jid []"
      have "job_id ?c = jid"
        using Inr record_of_id [OF wf1] by (cases c) (simp_all add: record_of_load new_job_def del: after.simps)
      moreover have "on_world (bindA (liftR (failing (exhausted (rr_attempts ?rr) (rr_errors ?rr) (final_message ?rr)) ?c))
          (save_job (sv_pipe sv))) ?h1 = (z, h')"
        using ex Inr by (simp add: record_exhausted_def Let_def del: after.simps)
      ultimately show ?thesis using failing_handed_back [OF wf1] by fastforce
    qed
  qed
  with h1 show ?thesis unfolding handed_back_def using own_run_trans by blast
qed

section \<open>The worker's handler\<close>

definition hub_force_fail :: "('x, 't) svc \<Rightarrow> pystr \<Rightarrow> message \<Rightarrow> (('x, 't) svc_hub, job_record) act" where
  "hub_force_fail sv j m h =
    (case load_job (w_jobs (hb_world h)) j of
       Inl e \<Rightarrow> (Inl e, h)
     | Inr (Some r) \<Rightarrow> on_world (bindA (liftR (failing (worker_failure m) r)) (save_job (sv_pipe sv))) h
     | Inr None \<Rightarrow>
         (case vault_of (hb_queue h) j of
            None \<Rightarrow> (Inl (exc KeyError [Repr j]), h)
          | Some v \<Rightarrow> on_world (bindA (liftR (failing (worker_failure m) (new_job j v))) (save_job (sv_pipe sv))) h))"

definition hub_execute :: "('x, 't) svc \<Rightarrow> int \<Rightarrow> pystr \<Rightarrow> (('x, 't) svc_hub, job_record) act" where
  "hub_execute sv base j = tryA (service_runner sv base j) (\<lambda>e. hub_force_fail sv j (emsg e))"

lemma force_fail_handed_back:
  assumes wf: "hub_wf h" and run: "hub_force_fail sv j m h = (z, h')"
  shows "handed_back j h z h'"
proof (cases "load_job (w_jobs (hb_world h)) j")
  case (Inl e)
  with run wf show ?thesis by (auto simp: hub_force_fail_def handed_back_def own_run_refl)
next
  case (Inr c)
  have k: "handed_back j h z h'"
    if "job_id k = j" "on_world (bindA (liftR (failing (worker_failure m) k)) (save_job (sv_pipe sv))) h = (z, h')" for k
    using failing_handed_back [OF wf that(2,1)] by (simp add: worker_failure_def)
  show ?thesis
  proof (cases c)
    case (Some r)
    with Inr record_of_id [OF wf] have "job_id r = j" by (simp add: record_of_load)
    with k [of r] run Inr Some show ?thesis by (simp add: hub_force_fail_def)
  next
    case None
    with k [of "new_job j _"] run Inr wf show ?thesis
      by (auto simp: hub_force_fail_def handed_back_def own_run_refl new_job_def split: option.splits)
  qed
qed

lemma execute_handed_back:
  assumes wf: "hub_wf h" and run: "hub_execute sv base j h = (z, h')"
  shows "handed_back j h z h'"
proof -
  obtain x h1 where s: "service_runner sv base j h = (x, h1)" by (cases "service_runner sv base j h")
  note b = runner_handed_back [OF wf s]
  show ?thesis
  proof (cases x)
    case (Inr v)
    with run s b show ?thesis by (simp add: hub_execute_def tryA_def)
  next
    case (Inl e)
    with run s have f: "hub_force_fail sv j (emsg e) h1 = (z, h')" by (simp add: hub_execute_def tryA_def)
    from b have o: "own_run j h h1" by (simp add: handed_back_def)
    from force_fail_handed_back [OF own_run_wf [OF o] f] o show ?thesis
      unfolding handed_back_def using own_run_trans by blast
  qed
qed

end
