(* ===== verification/Startup.thy ===== *)
theory Startup
  imports Views JobFrame
begin

text \<open>
  The process entry point (\<^verbatim>\<open>src/groundtruth/main.py\<close>): loading the configuration, seeding the registry
  from it, building the authentication strategy, and the recovery that runs before the first request. The
  ASGI wiring itself (FastAPI, uvicorn, the mount of the MCP application) is not modelled.

  Shown: seeding never replaces a vault that is registered; and what becomes of a job that was queued
  when the process stopped: recovery hands it back to the queue, but the request it stood for was kept in
  memory only, so its run fails it.
\<close>

section \<open>Building the application\<close>

fun seed_vaults :: "path \<Rightarrow> (pystr \<times> pystr) list \<Rightarrow> (registry, unit) act" where
  "seed_vaults cwd [] s = (Inr (), s)"
| "seed_vaults cwd ((name, root) # vs) s =
    (case register name (to_path cwd root) s of
       (Inl e, s') \<Rightarrow> if isinstance e RegistryError then seed_vaults cwd vs s' else (Inl e, s')
     | (Inr _, s') \<Rightarrow> seed_vaults cwd vs s')"

record wiring =
  wi_config :: global_config
  wi_state_dir :: path
  wi_auth :: strategy
  wi_mount :: pystr

definition auth_config :: "global_config \<Rightarrow> (pystr \<times> json) list" where
  "auth_config g = [(lit ''bearer_token_env'',
     case sv_bearer_token_env (gc_server g) of None \<Rightarrow> JNull | Some n \<Rightarrow> JStr n)]"

definition build_app :: "config_env \<Rightarrow> (registry, wiring) act" where
  "build_app c s =
    (case load_global_config c of
       Inl e \<Rightarrow> (Inl e, s)
     | Inr g \<Rightarrow>
        (case seed_vaults (cf_cwd c) (gc_vaults g) s of
           (Inl e, s') \<Rightarrow> (Inl e, s')
         | (Inr _, s') \<Rightarrow>
            (bindR (build_strategy shipped_registry (sv_auth (gc_server g)) (auth_config g) (cf_environ c)) (\<lambda>a.
               Inr \<lparr>wi_config = g, wi_state_dir = to_path (cf_cwd c) (gc_state_dir g), wi_auth = a,
                    wi_mount = sv_mcp_endpoint (gc_server g)\<rparr>), s')))"

lemma seed_vaults_keeps:
  "seed_vaults cwd vs s = (r, s') \<Longrightarrow> reg_get s n = Inr (Some v) \<Longrightarrow> reg_get s' n = Inr (Some v)"
proof (induction vs arbitrary: s)
  case (Cons x vs)
  obtain name root where x: "x = (name, root)" by (cases x)
  obtain y s1 where y: "register name (to_path cwd root) s = (y, s1)" by (cases "register name (to_path cwd root) s")
  show ?case
  proof (cases y)
    case (Inl e)
    with register_failed y have "s1 = s" by blast
    with Cons x y Inl show ?thesis by (auto split: if_splits)
  next
    case (Inr w)
    with register_get [of name "to_path cwd root" s w s1 n] y Cons.prems(2) have "reg_get s1 n = Inr (Some v)"
      by (auto split: if_splits)
    with Cons x y Inr show ?thesis by auto
  qed
qed simp

section \<open>Recovery on startup\<close>

text \<open>A new process: nothing pending, an empty queue, and the state directory and repositories as they
  were left.\<close>

definition fresh_hub :: "registry \<Rightarrow> ('x, 's) world \<Rightarrow> ('x, 's) hub" where
  "fresh_hub reg w = \<lparr>hb_registry = reg, hb_pending = [], hb_queue = empty_queue, hb_world = w\<rparr>"

definition nonexistent :: path where
  "nonexistent = [lit ''nonexistent'']"

definition repo_root_of :: "registry \<Rightarrow> pystr \<Rightarrow> path res" where
  "repo_root_of reg name = bindR (reg_get reg name) (\<lambda>o'.
     Inr (case o' of Some v \<Rightarrow> repo_root v | None \<Rightarrow> nonexistent))"

definition startup_env :: "('x, 't) svc \<Rightarrow> registry \<Rightarrow> instant \<Rightarrow> ('x, queue) rec_env" where
  "startup_env sv reg now =
    \<lparr>rc_store = en_store (sv_pipe sv), rc_now = now,
     rc_repo = (\<lambda>name. bindR (repo_root_of reg name) (\<lambda>root. Inr (svc_git sv root))),
     rc_resubmit = Some (\<lambda>v i q. snd (submit v i q))\<rparr>"

definition lifespan :: "('x, 't) svc \<Rightarrow> (('x, 't) svc_hub, report) act" where
  "lifespan sv h =
    (let w = hb_world h; (now, s) = en_now (sv_pipe sv) (w_srv w) in
     case recover_on_startup (startup_env sv (hb_registry h) now) (w_jobs w, w_repo w, hb_queue h) of
       (r, (d, rp, q)) \<Rightarrow>
         (r, h\<lparr>hb_queue := q, hb_world := w\<lparr>w_srv := s, w_jobs := d, w_repo := rp\<rparr>\<rparr>))"

section \<open>Jobs that were queued at the restart\<close>

text \<open>The record of such a job after its run, and with the bookkeeping of the retry wrapper.\<close>

definition lost_record :: "instant \<Rightarrow> job_record \<Rightarrow> job_record" where
  "lost_record t r =
    stamp t r (r\<lparr>job_state := FAILED, failure_stage := Some ''restart'', error := Some lost_reason\<rparr>)"

definition settled :: "instant \<Rightarrow> job_record \<Rightarrow> job_record" where
  "settled t r = stamp t r (annotate 1 [] r)"

lemma save_job_writes:
  assumes "record_of (w_jobs w) (job_id j) = Some old" and "move_ok old j"
    and "en_now env (w_srv w) = (t, s)" and "storable (en_store env) (stamp t old j)"
  shows "\<exists>d. save_job env j w = (Inr (stamp t old j), w\<lparr>w_srv := s, w_jobs := d\<rparr>)
    \<and> record_of d = (record_of (w_jobs w))(job_id j \<mapsto> stamp t old j)"
proof -
  let ?d = "(w_jobs w)\<lparr>job_files := dict_set (job_id j) (Stored (stamp t old j), t) (job_files (w_jobs w))\<rparr>"
  have u: "update_job (en_store env) t j (w_jobs w) = (Inr (stamp t old j), ?d)"
    using assms by (subst update_job_Inr) blast
  have "id_ok (job_id j)" using assms(4) by (simp add: storable_def stamp_def)
  then have "record_of ?d = (record_of (w_jobs w))(job_id j \<mapsto> stamp t old j)"
    by (rule record_of_write) 
  then show ?thesis by (intro exI [of _ ?d]) (simp add: save_job_def assms(3) u)
qed

lemma first_try:
  assumes "f s = (Inr v, s')"
  shows "run_with_retry (\<lambda>_. f) mx base s = (Inr \<lparr>rr_value = Some v, rr_succeeded = True, rr_attempts = 1,
    rr_errors = [], rr_final = None, rr_sleeps = []\<rparr>, s')"
proof -
  have "[1..<mx + 2] = 1 # [2..<mx + 2]" by (simp add: upt_conv_Cons numeral_2_eq_2)
  then show ?thesis by (simp only: run_with_retry_def retry_loop.simps assms prod.case sum.case)
qed

lemma lost_run:
  assumes pend: "hb_pending h = []" and r: "record_of (w_jobs (hb_world h)) jid = Some r"
    and id: "job_id r = jid" and st: "job_state r = QUEUED"
    and t: "en_now (sv_pipe sv) (w_srv (hb_world h)) = (t1, s1)" "en_now (sv_pipe sv) s1 = (t2, s2)"
    and ok: "storable (en_store (sv_pipe sv)) (lost_record t1 r)"
      "storable (en_store (sv_pipe sv)) (settled t2 (lost_record t1 r))"
  shows "case service_runner sv base jid h of (z, h') \<Rightarrow>
    z = Inr (settled t2 (lost_record t1 r)) \<and> same_vault h h' \<and> get_job jid h' = z"
proof -
  let ?f = "\<lambda>b. b\<lparr>failure_stage := Some ''restart'', error := Some lost_reason\<rparr>"
  let ?lost = "r\<lparr>job_state := FAILED, failure_stage := Some ''restart'', error := Some lost_reason\<rparr>"
  let ?w = "hb_world h"
  have fl: "failing ?f r = Inr ?lost"
    using st by (subst failing_ok) auto
  from save_job_writes [of ?w ?lost r "sv_pipe sv" t1 s1] r id st t(1) ok(1)
  obtain d1 where s1: "save_job (sv_pipe sv) ?lost ?w = (Inr (lost_record t1 r), ?w\<lparr>w_srv := s1, w_jobs := d1\<rparr>)"
    and d1: "record_of d1 = (record_of (w_jobs ?w))(jid \<mapsto> lost_record t1 r)"
    by (auto simp: lost_record_def move_ok_def)
  let ?h1 = "h\<lparr>hb_world := ?w\<lparr>w_srv := s1, w_jobs := d1\<rparr>\<rparr>"
  have run: "run_job sv jid h = (Inr (lost_record t1 r), ?h1)"
    using r by (simp add: run_job_def pend orphan_fail_def record_of_loaded on_world_def bindA_def liftR_def fl s1)
  have sel: "job_id (annotate 1 [] (lost_record t1 r)) = jid" using id by (simp add: annotate_def lost_record_def stamp_def)
  from save_job_writes [of "hb_world ?h1" "annotate 1 [] (lost_record t1 r)" "lost_record t1 r" "sv_pipe sv" t2 s2] sel t(2) ok(2) d1
  obtain d2 where s2: "save_job (sv_pipe sv) (annotate 1 [] (lost_record t1 r)) (hb_world ?h1)
      = (Inr (settled t2 (lost_record t1 r)), (hb_world ?h1)\<lparr>w_srv := s2, w_jobs := d2\<rparr>)"
    and d2: "record_of d2 = (record_of d1)(jid \<mapsto> settled t2 (lost_record t1 r))"
    by (auto simp: settled_def move_ok_def annotate_def)
  have "run_with_retry (\<lambda>_. run_job sv jid) default_max_retries base h
      = (Inr \<lparr>rr_value = Some (lost_record t1 r), rr_succeeded = True, rr_attempts = 1, rr_errors = [],
           rr_final = None, rr_sleeps = []\<rparr>, ?h1)"
    by (rule first_try [where f = "run_job sv jid", OF run])
  then have "service_runner sv base jid h = on_world (save_job (sv_pipe sv) (annotate 1 [] (lost_record t1 r))) ?h1"
    by (simp add: service_runner_def bindA_def)
  also have "\<dots> = (Inr (settled t2 (lost_record t1 r)), ?h1\<lparr>hb_world := (hb_world ?h1)\<lparr>w_srv := s2, w_jobs := d2\<rparr>\<rparr>)"
    by (simp only: on_world_def s2 prod.case)
  finally show ?thesis
    using d2 by (simp add: same_vault_def get_job_def record_of_loaded [THEN iffD1])
qed

lemma lifespan_requeued:
  assumes wf: "store_wf (w_jobs w)" and up: "lifespan sv (fresh_hub reg w) = (Inr rp, h)"
    and jid: "jid \<in> set (rp_requeued rp)"
  shows "hb_pending h = [] \<and> (\<exists>r. record_of (w_jobs (hb_world h)) jid = Some r \<and> job_state r = QUEUED \<and> job_id r = jid)"
proof -
  obtain now s where n: "en_now (sv_pipe sv) (w_srv w) = (now, s)" by (cases "en_now (sv_pipe sv) (w_srv w)")
  obtain x d r q where o': "recover_on_startup (startup_env sv reg now) (w_jobs w, w_repo w, empty_queue) = (x, (d, r, q))"
    by (metis prod_cases4)
  have h: "x = Inr rp" "hb_pending h = []" "w_jobs (hb_world h) = d"
    using up by (auto simp: lifespan_def fresh_hub_def n o' Let_def)
  let ?d1 = "snd (sweep (rc_store (startup_env sv reg now)) (rc_now (startup_env sv reg now)) (w_jobs w))"
  from recovery_outcome [OF wf o' [unfolded h(1)]]
  have view: "record_of d = map_option (reconciled (rc_now (startup_env sv reg now))) \<circ> record_of ?d1"
    and rq: "rp_requeued rp = filter (in_state ?d1 QUEUED) (list_ids ?d1)" and wfd: "store_wf d"
    by (simp_all add: Let_def)
  from jid rq have "in_state ?d1 QUEUED jid" by simp
  then obtain k where "record_of ?d1 jid = Some k" "job_state k = QUEUED"
    by (auto simp: in_state_def split: option.splits)
  with view have "record_of d jid = Some k" "job_state k = QUEUED" by simp_all
  with record_of_id [OF wfd] h(2,3) show ?thesis by blast
qed

text \<open>
  C12. A restart loses the queued requests. After the startup of a new process on a well-formed job store,
  the run of any job that recovery has handed back to the queue ends, provided the store accepts the
  record, with the record stored as failed at the stage \<open>restart\<close> with the reason that the request was
  lost; the repository and the index are untouched. The two instants are those of the two writes.
\<close>

theorem restart_loses_requests:
  assumes "store_wf (w_jobs w)"
    and "lifespan sv (fresh_hub reg w) = (Inr rp, h)"
    and "jid \<in> set (rp_requeued rp)"
    and "record_of (w_jobs (hb_world h)) jid = Some r"
    and "en_now (sv_pipe sv) (w_srv (hb_world h)) = (t1, s1)" and "en_now (sv_pipe sv) s1 = (t2, s2)"
    and "storable (en_store (sv_pipe sv)) (lost_record t1 r)"
    and "storable (en_store (sv_pipe sv)) (settled t2 (lost_record t1 r))"
  shows "case service_runner sv base jid h of (z, h') \<Rightarrow>
    z = Inr (settled t2 (lost_record t1 r)) \<and> same_vault h h' \<and> get_job jid h' = z
    \<and> job_state (settled t2 (lost_record t1 r)) = FAILED
    \<and> failure_stage (settled t2 (lost_record t1 r)) = Some ''restart''
    \<and> error (settled t2 (lost_record t1 r)) = Some lost_reason"
proof -
  from lifespan_requeued [OF assms(1-3)] assms(4)
  have "hb_pending h = []" "job_id r = jid" "job_state r = QUEUED" by auto
  from lost_run [OF this(1) assms(4) this(2,3) assms(5-8), of base] show ?thesis
    by (simp add: settled_def lost_record_def stamp_def annotate_def split: prod.splits)
qed

text \<open>A process that finds one queued job and nothing else.\<close>

definition start_svc :: "(fs, 't) svc" where
  "start_svc = \<lparr>sv_pipe = \<lparr>en_store = demo_cfg, en_now = (\<lambda>s. (5, s)), en_mono = (\<lambda>s. (0, s)), en_note = demo_env,
       en_git = \<lparr>ge_ucd = ascii_ucd, ge_git = (\<lambda>_ _ s. (NoStart [], s)), ge_path = []\<rparr>,
       en_model = (\<lambda>_ _ _ s. (Inl (exc ReadTimeoutError []), s)), en_compile = (\<lambda>_. Inr (\<lambda>_. False)),
       en_loads = (\<lambda>_. None), en_templates = (\<lambda>_. Inr [])\<rparr>,
     sv_config = \<lparr>cf_fs = [], cf_cwd = [], cf_environ = [], cf_cli = None, cf_yaml = (\<lambda>_. Inr JNull),
       cf_vault_model = (\<lambda>_. Inl (exc ValueError [])), cf_global_model = (\<lambda>_. Inl (exc ValueError []))\<rparr>,
     sv_override = None,
     sv_llm = \<lparr>cl_models = [], cl_environ = [], cl_max_retries = 0, cl_backoff = 0,
       cl_post = (\<lambda>_ s. (TimedOut, s)), cl_sleep = (\<lambda>_ s. s), cl_loads = (\<lambda>_. None)\<rparr>,
     sv_logging = False, sv_state_dir = [], sv_uuid = (\<lambda>s. (lit ''a1'', s)), sv_today = 9\<rparr>"

definition start_world :: "(fs, unit \<times> fs) world" where
  "start_world = \<lparr>w_repo = ([], []), w_jobs = demo_dir, w_index = [], w_caches = [], w_srv = ((), []),
     w_acc = new_accum\<rparr>"

definition start_report :: report where
  "start_report = \<lparr>rp_swept = [], rp_requeued = [lit ''a1''], rp_failed_interrupted = [],
     rp_quarantined = [], rp_rolled_back = []\<rparr>"

definition start_hub :: "(fs, unit) svc_hub" where
  "start_hub = snd (lifespan start_svc (fresh_hub None start_world))"

lemma start_facts:
  "fst (lifespan start_svc (fresh_hub None start_world)) = Inr start_report"
  "record_of (w_jobs (hb_world start_hub)) (lit ''a1'') = Some demo_job"
  "en_now (sv_pipe (start_svc :: (fs, unit) svc)) s = (5, s)"
  "store_wf (w_jobs start_world)"
  by code_simp+

lemma start_storable:
  "storable (en_store (sv_pipe (start_svc :: (fs, unit) svc))) (lost_record 5 demo_job)"
  "storable (en_store (sv_pipe (start_svc :: (fs, unit) svc))) (settled 5 (lost_record 5 demo_job))"
  by code_simp+

theorem restart_loses_requests_witness:
  "fst (service_runner start_svc 1 (lit ''a1'') start_hub) = Inr (settled 5 (lost_record 5 demo_job))
   \<and> failure_stage (settled 5 (lost_record 5 demo_job)) = Some ''restart''"
proof -
  have up: "lifespan start_svc (fresh_hub None start_world) = (Inr start_report, start_hub)"
    using start_facts(1) by (simp add: start_hub_def prod_eq_iff)
  have j: "lit ''a1'' \<in> set (rp_requeued start_report)" by (simp add: start_report_def)
  from restart_loses_requests [OF start_facts(4) up j start_facts(2) start_facts(3) start_facts(3) start_storable, of 1]
  show ?thesis by (auto simp del: lit_Cons split: prod.splits)
qed

end
