(* ===== verification/QueueJobs.thy ===== *)
theory QueueJobs
  imports JobFrame
begin

text \<open>
  The invariant that ties the queue to the job store: a job that waits for a worker, or that a worker has
  taken and not yet run, is stored as queued and is in one place only; a result the queue keeps is the stored,
  terminal record. Each operation of the queue (\<^verbatim>\<open>src/groundtruth/jobs/queue.py\<close>) keeps it, the end of a run
  because a run writes no record but its own.
\<close>

section \<open>Jobs and queue\<close>

text \<open>A job belongs to a vault's worker while it waits there or is executed there.\<close>

definition claims :: "queue \<Rightarrow> pystr \<Rightarrow> pystr \<Rightarrow> bool" where
  "claims q v i \<longleftrightarrow> i \<in> set (pending q v) \<or> (\<exists>t. at_phase q t (Executing i) \<and> thread_vault q t = v)"

definition jobs_inv :: "job_dir \<Rightarrow> queue \<Rightarrow> bool" where
  "jobs_inv d q \<longleftrightarrow> store_wf d \<and> q_inv q
    \<and> (\<forall>v. distinct (pending q v))
    \<and> (\<forall>v i. claims q v i \<longrightarrow> vault_of q i = Some v \<and> in_state d QUEUED i)
    \<and> (\<forall>t i. at_phase q t (Executing i) \<longrightarrow> i \<notin> set (pending q (thread_vault q t)))
    \<and> (\<forall>i r. results q i = Some r \<longrightarrow> terminal (job_state r) \<and> record_of d i = Some r)"

lemma jobs_invD:
  assumes "jobs_inv d q"
  shows "store_wf d" "q_inv q" "distinct (pending q v)"
    "claims q v i \<Longrightarrow> vault_of q i = Some v" "claims q v i \<Longrightarrow> in_state d QUEUED i"
    "at_phase q t (Executing i) \<Longrightarrow> i \<notin> set (pending q (thread_vault q t))"
    "results q i = Some r \<Longrightarrow> terminal (job_state r)" "results q i = Some r \<Longrightarrow> record_of d i = Some r"
  using assms by (auto simp: jobs_inv_def)

lemma in_stateD: "in_state d st i \<Longrightarrow> \<exists>r. record_of d i = Some r \<and> job_state r = st"
  by (auto simp: in_state_def split: option.splits)

lemma executing_ensure_worker [simp]:
  "at_phase (ensure_worker v q) t (Executing i) \<longleftrightarrow> at_phase q t (Executing i)"
  by (auto simp: ensure_worker_def at_phase_def nth_append split: option.split)

lemma thread_vault_ensure_worker: "t < length (threads q) \<Longrightarrow> thread_vault (ensure_worker v q) t = thread_vault q t"
  by (auto simp: ensure_worker_def thread_vault_def nth_append split: option.split)

lemma vault_results_ensure_worker [simp]:
  "vault_of (ensure_worker v q) = vault_of q" "results (ensure_worker v q) = results q"
  by (simp_all add: ensure_worker_def split: option.split)

lemma claims_ensure_worker [simp]: "claims (ensure_worker v q) u i \<longleftrightarrow> claims q u i"
  using thread_vault_ensure_worker thread_index by (auto simp: claims_def)

lemma claims_append: "claims (q\<lparr>pending := (pending q)(v := pending q v @ [j]), done_events := d, vault_of := e\<rparr>) u i
    \<longleftrightarrow> claims q u i \<or> u = v \<and> i = j"
  by (auto simp: claims_def)

lemma submit_ok: "submit v j q = (Inr k, q') \<longleftrightarrow> \<not> stopping q \<and> k = j
    \<and> q' = ensure_worker v (q\<lparr>pending := (pending q)(v := pending q v @ [j]),
        done_events := (done_events q)(j \<mapsto> False), vault_of := (vault_of q)(j \<mapsto> v)\<rparr>)"
  by (auto simp: submit_def)

lemma submit_frame:
  assumes "submit v j q = (r, q')"
  shows "results q' = results q" "claims q' u i \<Longrightarrow> i \<noteq> j \<Longrightarrow> claims q u i"
  using assms by (auto simp: submit_def claims_append split: if_splits)

lemma submit_jobs_inv:
  assumes inv: "jobs_inv d q" and free: "\<And>u. \<not> claims q u j" and st: "in_state d QUEUED j"
    and s: "submit v j q = (r, q')"
  shows "jobs_inv d q'"
proof (cases r)
  case (Inl e)
  with s have "q' = q" by (auto simp: submit_def split: if_splits)
  with inv show ?thesis by simp
next
  case (Inr k)
  note s' = s [unfolded Inr]
  let ?q = "q\<lparr>pending := (pending q)(v := pending q v @ [j]), done_events := (done_events q)(j \<mapsto> False),
    vault_of := (vault_of q)(j \<mapsto> v)\<rparr>"
  from s' have q': "q' = ensure_worker v ?q" by (simp add: submit_ok)
  note i = jobs_invD [OF inv]
  have p: "j \<notin> set (pending q u)" "\<not> at_phase q t (Executing j)" for u t
    using free unfolding claims_def by blast+
  have tv: "at_phase q t x \<Longrightarrow> thread_vault q' t = thread_vault q t" for t x
    using thread_vault_ensure_worker [of t ?q v] thread_index by (simp add: q')
  show ?thesis unfolding jobs_inv_def
  proof (intro conjI allI impI)
    show "q_inv q'" using i(2) s' by (rule submit_inv)
    show "distinct (pending q' u)" for u using i(3) p by (simp add: q')
    show "vault_of q' x = Some u" "in_state d QUEUED x" if "claims q' u x" for u x
      using that i(4,5) [of u x] free st by (auto simp: q' claims_append)
    show "x \<notin> set (pending q' (thread_vault q' t))" if "at_phase q' t (Executing x)" for t x
      using that i(6) [of t x] p(2) tv [of t] by (auto simp: q')
  qed (use i in \<open>simp_all add: q'\<close>)
qed

text \<open>A record that did not exist changes nothing for the jobs that do.\<close>

lemma jobs_inv_new_record:
  assumes inv: "jobs_inv d q" and "store_wf d'" and "record_of d j = None"
    and new: "\<And>i. i \<noteq> j \<Longrightarrow> record_of d' i = record_of d i"
  shows "jobs_inv d' q \<and> (\<forall>u. \<not> claims q u j)"
proof -
  note i = jobs_invD [OF inv]
  have "record_of d' x = record_of d x" if "record_of d x \<noteq> None" for x using that assms(3) new by (cases "x = j") auto
  moreover have "in_state d st x \<Longrightarrow> record_of d x \<noteq> None" for st x using in_stateD by fastforce
  ultimately have s: "in_state d st x \<Longrightarrow> in_state d' st x" "record_of d x = Some r \<Longrightarrow> record_of d' x = Some r" for st x r
    by (fastforce simp: in_state_def)+
  have "\<not> claims q u j" for u using i(5) [of u j] assms(3) by (auto simp: in_state_def)
  with i s assms(2) show ?thesis by (simp add: jobs_inv_def)
qed

text \<open>A worker's step claims no job; it may let one go.\<close>

lemma jobs_inv_move:
  assumes inv: "jobs_inv d q" and "store_wf d'" "q_inv q'" and "vault_of q' = vault_of q"
    and "\<And>v. distinct (pending q' v)"
    and "\<And>v i. claims q' v i \<Longrightarrow> claims q v i \<and> in_state d' QUEUED i"
    and "\<And>t i. at_phase q' t (Executing i) \<Longrightarrow> i \<notin> set (pending q' (thread_vault q' t))"
    and "\<And>i r. results q' i = Some r \<Longrightarrow> terminal (job_state r) \<and> record_of d' i = Some r"
  shows "jobs_inv d' q'"
  using assms jobs_invD(4) [OF inv] unfolding jobs_inv_def by presburger

lemma begin_claims:
  assumes at: "at_phase q t AtLock" and w: "work_begin t q = (ev, q')" and c: "claims q' u i"
  shows "claims q u i"
proof -
  note t = thread_index [OF at]
  define v where "v = thread_vault q t"
  show ?thesis
  proof (cases "stopping q \<or> pending q v = []")
    case True
    then have "q' = set_phase t Ended (q\<lparr>workers := (workers q)(v := None)\<rparr>)"
      using w by (simp add: work_begin_def Let_def v_def thread_vault_def)
    with c t show ?thesis by (auto simp: claims_def split: if_splits)
  next
    case False
    then obtain j js where p: "pending q v = j # js" by (cases "pending q v") auto
    with False have "q' = set_phase t (Executing j) (q\<lparr>pending := (pending q)(v := js), running := (running q)(v \<mapsto> j)\<rparr>)"
      using w by (simp add: work_begin_def Let_def v_def thread_vault_def)
    with c t p show ?thesis by (auto simp: claims_def v_def split: if_splits)
  qed
qed

lemma announce_claims:
  assumes "at_phase q t (Announcing j)" and "announce t j q = (ev, q')" and "claims q' u i"
  shows "claims q u i"
  using assms thread_index [OF assms(1)] by (auto simp: announce_def claims_def split: if_splits)

lemma begin_jobs_inv:
  assumes inv: "jobs_inv d q" and at: "at_phase q t AtLock" and w: "work_begin t q = (ev, q')"
  shows "jobs_inv d q'"
proof -
  note i = jobs_invD [OF inv] and t = thread_index [OF at]
  have c: "claims q' u x \<Longrightarrow> claims q u x \<and> in_state d QUEUED x" for u x
    using i(5) begin_claims [OF at w] by blast
  define v where "v = thread_vault q t"
  show ?thesis
  proof (cases "stopping q \<or> pending q v = []")
    case True
    then have q': "q' = set_phase t Ended (q\<lparr>workers := (workers q)(v := None)\<rparr>)"
      using w by (simp add: work_begin_def Let_def v_def thread_vault_def)
    show ?thesis
      by (rule jobs_inv_move [OF inv i(1) work_begin_inv [OF i(2) at w] _ _ c])
        (use i t in \<open>auto simp: q' split: if_splits\<close>)
  next
    case False
    then obtain j js where p: "pending q v = j # js" by (cases "pending q v") auto
    with False have q': "q' = set_phase t (Executing j) (q\<lparr>pending := (pending q)(v := js), running := (running q)(v \<mapsto> j)\<rparr>)"
      using w by (simp add: work_begin_def Let_def v_def thread_vault_def)
    have d: "distinct (j # js)" using i(3) [of v] p by simp
    have e: "x \<notin> set (pending q' (thread_vault q' s))" if a: "at_phase q' s (Executing x)" for s x
    proof (cases "s = t")
      case True
      with a t d show ?thesis by (simp add: q' v_def)
    next
      case False
      with a t i(6) [of s x] p show ?thesis by (auto simp: q' split: if_splits)
    qed
    show ?thesis
      by (rule jobs_inv_move [OF inv i(1) work_begin_inv [OF i(2) at w] _ _ c e])
        (use i d in \<open>auto simp: q'\<close>)
  qed
qed

text \<open>The job a worker is about to finish is in no other place.\<close>

lemma executing_alone:
  assumes inv: "jobs_inv d q" and at: "at_phase q t (Executing j)"
  shows "i \<in> set (pending q v) \<Longrightarrow> i \<noteq> j" "at_phase q s (Executing i) \<Longrightarrow> s \<noteq> t \<Longrightarrow> i \<noteq> j"
proof -
  note i = jobs_invD [OF inv]
  have c: "claims q (thread_vault q t) j" using at by (auto simp: claims_def)
  have u: "v = thread_vault q t" if "claims q v j" for v using i(4) [OF that] i(4) [OF c] by simp
  show "i \<noteq> j" if "i \<in> set (pending q v)"
    using u [of v] i(6) [OF at] that by (auto simp: claims_def)
  show "i \<noteq> j" if s: "at_phase q s (Executing i)" "s \<noteq> t"
  proof
    assume "i = j"
    with s(1) u [of "thread_vault q s"] have "thread_vault q s = thread_vault q t" by (auto simp: claims_def)
    with q_inv_alive_unique [OF i(2)] at_phase_alive [OF s(1)] at_phase_alive [OF at] s(2) show False by simp
  qed
qed

lemma finish_claims:
  assumes inv: "jobs_inv d q" and at: "at_phase q t (Executing j)" and w: "work_end t j res q = (ev, q')"
    and c: "claims q' v i"
  shows "claims q v i \<and> i \<noteq> j"
proof -
  have "i \<in> set (pending q v) \<or> (\<exists>s. s \<noteq> t \<and> at_phase q s (Executing i) \<and> thread_vault q s = v)"
    using c w thread_index [OF at] by (auto simp: work_end_def Let_def claims_def split: sum.splits if_splits)
  then show ?thesis using executing_alone [OF inv at] by (auto simp: claims_def)
qed

lemma finish_jobs_inv:
  assumes inv: "jobs_inv d q" and at: "at_phase q t (Executing j)" and w: "work_end t j res q = (ev, q')"
    and own: "own_record j d d'" and res: "\<And>r. res = Inr r \<Longrightarrow> terminal (job_state r) \<and> record_of d' j = Some r"
  shows "jobs_inv d' q'"
proof -
  note i = jobs_invD [OF inv] and t = thread_index [OF at]
  from own have wf: "store_wf d'" and same: "x \<noteq> j \<Longrightarrow> record_of d' x = record_of d x" for x
    by (simp_all add: own_record_def)
  have q': "pending q' = pending q" "vault_of q' = vault_of q" "thread_vault q' = thread_vault q"
    "at_phase q' s (Executing x) \<longleftrightarrow> s \<noteq> t \<and> at_phase q s (Executing x)"
    "results q' = (case res of Inr r \<Rightarrow> (results q)(j \<mapsto> r) | Inl _ \<Rightarrow> results q)" for s x
    using w t by (simp_all add: work_end_def Let_def fun_eq_iff split: sum.splits)
      (auto simp: fun_eq_iff split: if_splits)
  have j: "results q j = None"
  proof (rule ccontr)
    assume "results q j \<noteq> None"
    then obtain r where r: "results q j = Some r" by auto
    have "in_state d QUEUED j" using i(5) at by (auto simp: claims_def)
    with i(7,8) [OF r] show False by (simp add: in_state_def terminal_job_states_def)
  qed
  have c: "claims q v x \<and> in_state d' QUEUED x" if "claims q' v x" for v x
  proof -
    from finish_claims [OF inv at w that] have cx: "claims q v x" and "x \<noteq> j" by simp_all
    with i(5) [OF cx] same show ?thesis by (simp add: in_state_def)
  qed
  have k: "terminal (job_state r) \<and> record_of d' x = Some r" if "results q x = Some r" for x r
    using i(7,8) [OF that] same [of x] j that by (cases "x = j") auto
  show ?thesis
    by (rule jobs_inv_move [OF inv wf work_end_inv [OF i(2) at w] _ _ c])
      (use i(3,6) k res in \<open>auto simp: q' split: sum.splits if_splits\<close>)
qed

lemma announce_jobs_inv:
  assumes inv: "jobs_inv d q" and at: "at_phase q t (Announcing j)" and w: "announce t j q = (ev, q')"
  shows "jobs_inv d q'"
proof -
  note i = jobs_invD [OF inv] and t = thread_index [OF at]
  from w have q': "q' = set_phase t AtLock (q\<lparr>done_events := (done_events q)(j \<mapsto> True)\<rparr>)" by (simp add: announce_def)
  have c: "claims q' u x \<Longrightarrow> claims q u x \<and> in_state d QUEUED x" for u x
    using i(5) announce_claims [OF at w] by blast
  show ?thesis
    by (rule jobs_inv_move [OF inv i(1) announce_inv [OF i(2) at w] _ _ c])
      (use i t in \<open>auto simp: q' split: if_splits\<close>)
qed

lemma shutdown_jobs_inv: "jobs_inv d q \<Longrightarrow> jobs_inv d (shutdown drain q)"
  by (simp add: jobs_inv_def shutdown_def q_inv_def claims_def)

section \<open>What was submitted has an event\<close>

lemma qrun_done_events:
  "qrun q evs q' \<Longrightarrow> done_events q j \<noteq> None \<or> (\<exists>v. j \<in> set (submitted v evs)) \<Longrightarrow> done_events q' j \<noteq> None"
proof (induction rule: qrun.induct)
  case (Snoc q evs q' ev q'')
  show ?case
  proof (cases "done_events q' j \<noteq> None")
    case True
    with Snoc.hyps(2) show ?thesis
      by cases (auto simp: submit_ok work_begin_def work_end_def announce_def shutdown_def Let_def
          split: if_splits sum.splits)
  next
    case False
    with Snoc.IH Snoc.prems obtain v where "j \<in> set (submitted v [ev])" by auto
    then have "ev = Submitted v j" by (cases ev) (auto split: if_splits)
    with Snoc.hyps(2) show ?thesis
      by cases (auto simp: submit_ok work_begin_def work_end_def announce_def Let_def split: if_splits sum.splits)
  qed
qed simp

end
