(* ===== verification/Server.thy ===== *)
theory Server
  imports Startup QueueJobs
begin

text \<open>
  The running server: the operations of the services (\<^verbatim>\<open>src/groundtruth/api/services.py\<close>) and the worker
  threads of the queue (\<^verbatim>\<open>src/groundtruth/jobs/queue.py\<close>) interleaved on one hub, from the moment startup
  recovery has returned. A step is a request, a locked block of a worker, the run of a job
  between its worker's two blocks, or a shutdown. A run is one step although the runs of different
  vaults overlap in time: each writes its own record, which is what \<open>JobFrame\<close> shows.

  Shown: the queue of the server is the queue of theory \<open>Queue\<close>; in every reachable state each waiting job
  waits once and is stored as queued, and each result is the stored, final record; no id is
  accepted or executed twice; and what a worker runs is what was submitted.
\<close>

section \<open>Steps\<close>

datatype server_event = OfQueue event | Aside

inductive sstep :: "('x, 't) svc \<Rightarrow> int \<Rightarrow> ('x, 't) svc_hub \<Rightarrow> server_event \<Rightarrow> ('x, 't) svc_hub \<Rightarrow> bool"
  for sv base where
  Accept: "submit_ingest sv name text label h = (Inr j, h') \<Longrightarrow> sstep sv base h (OfQueue (Submitted name j)) h'"
| Refuse: "submit_ingest sv name text label h = (Inl e, h') \<Longrightarrow> sstep sv base h Aside h'"
| Take: "at_phase (hb_queue h) t AtLock \<Longrightarrow> work_begin t (hb_queue h) = (ev, q) \<Longrightarrow>
    sstep sv base h (OfQueue ev) (h\<lparr>hb_queue := q\<rparr>)"
| Run: "at_phase (hb_queue h) t (Executing j) \<Longrightarrow> hub_execute sv base j h = (res, h1) \<Longrightarrow>
    work_end t j res (hb_queue h1) = (ev, q) \<Longrightarrow> sstep sv base h (OfQueue ev) (h1\<lparr>hb_queue := q\<rparr>)"
| Tell: "at_phase (hb_queue h) t (Announcing j) \<Longrightarrow> announce t j (hb_queue h) = (ev, q) \<Longrightarrow>
    sstep sv base h (OfQueue ev) (h\<lparr>hb_queue := q\<rparr>)"
| Stop: "sstep sv base h (OfQueue StopRequested) (h\<lparr>hb_queue := shutdown drain (hb_queue h)\<rparr>)"
| Ask: "svc_query sv name question h = (r, h') \<Longrightarrow> sstep sv base h Aside h'"
| WriteSchema: "svc_update_schema sv name markdown rationale h = (r, h') \<Longrightarrow> sstep sv base h Aside h'"
| Adopt: "adopt sv rq h = (r, h') \<Longrightarrow> sstep sv base h Aside h'"
| Deregister: "deregister_endpoint name h = (r, h') \<Longrightarrow> sstep sv base h Aside h'"

inductive_cases sstepE: "sstep sv base h ev h'"

inductive srun :: "('x, 't) svc \<Rightarrow> int \<Rightarrow> ('x, 't) svc_hub \<Rightarrow> server_event list \<Rightarrow> ('x, 't) svc_hub \<Rightarrow> bool"
  for sv base where
  Nil: "srun sv base h [] h"
| Snoc: "srun sv base h evs h' \<Longrightarrow> sstep sv base h' ev h'' \<Longrightarrow> srun sv base h (evs @ [ev]) h''"

lemma srun_trans: "srun sv base h' fs h'' \<Longrightarrow> srun sv base h evs h' \<Longrightarrow> srun sv base h (evs @ fs) h''"
proof (induction rule: srun.induct)
  case (Snoc h' fs h1 ev h2)
  from srun.Snoc [OF Snoc.IH [OF Snoc.prems] Snoc.hyps(2)] show ?case by simp
qed simp

section \<open>What a step leaves alone\<close>

text \<open>An operation beside the queue: jobs, requests and queue stay.\<close>

definition beside_jobs :: "('x, 's) hub \<Rightarrow> ('x, 's) hub \<Rightarrow> bool" where
  "beside_jobs h h' \<longleftrightarrow> w_jobs (hb_world h') = w_jobs (hb_world h) \<and> hb_queue h' = hb_queue h
    \<and> hb_pending h' = hb_pending h"

lemma query_beside: "svc_query sv name question h = (r, h') \<Longrightarrow> beside_jobs h h'"
  by (auto simp: svc_query_def beside_jobs_def with_srv_def split: sum.splits prod.splits)

lemma on_repo_beside: "on_world (on_repo m) h = (r, h') \<Longrightarrow> beside_jobs h h'"
  using on_world_repo [of m h r h'] by (auto simp: beside_jobs_def)

lemma schema_beside: "svc_update_schema sv name markdown rationale h = (r, h') \<Longrightarrow> beside_jobs h h'"
  by (auto simp: svc_update_schema_def beside_jobs_def dest: on_repo_beside split: sum.splits prod.splits)

lemma adopt_beside: "adopt sv rq h = (r, h') \<Longrightarrow> beside_jobs h h'"
  using adopt_cases [of sv rq h r h'] by (auto simp: beside_jobs_def)

lemma deregister_beside: "deregister_endpoint name h = (r, h') \<Longrightarrow> beside_jobs h h'"
  by (auto simp: deregister_endpoint_def beside_jobs_def split: prod.splits sum.splits)

lemmas besides = query_beside schema_beside adopt_beside deregister_beside

text \<open>A refused submission writes no request and no record, unless the queue was stopped: then both are
  left behind, and nobody will ever run them.\<close>

lemma submit_ingest_cases:
  assumes "submit_ingest sv name text label h = (r, h')"
  obtains (Refused) e where "r = Inl e" "hb_queue h' = hb_queue h" "beside_jobs h h'"
  | (Taken) j v now where "reg_get (hb_registry h) name = Inr (Some v)"
      "map_of (job_files (w_jobs (hb_world h))) j = None" "id_ok j"
      "w_jobs (hb_world h') = (w_jobs (hb_world h))\<lparr>job_files := dict_set j
          (Stored ((new_job j name)\<lparr>created_at := Some now, updated_at := Some now\<rparr>), now) (job_files (w_jobs (hb_world h)))\<rparr>"
      "hb_pending h' = dict_set j \<lparr>pi_vault = v, pi_text = text, pi_label = label\<rparr> (hb_pending h)"
      "submit name j (hb_queue h) = (r, hb_queue h')"
proof (cases "reg_get (hb_registry h) name")
  case (Inl e)
  with assms Refused show ?thesis by (auto simp: submit_ingest_def beside_jobs_def)
next
  case (Inr c)
  show ?thesis
  proof (cases c)
    case None
    with Inr assms Refused show ?thesis by (auto simp: submit_ingest_def beside_jobs_def)
  next
    case (Some v)
    obtain j s1 where u: "sv_uuid sv (w_srv (hb_world h)) = (j, s1)" by (cases "sv_uuid sv (w_srv (hb_world h))")
    obtain now s2 where n: "en_now (sv_pipe sv) s1 = (now, s2)" by (cases "en_now (sv_pipe sv) s1")
    obtain x d where c: "create_job (en_store (sv_pipe sv)) now (new_job j name) (w_jobs (hb_world h)) = (x, d)"
      by (cases "create_job (en_store (sv_pipe sv)) now (new_job j name) (w_jobs (hb_world h))")
    note run = assms [unfolded submit_ingest_def Inr Some sum.case option.case u n prod.case Let_def]
    show ?thesis
    proof (cases x)
      case (Inl e)
      with create_job_Inl c have "d = w_jobs (hb_world h)" by blast
      with run c Inl have "r = Inl e" "hb_queue h' = hb_queue h" "beside_jobs h h'"
        by (auto simp: with_srv_def beside_jobs_def)
      then show ?thesis by (rule Refused)
    next
      case (Inr k)
      with c have cr: "map_of (job_files (w_jobs (hb_world h))) j = None"
          "k = (new_job j name)\<lparr>created_at := Some now, updated_at := Some now\<rparr>" "storable (en_store (sv_pipe sv)) k"
          "d = (w_jobs (hb_world h))\<lparr>job_files := dict_set j (Stored k, now) (job_files (w_jobs (hb_world h)))\<rparr>"
        by (auto simp: create_job_Inr new_job_def)
      then have "id_ok j" by (simp add: storable_def new_job_def)
      obtain y q where s: "submit name j (hb_queue h) = (y, q)" by (cases "submit name j (hb_queue h)")
      with run c Inr have "y = r" "hb_queue h' = q" "w_jobs (hb_world h') = d"
          "hb_pending h' = dict_set j \<lparr>pi_vault = v, pi_text = text, pi_label = label\<rparr> (hb_pending h)"
        by (auto simp: with_srv_def)
      with \<open>reg_get (hb_registry h) name = Inr c\<close> Some cr \<open>id_ok j\<close> s show ?thesis by (intro Taken [of v j now]) simp_all
    qed
  qed
qed

section \<open>Steps of the server\<close>

definition server_inv :: "('x, 's) hub \<Rightarrow> bool" where
  "server_inv h \<longleftrightarrow> jobs_inv (w_jobs (hb_world h)) (hb_queue h)"

abbreviation stored :: "('x, 's) hub \<Rightarrow> pystr \<Rightarrow> job_record option" where
  "stored h \<equiv> record_of (w_jobs (hb_world h))"

text \<open>Every step is one of: a step beside the jobs; a locked block of the queue; a fresh record with its
  request, enqueued or not; the run of the job a worker executes.\<close>

definition fresh_job :: "pystr \<Rightarrow> pending_ingest \<Rightarrow> ('x, 's) hub \<Rightarrow> ('x, 's) hub \<Rightarrow> bool" where
  "fresh_job j p h h' \<longleftrightarrow> hub_wf h' \<and> stored h j = None \<and> in_state (w_jobs (hb_world h')) QUEUED j
    \<and> (\<forall>i. i \<noteq> j \<longrightarrow> stored h' i = stored h i)
    \<and> hb_pending h' = dict_set j p (hb_pending h)"

lemma fresh_jobI:
  assumes wf: "hub_wf h" and "id_ok j" and free: "map_of (job_files (w_jobs (hb_world h))) j = None"
    and d: "w_jobs (hb_world h') = (w_jobs (hb_world h))\<lparr>job_files := dict_set j (Stored k, now) (job_files (w_jobs (hb_world h)))\<rparr>"
    and k: "job_id k = j" "job_state k = QUEUED" and p: "hb_pending h' = dict_set j p (hb_pending h)"
  shows "fresh_job j p h h'"
proof -
  have v: "stored h' = (stored h)(j \<mapsto> k)" unfolding d by (rule record_of_write [OF assms(2)])
  have "stored h j = None" using free by (simp add: record_of_def load_job_def split: sum.split)
  moreover have "hub_wf h'" unfolding d by (rule write_wf [OF wf k(1) assms(2)])
  ultimately show ?thesis using v k(2) p by (simp add: fresh_job_def in_state_def)
qed

lemma sstep_forms:
  assumes "sstep sv base h ev h'" and inv: "server_inv h"
  obtains (Beside) "ev = Aside" "beside_jobs h h'"
  | (Block) e where "ev = OfQueue e" "w_jobs (hb_world h') = w_jobs (hb_world h)" "hb_pending h' = hb_pending h"
      "qstep (hb_queue h) e (hb_queue h')" "\<forall>v. submitted v [e] = []" "results (hb_queue h') = results (hb_queue h)"
      "server_inv h'" "\<forall>v i. claims (hb_queue h') v i \<longrightarrow> claims (hb_queue h) v i"
  | (Fresh) j p v r where "fresh_job j p h h'" "submit v j (hb_queue h) = (r, hb_queue h')"
      "ev = (case r of Inr k \<Rightarrow> OfQueue (Submitted v j) | Inl e \<Rightarrow> Aside)"
  | (Ran) t j res e h1 q where "at_phase (hb_queue h) t (Executing j)" "handed_back j h res h1"
      "work_end t j res (hb_queue h) = (e, q)" "ev = OfQueue e" "h' = h1\<lparr>hb_queue := q\<rparr>"
  using assms(1)
proof cases
  case (Accept name body label j)
  from Accept(2) show ?thesis
  proof (cases rule: submit_ingest_cases)
    case (Taken i v now)
    note j = jobs_invD(1) [OF inv [unfolded server_inv_def]]
    have "fresh_job i \<lparr>pi_vault = v, pi_text = body, pi_label = label\<rparr> h h'"
      by (rule fresh_jobI [OF j Taken(3,2,4)]) (simp_all add: new_job_def Taken(5))
    moreover have "i = j" using Taken(6) by (auto simp: submit_def split: if_splits)
    ultimately show ?thesis using Fresh Taken(6) Accept(1) by fastforce
  qed simp
next
  case (Refuse name body label e)
  from Refuse(2) show ?thesis
  proof (cases rule: submit_ingest_cases)
    case (Refused e')
    with Beside Refuse(1) show ?thesis by blast
  next
    case (Taken i v now)
    note j = jobs_invD(1) [OF inv [unfolded server_inv_def]]
    have "fresh_job i \<lparr>pi_vault = v, pi_text = body, pi_label = label\<rparr> h h'"
      by (rule fresh_jobI [OF j Taken(3,2,4)]) (simp_all add: new_job_def Taken(5))
    with Fresh Taken(6) Refuse(1) show ?thesis by fastforce
  qed
next
  case (Take t e q)
  have "server_inv h'" using inv begin_jobs_inv [OF _ Take(3,4)] Take(2) by (simp add: server_inv_def)
  moreover have "results q = results (hb_queue h)" "submitted v [e] = []" for v
    using Take(4) by (auto simp: work_begin_def Let_def split: if_splits)
  ultimately show ?thesis using Take begin_claims [OF Take(3,4)] by (intro Block [of e]) (auto intro: qstep.Begin)
next
  case (Run t j res h1 e q)
  have wf: "hub_wf h" using jobs_invD(1) [OF inv [unfolded server_inv_def]] .
  from execute_handed_back [OF wf Run(4)] have b: "handed_back j h res h1" .
  then have "hb_queue h1 = hb_queue h" by (simp add: handed_back_def own_run_def)
  with b Run show ?thesis by (intro Ran [of t j res h1 e q]) simp_all
next
  case (Tell t j e q)
  have "server_inv h'" using inv announce_jobs_inv [OF _ Tell(3,4)] Tell(2) by (simp add: server_inv_def)
  with Tell announce_claims [OF Tell(3,4)] show ?thesis
    by (intro Block [of e]) (auto intro: qstep.Announce simp: announce_def)
next
  case (Stop drain)
  have "server_inv h'" using inv shutdown_jobs_inv Stop(2) by (simp add: server_inv_def)
  moreover have "results (shutdown drain q) = results q" "claims (shutdown drain q) = claims q" for q
    by (auto simp: shutdown_def claims_def fun_eq_iff)
  ultimately show ?thesis using Stop by (intro Block [of StopRequested]) (simp_all add: qstep.Shutdown)
qed (use Beside in \<open>blast dest: besides\<close>)+

lemma fresh_jobs_inv:
  assumes "server_inv h" and "fresh_job j p h h'" and "submit v j (hb_queue h) = (r, hb_queue h')"
  shows "server_inv h' \<and> (\<forall>u. \<not> claims (hb_queue h) u j)"
proof -
  from assms(2) have f: "hub_wf h'" "stored h j = None" "\<And>i. i \<noteq> j \<Longrightarrow> stored h' i = stored h i"
      "in_state (w_jobs (hb_world h')) QUEUED j" by (auto simp: fresh_job_def)
  from jobs_inv_new_record [OF assms(1) [unfolded server_inv_def] f(1-3)]
  have "jobs_inv (w_jobs (hb_world h')) (hb_queue h)" and c: "\<And>u. \<not> claims (hb_queue h) u j" by blast+
  with submit_jobs_inv [OF this(1) c f(4) assms(3)] show ?thesis by (simp add: server_inv_def)
qed

lemma ran_inv:
  assumes "server_inv h" and "at_phase (hb_queue h) t (Executing j)" and "handed_back j h res h1"
    and "work_end t j res (hb_queue h) = (e, q)"
  shows "server_inv (h1\<lparr>hb_queue := q\<rparr>)"
  using finish_jobs_inv [OF assms(1) [unfolded server_inv_def] assms(2,4)] assms(3)
  by (simp add: server_inv_def handed_back_def own_run_def)

lemma sstep_inv:
  assumes "sstep sv base h ev h'" and inv: "server_inv h"
  shows "server_inv h'"
  using assms
proof (cases rule: sstep_forms)
  case Beside
  with inv show ?thesis by (simp add: beside_jobs_def server_inv_def)
next
  case (Fresh j p v r)
  from fresh_jobs_inv [OF inv Fresh(1,2)] show ?thesis by blast
next
  case (Ran t j res e h1 q)
  from ran_inv [OF inv Ran(1-3)] Ran(5) show ?thesis by simp
qed

lemma srun_inv: "srun sv base h evs h' \<Longrightarrow> server_inv h \<Longrightarrow> server_inv h'"
  by (induction rule: srun.induct) (auto intro: sstep_inv)

section \<open>The queue of the server\<close>

definition queue_events :: "server_event list \<Rightarrow> event list" where
  "queue_events evs = concat (map (\<lambda>ev. case ev of OfQueue e \<Rightarrow> [e] | Aside \<Rightarrow> []) evs)"

lemma queue_events_simps [simp]:
  "queue_events [] = []" "queue_events (xs @ ys) = queue_events xs @ queue_events ys"
  "queue_events [OfQueue e] = [e]" "queue_events [Aside] = []"
  by (simp_all add: queue_events_def)

lemma sstep_queue:
  assumes "sstep sv base h ev h'" and "server_inv h" and "qrun q0 evs (hb_queue h)"
  shows "qrun q0 (evs @ queue_events [ev]) (hb_queue h')"
  using assms(1,2)
proof (cases rule: sstep_forms)
  case Beside
  with assms(3) show ?thesis by (simp add: beside_jobs_def)
next
  case (Block e)
  with assms(3) show ?thesis by (simp add: qrun.Snoc)
next
  case (Fresh j p v r)
  show ?thesis
  proof (cases r)
    case (Inl e)
    with Fresh have "hb_queue h' = hb_queue h" by (auto simp: submit_def split: if_splits)
    with Inl Fresh assms(3) show ?thesis by simp
  next
    case (Inr k)
    with Fresh qstep.Submit [of v j "hb_queue h" k "hb_queue h'"] assms(3) show ?thesis by (simp add: qrun.Snoc)
  qed
next
  case (Ran t j res e h1 q)
  with qstep.Finish assms(3) show ?thesis by (fastforce intro: qrun.Snoc)
qed

lemma srun_queue:
  "srun sv base h evs h' \<Longrightarrow> server_inv h \<Longrightarrow> qrun q0 fs (hb_queue h) \<Longrightarrow> qrun q0 (fs @ queue_events evs) (hb_queue h')"
proof (induction rule: srun.induct)
  case (Snoc h evs h' ev h'')
  from sstep_queue [OF Snoc.hyps(2) srun_inv [OF Snoc.hyps(1) Snoc.prems(1)] Snoc.IH [OF Snoc.prems]]
  show ?case by simp
qed simp

section \<open>What lasts\<close>

lemma sstep_stored:
  assumes st: "sstep sv base h ev h'" and inv: "server_inv h" and r: "stored h i = Some r"
  shows "\<exists>r'. stored h' i = Some r' \<and> evolves r r'"
  using st inv
proof (cases rule: sstep_forms)
  case (Fresh j p v s)
  with r show ?thesis by (cases "i = j") (auto simp: fresh_job_def)
next
  case (Ran t j res e h1 q)
  then have "own_record j (w_jobs (hb_world h)) (w_jobs (hb_world h'))" by (simp add: handed_back_def own_run_def)
  with r show ?thesis by (cases "i = j") (simp_all add: own_record_def)
qed (use r in \<open>simp_all add: beside_jobs_def\<close>)

lemma srun_stored:
  "srun sv base h evs h' \<Longrightarrow> server_inv h \<Longrightarrow> stored h i = Some r \<Longrightarrow> \<exists>r'. stored h' i = Some r' \<and> evolves r r'"
proof (induction rule: srun.induct)
  case (Snoc h evs h' ev h'')
  then obtain r1 where r1: "stored h' i = Some r1" "evolves r r1" by blast
  from sstep_stored [OF Snoc.hyps(2) srun_inv [OF Snoc.hyps(1) Snoc.prems(1)] r1(1)] r1(2)
  show ?case using evolves_trans by blast
qed auto

text \<open>A result is final: the job is stored in a terminal state, so no worker will take it again.\<close>

lemma sstep_results:
  assumes st: "sstep sv base h ev h'" and inv: "server_inv h" and r: "results (hb_queue h) i = Some r"
  shows "results (hb_queue h') i = Some r"
  using st inv
proof (cases rule: sstep_forms)
  case (Fresh j p v s)
  with r submit_frame(1) [OF Fresh(2)] show ?thesis by simp
next
  case (Ran t j res e h1 q)
  note i = jobs_invD [OF inv [unfolded server_inv_def]]
  have "in_state (w_jobs (hb_world h)) QUEUED j" using i(5) Ran(1) by (auto simp: claims_def)
  then have "i \<noteq> j" using i(7,8) [OF r] by (auto simp: in_state_def terminal_job_states_def)
  with Ran(3,5) r show ?thesis by (auto simp: work_end_def Let_def split: sum.splits)
qed (use r in \<open>simp_all add: beside_jobs_def\<close>)

lemma srun_results:
  "srun sv base h evs h' \<Longrightarrow> server_inv h \<Longrightarrow> results (hb_queue h) i = Some r \<Longrightarrow> results (hb_queue h') i = Some r"
  by (induction rule: srun.induct) (auto intro: sstep_results srun_inv)

lemma result_stored: "server_inv h \<Longrightarrow> results (hb_queue h) i = Some r \<Longrightarrow> terminal (job_state r) \<and> get_job i h = Inr r"
  using jobs_invD(7,8) [of "w_jobs (hb_world h)" "hb_queue h" i r]
  by (simp add: server_inv_def get_job_def record_of_loaded)

text \<open>A claimed job was claimed before the step, unless the step enqueued it; its request stays.\<close>

lemma sstep_claims:
  assumes st: "sstep sv base h ev h'" and inv: "server_inv h" and known: "stored h i \<noteq> None"
    and c: "claims (hb_queue h') v i"
  shows "claims (hb_queue h) v i \<and> map_of (hb_pending h') i = map_of (hb_pending h) i"
  using st inv
proof (cases rule: sstep_forms)
  case Beside
  with c show ?thesis by (simp add: beside_jobs_def)
next
  case (Block e)
  with c show ?thesis by simp
next
  case (Fresh j p u r)
  from Fresh(1) known have "i \<noteq> j" by (auto simp: fresh_job_def)
  with Fresh(1) submit_frame(2) [OF Fresh(2) c] show ?thesis by (simp add: fresh_job_def store_simps)
next
  case (Ran t j res e h1 q)
  with finish_claims [OF inv [unfolded server_inv_def] Ran(1,3)] c
  have "claims (hb_queue h) v i" "i \<noteq> j" by simp_all
  with Ran(2,5) show ?thesis by (simp add: handed_back_def own_run_def)
qed

lemma srun_claims:
  "srun sv base h evs h' \<Longrightarrow> server_inv h \<Longrightarrow> stored h i \<noteq> None \<Longrightarrow> claims (hb_queue h') v i \<Longrightarrow>
    claims (hb_queue h) v i \<and> map_of (hb_pending h') i = map_of (hb_pending h) i"
proof (induction rule: srun.induct)
  case (Snoc h evs h' ev h'')
  from srun_inv [OF Snoc.hyps(1) Snoc.prems(1)] have inv: "server_inv h'" .
  from srun_stored [OF Snoc.hyps(1) Snoc.prems(1)] Snoc.prems(2) have "stored h' i \<noteq> None" by fastforce
  from sstep_claims [OF Snoc.hyps(2) inv this Snoc.prems(3)] Snoc.IH [OF Snoc.prems(1,2)] show ?case by simp
qed simp

section \<open>Every job once\<close>

definition accepted :: "event list \<Rightarrow> pystr list" where
  "accepted evs = concat (map (\<lambda>e. case e of Submitted v j \<Rightarrow> [j] | _ \<Rightarrow> []) evs)"

definition executions :: "event list \<Rightarrow> pystr list" where
  "executions evs = concat (map (\<lambda>e. case e of Started v j \<Rightarrow> [j] | _ \<Rightarrow> []) evs)"

lemma event_lists_simps [simp]:
  "accepted [] = []" "accepted (xs @ ys) = accepted xs @ accepted ys" "accepted [Submitted v j] = [j]"
  "executions [] = []" "executions (xs @ ys) = executions xs @ executions ys" "executions [Submitted v j] = []"
  by (simp_all add: accepted_def executions_def)

lemma no_submission: "\<forall>v. submitted v [e] = [] \<Longrightarrow> accepted [e] = []"
  by (cases e) (simp_all add: accepted_def, metis list.distinct(1))

lemma executions_single: "executions [e] = (case e of Started v j \<Rightarrow> [j] | _ \<Rightarrow> [])"
  by (simp add: executions_def)

lemma work_end_event:
  assumes "work_end t j res q = (e, q')"
  shows "accepted [e] = []" "executions [e] = []" "pending q' = pending q"
  using assms by (auto simp: work_end_def Let_def accepted_def executions_def split: sum.splits)

lemma sstep_accepted:
  assumes "sstep sv base h ev h'" and "server_inv h"
  shows "\<forall>j \<in> set (accepted (queue_events [ev])). stored h j = None \<and> stored h' j \<noteq> None"
    "distinct (accepted (queue_events [ev]))"
proof -
  have "\<forall>j \<in> set (accepted (queue_events [ev])). stored h j = None \<and> stored h' j \<noteq> None"
    and "distinct (accepted (queue_events [ev]))"
    if "accepted (queue_events [ev]) = [] \<or> (\<exists>j. accepted (queue_events [ev]) = [j] \<and> stored h j = None \<and> stored h' j \<noteq> None)"
    using that by auto
  moreover from assms have "accepted (queue_events [ev]) = []
      \<or> (\<exists>j. accepted (queue_events [ev]) = [j] \<and> stored h j = None \<and> stored h' j \<noteq> None)"
  proof (cases rule: sstep_forms)
    case (Fresh j p v r)
    have "stored h' j \<noteq> None" using Fresh(1) in_stateD by (fastforce simp: fresh_job_def)
    with Fresh show ?thesis by (cases r) (simp_all add: fresh_job_def)
  qed (simp_all add: no_submission work_end_event)
  ultimately show "\<forall>j \<in> set (accepted (queue_events [ev])). stored h j = None \<and> stored h' j \<noteq> None"
    "distinct (accepted (queue_events [ev]))" by blast+
qed

lemma srun_accepted:
  "srun sv base h evs h' \<Longrightarrow> server_inv h \<Longrightarrow> distinct js \<Longrightarrow> \<forall>j \<in> set js. stored h j \<noteq> None \<Longrightarrow>
    distinct (js @ accepted (queue_events evs)) \<and> (\<forall>j \<in> set (js @ accepted (queue_events evs)). stored h' j \<noteq> None)"
proof (induction rule: srun.induct)
  case (Snoc h evs h' ev h'')
  let ?js = "js @ accepted (queue_events evs)" and ?new = "accepted (queue_events [ev])"
  have inv: "server_inv h'" using srun_inv [OF Snoc.hyps(1) Snoc.prems(1)] .
  from Snoc.IH [OF Snoc.prems] have js: "distinct ?js" "\<forall>j \<in> set ?js. stored h' j \<noteq> None" by blast+
  have keep: "\<forall>j \<in> set ?js. stored h'' j \<noteq> None" using js(2) sstep_stored [OF Snoc.hyps(2) inv] by fastforce
  note new = sstep_accepted [OF Snoc.hyps(2) inv]
  from new(1) js(2) have "set ?js \<inter> set ?new = {}" by blast
  moreover from new(1) keep have "\<forall>j \<in> set (?js @ ?new). stored h'' j \<noteq> None" by auto
  ultimately show ?case using js(1) new(2) by auto
qed auto

lemma sstep_executions:
  assumes st: "sstep sv base h ev h'" and inv: "server_inv h"
    and past: "\<forall>i \<in> set js. stored h i \<noteq> None \<and> (\<forall>v. i \<notin> set (pending (hb_queue h) v))"
  shows "(\<forall>i \<in> set (js @ executions (queue_events [ev])). stored h' i \<noteq> None \<and> (\<forall>v. i \<notin> set (pending (hb_queue h') v)))
    \<and> (\<forall>i \<in> set (executions (queue_events [ev])). i \<notin> set js) \<and> distinct (executions (queue_events [ev]))"
proof -
  have keep: "\<forall>i \<in> set js. stored h' i \<noteq> None" using past sstep_stored [OF st inv] by fastforce
  from st inv show ?thesis
  proof (cases rule: sstep_forms)
    case Beside
    with past show ?thesis by (simp add: beside_jobs_def)
  next
    case (Block e)
    from qstep_pending [OF Block(4)] Block(5)
    have p: "pending (hb_queue h) v = started v [e] @ pending (hb_queue h') v" for v by simp
    then have sub: "set (pending (hb_queue h') v) \<subseteq> set (pending (hb_queue h) v)" for v by simp
    show ?thesis
    proof (cases "\<exists>v j. e = Started v j")
      case False
      then have "executions [e] = []" by (simp add: executions_single split: event.split)
      with past sub keep Block(1) show ?thesis by auto
    next
      case True
      then obtain v j where e: "e = Started v j" by blast
      note i = jobs_invD [OF inv [unfolded server_inv_def]]
      from p [of v] e have pv: "pending (hb_queue h) v = j # pending (hb_queue h') v" by simp
      then have c: "claims (hb_queue h) v j" by (simp add: claims_def)
      have "j \<notin> set (pending (hb_queue h') u)" for u
      proof
        assume u: "j \<in> set (pending (hb_queue h') u)"
        with sub have "claims (hb_queue h) u j" by (auto simp: claims_def)
        with i(4) [OF c] i(4) [of u j] have "u = v" by simp
        with u pv i(3) [of v] show False by simp
      qed
      moreover have "stored h' j \<noteq> None" using i(5) [OF c] Block(2) by (auto dest: in_stateD)
      moreover have "j \<notin> set js" using past pv by (metis list.set_intros(1))
      moreover have "\<forall>i \<in> set js. \<forall>u. i \<notin> set (pending (hb_queue h') u)" using past sub by blast
      ultimately show ?thesis using keep Block(1) e by (simp add: executions_single del: not_None_eq)
    qed
  next
    case (Fresh j p v r)
    have "executions (queue_events [ev]) = []" using Fresh(3) by (cases r) simp_all
    moreover have "i \<notin> set (pending (hb_queue h') u)" if "i \<in> set js" for i u
      using that past Fresh(1,2) submit_cases [OF Fresh(2)] by (cases r) (auto simp: fresh_job_def)
    ultimately show ?thesis using keep by simp
  next
    case (Ran t j res e h1 q)
    with past keep work_end_event [OF Ran(3)] show ?thesis by simp
  qed
qed

lemma srun_executions:
  "srun sv base h evs h' \<Longrightarrow> server_inv h \<Longrightarrow> distinct (executions (queue_events evs))
    \<and> (\<forall>i \<in> set (executions (queue_events evs)). stored h' i \<noteq> None \<and> (\<forall>v. i \<notin> set (pending (hb_queue h') v)))"
proof (induction rule: srun.induct)
  case (Snoc h evs h' ev h'')
  let ?js = "executions (queue_events evs)"
  note i = Snoc.IH [OF Snoc.prems]
  from sstep_executions [OF Snoc.hyps(2) srun_inv [OF Snoc.hyps(1) Snoc.prems] conjunct2 [OF i]] i
  have "\<forall>j \<in> set (?js @ executions (queue_events [ev])). stored h'' j \<noteq> None \<and> (\<forall>v. j \<notin> set (pending (hb_queue h'') v))"
    "set ?js \<inter> set (executions (queue_events [ev])) = {}" "distinct (executions (queue_events [ev]))" by blast+
  with i show ?case by (simp del: not_None_eq)
qed simp

text \<open>Only what was submitted is executed.\<close>

lemma accepted_submitted: "j \<in> set (submitted v evs) \<Longrightarrow> j \<in> set (accepted evs)"
  by (induction v evs rule: submitted.induct) (auto simp: accepted_def split: if_splits)

lemma submitted_accepted: "j \<in> set (accepted evs) \<Longrightarrow> \<exists>v. j \<in> set (submitted v evs)"
proof (induction evs)
  case (Cons e evs)
  show ?case
  proof (cases "j \<in> set (accepted evs)")
    case True
    with Cons.IH obtain v where "j \<in> set (submitted v evs)" by blast
    then have "j \<in> set (submitted v (e # evs))" by (cases e) auto
    then show ?thesis by blast
  next
    case False
    with Cons.prems obtain v where "e = Submitted v j" by (auto simp: accepted_def split: event.splits)
    then show ?thesis by auto
  qed
qed (simp add: accepted_def)

lemma executions_started: "j \<in> set (executions evs) \<Longrightarrow> \<exists>v. j \<in> set (started v evs)"
proof (induction evs)
  case (Cons e evs)
  show ?case
  proof (cases "j \<in> set (executions evs)")
    case True
    with Cons.IH obtain v where "j \<in> set (started v evs)" by blast
    then have "j \<in> set (started v (e # evs))" by (cases e) auto
    then show ?thesis by blast
  next
    case False
    with Cons.prems obtain v where "e = Started v j"
      by (auto simp: executions_def split: event.splits)
    then show ?thesis by auto
  qed
qed (simp add: executions_def)

lemma executed_submitted:
  assumes "qrun empty_queue evs q"
  shows "set (executions evs) \<subseteq> set (accepted evs)"
proof
  fix j assume "j \<in> set (executions evs)"
  then obtain v where "j \<in> set (started v evs)" using executions_started by blast
  with qrun_pending [OF assms, of v] have "j \<in> set (submitted v evs)" by (simp add: empty_queue_def)
  then show "j \<in> set (accepted evs)" by (rule accepted_submitted)
qed

section \<open>From startup on\<close>

text \<open>What recovery hands to the queue, in order.\<close>

definition resubmitted :: "('x, 'q) rec_env \<Rightarrow> job_dir \<Rightarrow> pystr list \<Rightarrow> 'q \<Rightarrow> 'q" where
  "resubmitted env d is q = fold (\<lambda>i q. case rc_resubmit env of None \<Rightarrow> q
     | Some f \<Rightarrow> f (case record_of d i of Some r \<Rightarrow> job_vault r | None \<Rightarrow> []) i q) is q"

lemma reconcile_one_queue:
  assumes wf: "store_wf d" and run: "reconcile_one env i rp (d, r, q) = (Inr rp', (d', r', q'))"
  shows "q' = resubmitted env d (if in_state d QUEUED i then [i] else []) q"
proof (cases "load_job d i")
  case (Inl e)
  then have n: "record_of d i = None" by (rule record_of_load)
  from run Inl n show ?thesis
    by (auto simp: reconcile_one_def resubmitted_def in_state_def simp del: isinstance_cases
        split: prod.splits sum.splits if_splits)
next
  case (Inr x)
  show ?thesis
  proof (cases x)
    case None
    with Inr run record_of_load(1) [OF Inr] show ?thesis by (simp add: reconcile_one_def resubmitted_def in_state_def)
  next
    case (Some job)
    have j: "record_of d i = Some job" using record_of_load(1) [OF Inr] Some by simp
    consider "terminal (job_state job)" | "job_state job = RUNNING" | "job_state job = QUEUED"
      by (cases "job_state job") (auto simp: terminal_job_states_def)
    then show ?thesis
    proof cases
      case 2
      then have "\<not> terminal (job_state job)" by (simp add: terminal_job_states_def)
      with 2 run Inr Some have "reconcile_running env i job rp (d, r, q) = (Inr rp', (d', r', q'))"
        by (simp add: reconcile_one_def)
      from reconcile_running_ok [OF wf j 2 this] 2 j show ?thesis by (simp add: resubmitted_def in_state_def)
    qed (use run Inr Some j in \<open>auto simp: reconcile_one_def resubmitted_def in_state_def terminal_job_states_def
        split: option.split\<close>)
  qed
qed

lemma resubmitted_cong:
  "(\<And>i. i \<in> set is \<Longrightarrow> record_of d i = record_of d' i) \<Longrightarrow> resubmitted env d is q = resubmitted env d' is q"
  unfolding resubmitted_def by (rule fold_cong) (auto simp: fun_eq_iff split: option.split)

lemma resubmitted_append: "resubmitted env d (is @ js) q = resubmitted env d js (resubmitted env d is q)"
  by (simp add: resubmitted_def)

lemma reconcile_loop_queue:
  assumes "store_wf d" and "distinct is" and "reconcile_loop env is rp (d, r, q) = (Inr rp', (d', r', q'))"
  shows "q' = resubmitted env d (filter (in_state d QUEUED) is) q"
  using assms
proof (induction "is" arbitrary: d r q rp)
  case Nil
  then show ?case by (simp add: resubmitted_def)
next
  case (Cons i "is")
  obtain x d1 r1 q1 where o: "reconcile_one env i rp (d, r, q) = (x, (d1, r1, q1))" by (metis prod_cases4)
  with Cons.prems obtain rp1 where x: "x = Inr rp1" by (cases x) auto
  have s: "step_ok (rc_now env) i d rp d1 rp1"
    by (rule reconcile_one_ok [OF Cons.prems(1)]) (use o x in simp)
  then have wf1: "store_wf d1" and v1: "record_of d1 = (record_of d)(i := map_option (reconciled (rc_now env)) (record_of d i))"
    by (simp_all add: step_ok_def)
  have same: "record_of d1 j = record_of d j" if "j \<in> set is" for j
    using that Cons.prems(2) v1 by auto
  then have f: "filter (in_state d1 t) is = filter (in_state d t) is" for t
    by (intro filter_cong) (auto simp: in_state_def)
  from Cons.prems o x have l: "reconcile_loop env is rp1 (d1, r1, q1) = (Inr rp', (d', r', q'))" by simp
  have "q' = resubmitted env d1 (filter (in_state d QUEUED) is) q1"
    using Cons.IH [OF wf1 _ l] Cons.prems(2) by (simp add: f)
  also have "\<dots> = resubmitted env d (filter (in_state d QUEUED) is) q1"
    by (rule resubmitted_cong) (use same in simp)
  also have "q1 = resubmitted env d (if in_state d QUEUED i then [i] else []) q"
    by (rule reconcile_one_queue [OF Cons.prems(1) o [unfolded x]])
  finally show ?case by (simp add: resubmitted_append [symmetric])
qed

lemma recovery_queue:
  assumes wf: "store_wf d" and run: "recover_on_startup env (d, r, q) = (Inr rp, (d', r', q'))"
  shows "q' = resubmitted env d' (rp_requeued rp) q \<and> store_wf d' \<and> distinct (rp_requeued rp)
    \<and> (\<forall>i \<in> set (rp_requeued rp). in_state d' QUEUED i)"
proof -
  obtain swept d1 where s: "sweep (rc_store env) (rc_now env) d = (Inr swept, d1)"
      and d1: "d1 = without (expired (rc_now env - retention (rc_store env)) d) d"
    using sweep_spec [OF wf] by blast
  have wf1: "store_wf d1" unfolding d1 by (rule without_wf [OF wf])
  from run s have l: "reconcile_loop env (list_ids d1)
      \<lparr>rp_swept = swept, rp_requeued = [], rp_failed_interrupted = [], rp_quarantined = [], rp_rolled_back = []\<rparr>
      (d1, r, q) = (Inr rp, (d', r', q'))"
    by (simp add: recover_on_startup_def)
  have dist: "distinct (list_ids d1)" using wf1 by (simp add: list_ids_def store_wf_def)
  from recovery_outcome [OF wf run] s have o: "record_of d' = map_option (reconciled (rc_now env)) \<circ> record_of d1"
      "rp_requeued rp = filter (in_state d1 QUEUED) (list_ids d1)" "store_wf d'" by (simp_all add: Let_def)
  have q: "record_of d' i = record_of d1 i" "in_state d' QUEUED i" if "in_state d1 QUEUED i" for i
    using in_stateD [OF that] o(1) by (auto simp: in_state_def)
  have "q' = resubmitted env d1 (rp_requeued rp) q" using reconcile_loop_queue [OF wf1 dist l] o(2) by simp
  also have "\<dots> = resubmitted env d' (rp_requeued rp) q" by (rule resubmitted_cong) (use q o(2) in auto)
  finally show ?thesis using o q dist by simp
qed

text \<open>The jobs of a fresh queue fed from a list.\<close>

lemma fed_inv:
  assumes "jobs_inv d q" and "distinct is" and "\<forall>i \<in> set is. in_state d QUEUED i \<and> (\<forall>u. \<not> claims q u i)"
    and "\<not> stopping q" and "qrun q0 evs q"
  shows "let q' = fold (\<lambda>i. \<lambda>q. snd (submit (f i) i q)) is q in
    jobs_inv d q' \<and> qrun q0 (evs @ map (\<lambda>i. Submitted (f i) i) is) q'"
  using assms
proof (induction "is" arbitrary: q evs)
  case (Cons i "is")
  from Cons.prems(4) obtain q1 where s: "submit (f i) i q = (Inr i, q1)" and ns: "\<not> stopping q1"
    by (simp add: submit_def)
  have "jobs_inv d q1" by (rule submit_jobs_inv [OF Cons.prems(1) _ _ s]) (use Cons.prems(3) in auto)
  moreover have "\<forall>j \<in> set is. in_state d QUEUED j \<and> (\<forall>u. \<not> claims q1 u j)"
    using Cons.prems(2,3) submit_frame(2) [OF s] by (metis distinct.simps(2) list.set_intros(2))
  moreover have "qrun q0 (evs @ [Submitted (f i) i]) q1"
    by (rule qrun.Snoc [OF Cons.prems(5) qstep.Submit [OF s]])
  ultimately show ?case using Cons.IH [of q1 "evs @ [Submitted (f i) i]"] Cons.prems(2) ns s by (simp add: Let_def)
qed simp

text \<open>The submissions recovery makes.\<close>

definition requeue_events :: "('x, 's) hub \<Rightarrow> report \<Rightarrow> event list" where
  "requeue_events h rp =
    map (\<lambda>i. Submitted (case stored h i of Some r \<Rightarrow> job_vault r | None \<Rightarrow> []) i) (rp_requeued rp)"

lemma accepted_requeue [simp]: "accepted (requeue_events h rp) = rp_requeued rp"
  by (simp add: requeue_events_def accepted_def comp_def)

lemma startup_inv:
  assumes wf: "store_wf (w_jobs w)" and up: "lifespan sv (fresh_hub reg w) = (Inr rp, h)"
  shows "server_inv h \<and> qrun empty_queue (requeue_events h rp) (hb_queue h)
    \<and> distinct (rp_requeued rp) \<and> (\<forall>i \<in> set (rp_requeued rp). stored h i \<noteq> None)"
proof -
  obtain now s where n: "en_now (sv_pipe sv) (w_srv w) = (now, s)" by (cases "en_now (sv_pipe sv) (w_srv w)")
  obtain x d r q where o': "recover_on_startup (startup_env sv reg now) (w_jobs w, w_repo w, empty_queue) = (x, (d, r, q))"
    by (metis prod_cases4)
  have h: "x = Inr rp" "w_jobs (hb_world h) = d" "hb_queue h = q"
    using up by (auto simp: lifespan_def fresh_hub_def n o' Let_def)
  let ?f = "\<lambda>i. case record_of d i of Some r \<Rightarrow> job_vault r | None \<Rightarrow> []"
  from recovery_queue [OF wf o' [unfolded h(1)]]
  have q: "q = fold (\<lambda>i q. snd (submit (?f i) i q)) (rp_requeued rp) empty_queue" and wfd: "store_wf d"
    and dist: "distinct (rp_requeued rp)" and st: "\<forall>i \<in> set (rp_requeued rp). in_state d QUEUED i"
    by (simp_all add: resubmitted_def startup_env_def)
  have e: "jobs_inv d empty_queue" "\<not> claims empty_queue u i" "\<not> stopping empty_queue" for u i
    using wfd empty_queue_inv by (simp_all add: jobs_inv_def claims_def empty_queue_def at_phase_def)
  from fed_inv [OF e(1) dist _ e(3) qrun.Nil, of ?f] st e(2) q
  have "jobs_inv d q" "qrun empty_queue (map (\<lambda>i. Submitted (?f i) i) (rp_requeued rp)) q"
    by (simp_all add: Let_def)
  moreover have "\<forall>i \<in> set (rp_requeued rp). record_of d i \<noteq> None" using st in_stateD by fastforce
  ultimately show ?thesis using dist h by (simp add: server_inv_def requeue_events_def)
qed

section \<open>Properties\<close>

lemma served_inv:
  assumes "store_wf (w_jobs w)" and "lifespan sv (fresh_hub reg w) = (Inr rp, h0)" and "srun sv base h0 evs h"
  shows "server_inv h"
  using srun_inv [OF assms(3)] startup_inv [OF assms(1,2)] by blast

text \<open>
  C17. The server runs the queue. Whatever requests, submissions, job runs, registry and schema changes are
  interleaved after a startup, the queue of the server went through steps of the queue model alone,
  from the empty queue, with the jobs recovery found queued submitted first; so all that
  theory \<open>Queue\<close> shows of reachable queues (one job per vault, order, draining) holds of the server.
\<close>

theorem server_refines_queue:
  assumes "store_wf (w_jobs w)" and "lifespan sv (fresh_hub reg w) = (Inr rp, h0)" and "srun sv base h0 evs h"
  shows "qrun empty_queue (requeue_events h0 rp @ queue_events evs) (hb_queue h)"
  using srun_queue [OF assms(3)] startup_inv [OF assms(1,2)] by blast

text \<open>
  C15. What holds whenever the server is up. In every state reachable from a startup on a well-formed job
  store, a job that waits in a queue or is in a worker's hands before its run has a record
  in the state \<open>QUEUED\<close>, belongs to one vault only and waits there at most once, and every result the queue
  keeps is terminal and equal to the stored record.
\<close>

theorem server_jobs_consistent:
  assumes "store_wf (w_jobs w)" and "lifespan sv (fresh_hub reg w) = (Inr rp, h0)" and "srun sv base h0 evs h"
  shows "store_wf (w_jobs (hb_world h)) \<and> distinct (pending (hb_queue h) v)
    \<and> (claims (hb_queue h) v i \<longrightarrow> in_state (w_jobs (hb_world h)) QUEUED i
        \<and> (\<forall>u. claims (hb_queue h) u i \<longrightarrow> u = v))
    \<and> (results (hb_queue h) i = Some r \<longrightarrow> terminal (job_state r) \<and> get_job i h = Inr r)"
  using jobs_invD [OF served_inv [OF assms, unfolded server_inv_def]] result_stored [OF served_inv [OF assms]]
  by (metis option.inject)

text \<open>
  C5. A blocking submission answers with the final record. If its wait ends with a record, that record is
  terminal, and it is what every later read of the job returns, whatever the server does in between.
\<close>

theorem waited_record_is_final:
  assumes "store_wf (w_jobs w)" and "lifespan sv (fresh_hub reg w) = (Inr rp, h0)" and "srun sv base h0 evs h"
    and "ingest_result True j (hb_queue h) = Inr (IngestDone r)" and "srun sv base h evs' h'"
  shows "terminal (job_state r) \<and> get_job j h = Inr r \<and> get_job j h' = Inr r"
proof -
  have inv: "server_inv h" by (rule served_inv [OF assms(1-3)])
  have "results (hb_queue h) j = Some r"
    using assms(4) by (auto simp: ingest_result_def wait_def split: option.splits bool.splits if_splits)
  with result_stored [OF inv] result_stored [OF srun_inv [OF assms(5) inv] srun_results [OF assms(5) inv]]
  show ?thesis by blast
qed

text \<open>
  C10. What is run is what was submitted. From the moment a submission is accepted until the run of its
  job, the request the worker will find is the one submitted: the vault registered then, this text and this
  label; and the job is stored as queued, for this vault. So the request of a job accepted by this process
  is never the lost one of a restart.
\<close>

theorem submitted_request_is_run:
  assumes "store_wf (w_jobs w)" and "lifespan sv (fresh_hub reg w) = (Inr rp, h0)" and "srun sv base h0 evs h"
    and "submit_ingest sv name body label h = (Inr j, h1)" and "srun sv base h1 evs' h2"
    and "claims (hb_queue h2) v j"
  shows "v = name \<and> in_state (w_jobs (hb_world h2)) QUEUED j
    \<and> (\<exists>vt. reg_get (hb_registry h) name = Inr (Some vt)
        \<and> map_of (hb_pending h2) j = Some \<lparr>pi_vault = vt, pi_text = body, pi_label = label\<rparr>)"
proof -
  have inv: "server_inv h" by (rule served_inv [OF assms(1-3)])
  have step: "sstep sv base h (OfQueue (Submitted name j)) h1" by (rule sstep.Accept [OF assms(4)])
  have inv1: "server_inv h1" by (rule sstep_inv [OF step inv])
  from assms(4) obtain vt now where t: "reg_get (hb_registry h) name = Inr (Some vt)"
      "hb_pending h1 = dict_set j \<lparr>pi_vault = vt, pi_text = body, pi_label = label\<rparr> (hb_pending h)"
      "submit name j (hb_queue h) = (Inr j, hb_queue h1)"
  proof (cases rule: submit_ingest_cases)
    case (Taken i v now)
    moreover from Taken(6) have "i = j" by (auto simp: submit_def split: if_splits)
    ultimately show ?thesis using that by blast
  qed simp
  have c1: "claims (hb_queue h1) name j" using t(3) submit_cases [OF t(3)] by (auto simp: claims_def)
  note i1 = jobs_invD [OF inv1 [unfolded server_inv_def]]
  have "stored h1 j \<noteq> None" using in_stateD [OF i1(5) [OF c1]] by auto
  from srun_claims [OF assms(5) inv1 this assms(6)]
  have "claims (hb_queue h1) v j" and p: "map_of (hb_pending h2) j = map_of (hb_pending h1) j" by blast+
  with i1(4) [OF c1] i1(4) [of v j] have "v = name" by simp
  moreover have "in_state (w_jobs (hb_world h2)) QUEUED j"
    using jobs_invD(5) [OF srun_inv [OF assms(5) inv1, unfolded server_inv_def] assms(6)] .
  ultimately show ?thesis using t p by (simp add: store_simps)
qed

text \<open>
  C6. Every job once. The ids that recovery requeued and the ids accepted since are all different, no id is
  taken by a worker twice, and only those ids are; and no record of the job store vanishes or moves
  backwards.
\<close>

theorem each_job_once:
  assumes "store_wf (w_jobs w)" and "lifespan sv (fresh_hub reg w) = (Inr rp, h0)" and "srun sv base h0 evs h"
  shows "distinct (rp_requeued rp @ accepted (queue_events evs)) \<and> distinct (executions (queue_events evs))
    \<and> set (executions (queue_events evs)) \<subseteq> set (rp_requeued rp @ accepted (queue_events evs))
    \<and> (case stored h0 i of Some r \<Rightarrow> (\<exists>r'. stored h i = Some r' \<and> evolves r r') | None \<Rightarrow> True)"
proof -
  from startup_inv [OF assms(1,2)] have s: "server_inv h0" "distinct (rp_requeued rp)"
      "\<forall>i \<in> set (rp_requeued rp). stored h0 i \<noteq> None" "qrun empty_queue (requeue_events h0 rp) (hb_queue h0)" by blast+
  have "distinct (rp_requeued rp @ accepted (queue_events evs))" using srun_accepted [OF assms(3) s(1-3)] by blast
  moreover have "distinct (executions (queue_events evs))" using srun_executions [OF assms(3) s(1)] by blast
  moreover have "set (executions (queue_events evs)) \<subseteq> set (rp_requeued rp @ accepted (queue_events evs))"
    using executed_submitted [OF srun_queue [OF assms(3) s(1,4)]] by simp
  moreover have "case stored h0 i of Some r \<Rightarrow> (\<exists>r'. stored h i = Some r' \<and> evolves r r') | None \<Rightarrow> True"
    using srun_stored [OF assms(3) s(1)] by (simp split: option.split)
  ultimately show ?thesis by blast
qed

lemma alive_can_serve:
  assumes "is_alive (hb_queue h) t"
  shows "\<exists>e h'. sstep sv base h (OfQueue e) h' \<and> worker_event e"
proof -
  have t: "at_phase (hb_queue h) t (t_phase (threads (hb_queue h) ! t))" using assms by (simp add: at_phase_def is_alive_def)
  show ?thesis
  proof (cases "t_phase (threads (hb_queue h) ! t)")
    case AtLock
    obtain e q where w: "work_begin t (hb_queue h) = (e, q)" by fastforce
    then have "worker_event e" by (auto simp: work_begin_def Let_def worker_event_def split: if_splits)
    with w t AtLock show ?thesis by (metis sstep.Take)
  next
    case (Executing j)
    obtain res h1 where x: "hub_execute sv base j h = (res, h1)" by fastforce
    obtain e q where w: "work_end t j res (hb_queue h1) = (e, q)" by fastforce
    then have "worker_event e" by (auto simp: work_end_def Let_def worker_event_def split: sum.splits)
    with x w t Executing show ?thesis by (metis sstep.Run)
  next
    case (Announcing j)
    obtain e q where w: "announce t j (hb_queue h) = (e, q)" by fastforce
    then have "worker_event e" by (auto simp: announce_def worker_event_def)
    with w t Announcing show ?thesis by (metis sstep.Tell)
  next
    case Ended
    with assms show ?thesis by (simp add: is_alive_def)
  qed
qed

text \<open>
  C21. Every accepted job comes to its end. As long as no worker dies of an exception, the workers take a
  bounded number of steps without a new submission, whatever else the server does; as long as some worker
  lives it can take the next one; and once none does, unless the server was told to stop, every job that was
  requeued at the start or accepted since has a terminal record that every read returns.
\<close>

theorem server_drains:
  assumes "store_wf (w_jobs w)" and "lifespan sv (fresh_hub reg w) = (Inr rp, h0)" and "srun sv base h0 evs h"
    and "srun sv base h wevs h'" and "list_all worker_event (queue_events wevs)"
    and "list_all (\<lambda>e. \<not> is_crash e) (queue_events (evs @ wevs))"
  shows "length (queue_events wevs) \<le> work_left (hb_queue h)
    \<and> (\<forall>t. is_alive (hb_queue h') t \<longrightarrow> (\<exists>e h''. sstep sv base h' (OfQueue e) h'' \<and> worker_event e))
    \<and> ((\<forall>t. \<not> is_alive (hb_queue h') t) \<and> \<not> stopping (hb_queue h')
        \<and> j \<in> set (rp_requeued rp @ accepted (queue_events (evs @ wevs)))
       \<longrightarrow> (\<exists>r. get_job j h' = Inr r \<and> terminal (job_state r)))"
proof -
  from startup_inv [OF assms(1,2)] have s: "server_inv h0" "qrun empty_queue (requeue_events h0 rp) (hb_queue h0)" by blast+
  note inv = srun_inv [OF assms(3) s(1)]
  note q = srun_queue [OF assms(3) s] and wq = srun_queue [OF assms(4) inv qrun.Nil, simplified]
  have nc: "list_all (\<lambda>e. \<not> is_crash e) ((requeue_events h0 rp @ queue_events evs) @ queue_events wevs)"
    using assms(6) by (auto simp: requeue_events_def list_all_iff is_crash_def)
  note d = queue_drains [OF q wq assms(5) nc, of j]
  have "\<exists>r. get_job j h' = Inr r \<and> terminal (job_state r)"
    if idle: "(\<forall>t. \<not> is_alive (hb_queue h') t) \<and> \<not> stopping (hb_queue h')"
      and j: "j \<in> set (rp_requeued rp @ accepted (queue_events (evs @ wevs)))"
  proof -
    have "\<exists>v. j \<in> set (submitted v (requeue_events h0 rp @ queue_events (evs @ wevs)))"
      by (rule submitted_accepted) (use j in simp)
    then have "done_events (hb_queue h') j \<noteq> None"
      using qrun_done_events [OF srun_queue [OF srun_trans [OF assms(4,3)] s]] by blast
    with d idle obtain r where "wait (hb_queue h') j = Inr r" by blast
    then have "results (hb_queue h') j = Some r"
      by (auto simp: wait_def split: option.splits bool.splits)
    with result_stored [OF srun_inv [OF assms(4) inv]] show ?thesis by blast
  qed
  with d alive_can_serve show ?thesis by blast
qed

section \<open>A server at work\<close>

text \<open>A server that starts with one queued job accepts a second one, and its worker runs the first.\<close>

definition server_svc :: "(fs, unit) svc" where
  "server_svc = start_svc\<lparr>sv_uuid := (\<lambda>s. (lit ''b2'', s))\<rparr>"

definition server_registry :: registry where
  "server_registry = snd (register (lit ''v'') [lit ''v''] None)"

definition started_hub :: "(fs, unit) svc_hub" where
  "started_hub = snd (lifespan server_svc (fresh_hub server_registry start_world))"

definition accepted_hub :: "(fs, unit) svc_hub" where
  "accepted_hub = snd (submit_ingest server_svc (lit ''v'') (lit ''hello'') (lit ''x'') started_hub)"

definition taken_hub :: "(fs, unit) svc_hub" where
  "taken_hub = accepted_hub\<lparr>hb_queue := snd (work_begin 0 (hb_queue accepted_hub))\<rparr>"

definition lost_hub :: "(fs, unit) svc_hub" where
  "lost_hub = snd (hub_execute server_svc 1 (lit ''a1'') taken_hub)"

definition lost_a1 :: job_record where
  "lost_a1 = settled 5 (lost_record 5 demo_job)"

definition ran_hub :: "(fs, unit) svc_hub" where
  "ran_hub = lost_hub\<lparr>hb_queue := snd (work_end 0 (lit ''a1'') (Inr lost_a1) (hb_queue lost_hub))\<rparr>"

definition told_hub :: "(fs, unit) svc_hub" where
  "told_hub = ran_hub\<lparr>hb_queue := snd (announce 0 (lit ''a1'') (hb_queue ran_hub))\<rparr>"

definition served_events :: "server_event list" where
  "served_events = map OfQueue [Submitted (lit ''v'') (lit ''b2''), Started (lit ''notes'') (lit ''a1''),
     Completed (lit ''notes'') (lit ''a1'') lost_a1, Announced (lit ''a1'')]"

lemma server_facts:
  "fst (lifespan server_svc (fresh_hub server_registry start_world)) = Inr start_report"
  "fst (submit_ingest server_svc (lit ''v'') (lit ''hello'') (lit ''x'') started_hub) = Inr (lit ''b2'')"
  "at_phase (hb_queue accepted_hub) 0 AtLock"
  "fst (work_begin 0 (hb_queue accepted_hub)) = Started (lit ''notes'') (lit ''a1'')"
  "at_phase (hb_queue taken_hub) 0 (Executing (lit ''a1''))"
  "fst (hub_execute server_svc 1 (lit ''a1'') taken_hub) = Inr lost_a1"
  "fst (work_end 0 (lit ''a1'') (Inr lost_a1) (hb_queue lost_hub)) = Completed (lit ''notes'') (lit ''a1'') lost_a1"
  "at_phase (hb_queue ran_hub) 0 (Announcing (lit ''a1''))"
  "ingest_result True (lit ''a1'') (hb_queue told_hub) = Inr (IngestDone lost_a1)"
  "pending (hb_queue told_hub) (lit ''v'') = [lit ''b2'']"
  by code_simp+

lemma served_start: "lifespan server_svc (fresh_hub server_registry start_world) = (Inr start_report, started_hub)"
  using server_facts(1) by (simp add: started_hub_def prod_eq_iff)

lemma served_accept: "submit_ingest server_svc (lit ''v'') (lit ''hello'') (lit ''x'') started_hub
    = (Inr (lit ''b2''), accepted_hub)"
  using server_facts(2) by (simp add: accepted_hub_def prod_eq_iff)

lemma served_steps:
  "sstep server_svc 1 accepted_hub (OfQueue (Started (lit ''notes'') (lit ''a1''))) taken_hub"
  "sstep server_svc 1 taken_hub (OfQueue (Completed (lit ''notes'') (lit ''a1'') lost_a1)) ran_hub"
  "sstep server_svc 1 ran_hub (OfQueue (Announced (lit ''a1''))) told_hub"
proof -
  have b: "work_begin 0 (hb_queue accepted_hub)
      = (Started (lit ''notes'') (lit ''a1''), snd (work_begin 0 (hb_queue accepted_hub)))"
    using server_facts(4) by (metis prod.collapse)
  show "sstep server_svc 1 accepted_hub (OfQueue (Started (lit ''notes'') (lit ''a1''))) taken_hub"
    unfolding taken_hub_def by (rule sstep.Take [OF server_facts(3) b])
  have r: "hub_execute server_svc 1 (lit ''a1'') taken_hub = (Inr lost_a1, lost_hub)"
    using server_facts(6) unfolding lost_hub_def by (metis prod.collapse)
  have e: "work_end 0 (lit ''a1'') (Inr lost_a1) (hb_queue lost_hub)
      = (Completed (lit ''notes'') (lit ''a1'') lost_a1, snd (work_end 0 (lit ''a1'') (Inr lost_a1) (hb_queue lost_hub)))"
    using server_facts(7) by (metis prod.collapse)
  show "sstep server_svc 1 taken_hub (OfQueue (Completed (lit ''notes'') (lit ''a1'') lost_a1)) ran_hub"
    unfolding ran_hub_def by (rule sstep.Run [OF server_facts(5) r e])
  show "sstep server_svc 1 ran_hub (OfQueue (Announced (lit ''a1''))) told_hub"
    unfolding told_hub_def by (rule sstep.Tell [OF server_facts(8)]) (simp add: announce_def)
qed

lemma served_run_after: "srun server_svc 1 accepted_hub (tl served_events) told_hub"
  using srun.Snoc [OF srun.Snoc [OF srun.Snoc [OF srun.Nil served_steps(1)] served_steps(2)] served_steps(3)]
  by (simp add: served_events_def del: lit_Cons)

lemma served_run: "srun server_svc 1 started_hub served_events told_hub"
  using srun_trans [OF served_run_after srun.Snoc [OF srun.Nil sstep.Accept [OF served_accept]]]
  by (simp add: served_events_def del: lit_Cons)

lemma served_claims: "claims (hb_queue told_hub) (lit ''v'') (lit ''b2'')"
  using server_facts(10) by (simp add: claims_def del: lit_Cons)

theorem server_refines_queue_witness:
  "qrun empty_queue (requeue_events started_hub start_report @ queue_events served_events) (hb_queue told_hub)"
  by (rule server_refines_queue [OF start_facts(4) served_start served_run])

theorem server_jobs_consistent_witness:
  "in_state (w_jobs (hb_world told_hub)) QUEUED (lit ''b2'')"
  using server_jobs_consistent [OF start_facts(4) served_start served_run] served_claims by blast

theorem waited_record_is_final_witness:
  "terminal (job_state lost_a1) \<and> get_job (lit ''a1'') told_hub = Inr lost_a1"
  using waited_record_is_final [OF start_facts(4) served_start served_run server_facts(9) srun.Nil] by blast

theorem submitted_request_is_run_witness:
  "\<exists>vt. reg_get (hb_registry started_hub) (lit ''v'') = Inr (Some vt)
     \<and> map_of (hb_pending told_hub) (lit ''b2'') = Some \<lparr>pi_vault = vt, pi_text = lit ''hello'', pi_label = lit ''x''\<rparr>"
  using submitted_request_is_run [OF start_facts(4) served_start srun.Nil served_accept served_run_after served_claims]
  by blast

theorem each_job_once_witness:
  "distinct (rp_requeued start_report @ accepted (queue_events served_events))
    \<and> set (executions (queue_events served_events)) \<subseteq> {lit ''a1'', lit ''b2''}"
proof -
  have "rp_requeued start_report = [lit ''a1'']" "accepted (queue_events served_events) = [lit ''b2'']"
    by (simp_all add: start_report_def served_events_def queue_events_def accepted_def del: lit_Cons)
  with each_job_once [OF start_facts(4) served_start served_run] show ?thesis by (simp del: lit_Cons)
qed

text \<open>The same server without a submission: its one worker runs the job and leaves.\<close>

definition drain_hub :: "nat \<Rightarrow> (fs, unit) svc_hub" where
  "drain_hub n = (let h0 = started_hub;
     h1 = h0\<lparr>hb_queue := snd (work_begin 0 (hb_queue h0))\<rparr>;
     h2 = snd (hub_execute server_svc 1 (lit ''a1'') h1);
     h3 = h2\<lparr>hb_queue := snd (work_end 0 (lit ''a1'') (Inr lost_a1) (hb_queue h2))\<rparr>;
     h4 = h3\<lparr>hb_queue := snd (announce 0 (lit ''a1'') (hb_queue h3))\<rparr>
     in [h0, h1, h2, h3, h4, h4\<lparr>hb_queue := snd (work_begin 0 (hb_queue h4))\<rparr>] ! n)"

definition drain_events :: "event list" where
  "drain_events = [Started (lit ''notes'') (lit ''a1''), Completed (lit ''notes'') (lit ''a1'') lost_a1,
     Announced (lit ''a1''), Exited (lit ''notes'')]"

lemma drain_facts:
  "at_phase (hb_queue (drain_hub 0)) 0 AtLock"
  "fst (work_begin 0 (hb_queue (drain_hub 0))) = Started (lit ''notes'') (lit ''a1'')"
  "at_phase (hb_queue (drain_hub 1)) 0 (Executing (lit ''a1''))"
  "fst (hub_execute server_svc 1 (lit ''a1'') (drain_hub 1)) = Inr lost_a1"
  "fst (work_end 0 (lit ''a1'') (Inr lost_a1) (hb_queue (drain_hub 2))) = Completed (lit ''notes'') (lit ''a1'') lost_a1"
  "at_phase (hb_queue (drain_hub 3)) 0 (Announcing (lit ''a1''))"
  "at_phase (hb_queue (drain_hub 4)) 0 AtLock"
  "fst (work_begin 0 (hb_queue (drain_hub 4))) = Exited (lit ''notes'')"
  "threads (hb_queue (drain_hub 5)) = [\<lparr>t_vault = lit ''notes'', t_phase = Ended\<rparr>]"
  "\<not> stopping (hb_queue (drain_hub 5))"
  by code_simp+

lemma drain_run: "srun server_svc 1 started_hub (map OfQueue drain_events) (drain_hub 5)"
proof -
  have h: "drain_hub 0 = started_hub"
    "drain_hub 1 = (drain_hub 0)\<lparr>hb_queue := snd (work_begin 0 (hb_queue (drain_hub 0)))\<rparr>"
    "drain_hub 2 = snd (hub_execute server_svc 1 (lit ''a1'') (drain_hub 1))"
    "drain_hub 3 = (drain_hub 2)\<lparr>hb_queue := snd (work_end 0 (lit ''a1'') (Inr lost_a1) (hb_queue (drain_hub 2)))\<rparr>"
    "drain_hub 4 = (drain_hub 3)\<lparr>hb_queue := snd (announce 0 (lit ''a1'') (hb_queue (drain_hub 3)))\<rparr>"
    "drain_hub 5 = (drain_hub 4)\<lparr>hb_queue := snd (work_begin 0 (hb_queue (drain_hub 4)))\<rparr>"
    by (simp_all add: drain_hub_def Let_def numeral_eq_Suc del: lit_Cons)
  have 1: "sstep server_svc 1 (drain_hub 0) (OfQueue (Started (lit ''notes'') (lit ''a1''))) (drain_hub 1)"
    using sstep.Take [OF drain_facts(1)] drain_facts(2) unfolding h(2) by (metis prod.collapse)
  have x: "hub_execute server_svc 1 (lit ''a1'') (drain_hub 1) = (Inr lost_a1, drain_hub 2)"
    using drain_facts(4) h(3) by (metis prod.collapse)
  have 2: "sstep server_svc 1 (drain_hub 1) (OfQueue (Completed (lit ''notes'') (lit ''a1'') lost_a1)) (drain_hub 3)"
    using sstep.Run [OF drain_facts(3) x] drain_facts(5) unfolding h(4) by (metis prod.collapse)
  have 3: "sstep server_svc 1 (drain_hub 3) (OfQueue (Announced (lit ''a1''))) (drain_hub 4)"
    unfolding h(5) by (rule sstep.Tell [OF drain_facts(6)]) (simp add: announce_def)
  have 4: "sstep server_svc 1 (drain_hub 4) (OfQueue (Exited (lit ''notes''))) (drain_hub 5)"
    using sstep.Take [OF drain_facts(7)] drain_facts(8) unfolding h(6) by (metis prod.collapse)
  show ?thesis
    using srun.Snoc [OF srun.Snoc [OF srun.Snoc [OF srun.Snoc [OF srun.Nil 1] 2] 3] 4] h(1)
    by (simp add: drain_events_def del: lit_Cons)
qed

theorem server_drains_witness:
  "length drain_events \<le> work_left (hb_queue started_hub)
    \<and> (\<exists>r. get_job (lit ''a1'') (drain_hub 5) = Inr r \<and> terminal (job_state r))"
proof -
  have e: "queue_events (map OfQueue drain_events) = drain_events" by (simp add: queue_events_def drain_events_def del: lit_Cons)
  have w: "list_all worker_event (queue_events (map OfQueue drain_events))"
    "list_all (\<lambda>e. \<not> is_crash e) (queue_events ([] @ map OfQueue drain_events))"
    unfolding append_Nil e by (simp_all add: drain_events_def worker_event_def is_crash_def)
  have "\<forall>t. \<not> is_alive (hb_queue (drain_hub 5)) t" using drain_facts(9) by (auto simp: is_alive_def nth_Cons')
  moreover have "lit ''a1'' \<in> set (rp_requeued start_report @ accepted (queue_events ([] @ map OfQueue drain_events)))"
    by (simp add: start_report_def)
  ultimately show ?thesis
    using server_drains [OF start_facts(4) served_start srun.Nil drain_run w, of "lit ''a1''"] drain_facts(10) e by auto
qed

section \<open>What the queue does not serialise\<close>

text \<open>The queue keeps the jobs of one vault name apart. Nothing keeps two vaults from having the same
  repository, and then two workers run on it at the same time: each may commit or roll back what the
  other has half written.\<close>

definition twin_svc :: "(fs, int) svc" where
  "twin_svc = start_svc\<lparr>sv_uuid := (\<lambda>(n, f). (if n = 0 then lit ''b2'' else lit ''c3'', (n + 1, f)))\<rparr>"

definition twin_registry :: registry where
  "twin_registry = snd (register (lit ''w'') [lit ''r''] (snd (register (lit ''v'') [lit ''r''] None)))"

definition twin_world :: "(fs, int \<times> fs) world" where
  "twin_world = \<lparr>w_repo = ([], []), w_jobs = demo_dir, w_index = [], w_caches = [], w_srv = (0, []), w_acc = new_accum\<rparr>"

definition twin_hub :: "nat \<Rightarrow> (fs, int) svc_hub" where
  "twin_hub n = (let h0 = snd (lifespan twin_svc (fresh_hub twin_registry twin_world));
     h1 = snd (submit_ingest twin_svc (lit ''v'') (lit ''x'') (lit ''y'') h0);
     h2 = snd (submit_ingest twin_svc (lit ''w'') (lit ''x'') (lit ''y'') h1);
     h3 = h2\<lparr>hb_queue := snd (work_begin 1 (hb_queue h2))\<rparr>
     in [h0, h1, h2, h3, h3\<lparr>hb_queue := snd (work_begin 2 (hb_queue h3))\<rparr>] ! n)"

lemma twin_facts:
  "fst (submit_ingest twin_svc (lit ''v'') (lit ''x'') (lit ''y'') (twin_hub 0)) = Inr (lit ''b2'')"
  "fst (submit_ingest twin_svc (lit ''w'') (lit ''x'') (lit ''y'') (twin_hub 1)) = Inr (lit ''c3'')"
  "at_phase (hb_queue (twin_hub 2)) 1 AtLock" "at_phase (hb_queue (twin_hub 3)) 2 AtLock"
  "at_phase (hb_queue (twin_hub 4)) 1 (Executing (lit ''b2''))" "at_phase (hb_queue (twin_hub 4)) 2 (Executing (lit ''c3''))"
  "map_option (repo_root \<circ> pi_vault) (map_of (hb_pending (twin_hub 4)) (lit ''b2'')) = Some [lit ''r'']"
  "map_option (repo_root \<circ> pi_vault) (map_of (hb_pending (twin_hub 4)) (lit ''c3'')) = Some [lit ''r'']"
  by code_simp+

lemma twin_steps:
  "sstep twin_svc 1 (twin_hub 0) (OfQueue (Submitted (lit ''v'') (lit ''b2''))) (twin_hub 1)"
  "sstep twin_svc 1 (twin_hub 1) (OfQueue (Submitted (lit ''w'') (lit ''c3''))) (twin_hub 2)"
  "\<exists>e. sstep twin_svc 1 (twin_hub 2) (OfQueue e) (twin_hub 3)"
  "\<exists>e. sstep twin_svc 1 (twin_hub 3) (OfQueue e) (twin_hub 4)"
proof -
  have h: "twin_hub 1 = snd (submit_ingest twin_svc (lit ''v'') (lit ''x'') (lit ''y'') (twin_hub 0))"
    "twin_hub 2 = snd (submit_ingest twin_svc (lit ''w'') (lit ''x'') (lit ''y'') (twin_hub 1))"
    "twin_hub 3 = (twin_hub 2)\<lparr>hb_queue := snd (work_begin 1 (hb_queue (twin_hub 2)))\<rparr>"
    "twin_hub 4 = (twin_hub 3)\<lparr>hb_queue := snd (work_begin 2 (hb_queue (twin_hub 3)))\<rparr>"
    by (simp_all add: twin_hub_def Let_def numeral_eq_Suc del: lit_Cons)
  have "submit_ingest twin_svc (lit ''v'') (lit ''x'') (lit ''y'') (twin_hub 0) = (Inr (lit ''b2''), twin_hub 1)"
    using twin_facts(1) h(1) by (metis prod.collapse)
  then show "sstep twin_svc 1 (twin_hub 0) (OfQueue (Submitted (lit ''v'') (lit ''b2''))) (twin_hub 1)"
    by (rule sstep.Accept)
  have "submit_ingest twin_svc (lit ''w'') (lit ''x'') (lit ''y'') (twin_hub 1) = (Inr (lit ''c3''), twin_hub 2)"
    using twin_facts(2) h(2) by (metis prod.collapse)
  then show "sstep twin_svc 1 (twin_hub 1) (OfQueue (Submitted (lit ''w'') (lit ''c3''))) (twin_hub 2)"
    by (rule sstep.Accept)
  show "\<exists>e. sstep twin_svc 1 (twin_hub 2) (OfQueue e) (twin_hub 3)"
    using sstep.Take [OF twin_facts(3)] unfolding h(3) by (metis prod.collapse)
  show "\<exists>e. sstep twin_svc 1 (twin_hub 3) (OfQueue e) (twin_hub 4)"
    using sstep.Take [OF twin_facts(4)] unfolding h(4) by (metis prod.collapse)
qed

lemma shared_repository:
  "\<exists>evs h p p'. srun twin_svc 1 (snd (lifespan twin_svc (fresh_hub twin_registry twin_world))) evs h
    \<and> at_phase (hb_queue h) 1 (Executing (lit ''b2'')) \<and> at_phase (hb_queue h) 2 (Executing (lit ''c3''))
    \<and> map_of (hb_pending h) (lit ''b2'') = Some p \<and> map_of (hb_pending h) (lit ''c3'') = Some p'
    \<and> repo_root (pi_vault p) = repo_root (pi_vault p')"
proof -
  obtain e3 e4 where 3: "sstep twin_svc 1 (twin_hub 2) (OfQueue e3) (twin_hub 3)"
    and 4: "sstep twin_svc 1 (twin_hub 3) (OfQueue e4) (twin_hub 4)" using twin_steps(3,4) by blast
  note run = srun.Snoc [OF srun.Snoc [OF srun.Snoc [OF srun.Snoc [OF srun.Nil twin_steps(1)] twin_steps(2)] 3] 4]
  have "twin_hub 0 = snd (lifespan twin_svc (fresh_hub twin_registry twin_world))" by (simp add: twin_hub_def Let_def)
  moreover obtain p p' where "map_of (hb_pending (twin_hub 4)) (lit ''b2'') = Some p"
      "map_of (hb_pending (twin_hub 4)) (lit ''c3'') = Some p'" "repo_root (pi_vault p) = repo_root (pi_vault p')"
    using twin_facts(7,8) by (auto simp del: lit_Cons)
  ultimately show ?thesis using run twin_facts(5,6) by metis
qed

end
