(* ===== verification/Surface.thy ===== *)
theory Surface
  imports Server
begin

text \<open>
  The surfaces as a whole: every route of the HTTP application (\<^verbatim>\<open>src/groundtruth/api/app.py\<close>,
  \<open>create_app\<close>, with the routers of \<^verbatim>\<open>api/\<close> and \<^verbatim>\<open>web/\<close>) and every tool of the MCP server
  (\<^verbatim>\<open>mcp/server.py\<close>, \<^verbatim>\<open>mcp/tools.py\<close>), from the raw headers to the response: the principal is resolved first,
  then the handler runs, then an exception is turned into a response. Which path and which body select which
  route is FastAPI's; a request here is one that was routed and parsed. How a template becomes HTML, and
  how FastMCP reports the exception of a tool, is not modelled. The page of the queue and its
  refreshed fragment have the same context and are one request here. Of a blocking submission this is the first
  half; its second is \<open>ingest_result\<close>.

  Shown: whatever arrives, on either surface, is at most one step of the server of theory \<open>Server\<close>, and a
  request that is not admitted is no step.
\<close>

section \<open>The HTTP application\<close>

datatype api_request =
    Health | WhoAmI
  | PostIngest ingest_request | GetJobs int | GetJob pystr
  | PostQuery pystr pystr | GetNotes pystr "pystr option" "pystr option" | GetNote pystr pystr | GetSchema pystr
  | PostVault adopt_request | GetVaults | DeleteVault pystr
  | QueryForm | IngestForm | UiIngest pystr pystr | UiJob pystr | UiDetail pystr | UiQueue int | UiQuery pystr pystr
  | BrowseIndex | BrowseVault pystr | BrowseNote pystr pystr

datatype body =
    Json json | Queued pystr | Job job_response | Jobs "job_response list" | Info vault_info | Infos "vault_info list"
  | Empty | Names "pystr list" | Detail job_detail | QueuePage queue_page | Answer answer_page | Browsing browse_page

definition reading :: "('h \<Rightarrow> 'a res) \<Rightarrow> ('h, 'a) act" where
  "reading f h = (f h, h)"

definition answering :: "('a \<Rightarrow> 'b) \<Rightarrow> ('h, 'a) act \<Rightarrow> ('h, 'b) act" where
  "answering g m = bindA m (\<lambda>x. retA (g x))"

text \<open>The handler of a route, with the status of its success. \<open>now\<close> is the moment of the request,
  \<open>unesc\<close> is \<open>html.unescape\<close>.\<close>

fun api_handler ::
  "('x, 't) svc \<Rightarrow> (pystr \<Rightarrow> pystr) \<Rightarrow> instant \<Rightarrow> principal \<Rightarrow> api_request \<Rightarrow> (('x, 't) svc_hub, int \<times> body) act" where
  "api_handler sv unesc now p Health = retA (200, Json health)"
| "api_handler sv unesc now p WhoAmI = retA (200, Json (whoami p))"
| "api_handler sv unesc now p (PostIngest rq) = answering (\<lambda>j. (200, Queued j)) (ingest_endpoint sv rq)"
| "api_handler sv unesc now p (GetJobs limit) =
    answering (\<lambda>x. (200, Jobs x)) (reading (list_jobs_endpoint (en_ucd (sv_pipe sv)) limit))"
| "api_handler sv unesc now p (GetJob j) = answering (\<lambda>x. (200, Job x)) (reading (get_job_endpoint (en_ucd (sv_pipe sv)) j))"
| "api_handler sv unesc now p (PostQuery v question) = answering (\<lambda>(s, x). (s, Json x)) (query_endpoint sv v question)"
| "api_handler sv unesc now p (GetNotes v tag pre) = answering (\<lambda>x. (200, Json x)) (reading (list_notes_endpoint sv v tag pre))"
| "api_handler sv unesc now p (GetNote v path) = answering (\<lambda>x. (200, Json x)) (reading (read_note_endpoint sv v path))"
| "api_handler sv unesc now p (GetSchema v) = answering (\<lambda>x. (200, Json x)) (reading (read_schema_endpoint sv v))"
| "api_handler sv unesc now p (PostVault rq) = answering (\<lambda>x. (201, Info x)) (adopt sv rq)"
| "api_handler sv unesc now p GetVaults = answering (\<lambda>x. (200, Infos x)) (reading list_vaults_endpoint)"
| "api_handler sv unesc now p (DeleteVault v) = answering (\<lambda>_. (204, Empty)) (deregister_endpoint v)"
| "api_handler sv unesc now p QueryForm = answering (\<lambda>x. (200, Names x)) (reading vault_names)"
| "api_handler sv unesc now p IngestForm = answering (\<lambda>x. (200, Names x)) (reading vault_names)"
| "api_handler sv unesc now p (UiIngest v t) = answering (\<lambda>x. (200, Job x)) (web_submit sv v t)"
| "api_handler sv unesc now p (UiJob j) = answering (\<lambda>x. (200, Job x)) (reading (web_job_status (en_ucd (sv_pipe sv)) j))"
| "api_handler sv unesc now p (UiDetail j) =
    answering (\<lambda>x. (200, Detail x)) (reading (web_job_detail (en_ucd (sv_pipe sv)) now j))"
| "api_handler sv unesc now p (UiQueue limit) =
    answering (\<lambda>x. (200, QueuePage x)) (reading (queue_context (en_ucd (sv_pipe sv)) now limit))"
| "api_handler sv unesc now p (UiQuery v question) = answering (\<lambda>x. (200, Answer x)) (web_query sv v question)"
| "api_handler sv unesc now p BrowseIndex = answering (\<lambda>x. (200, Browsing x)) (reading browse_index)"
| "api_handler sv unesc now p (BrowseVault v) = answering (\<lambda>x. (200, Browsing x)) (reading (browse_vault sv v))"
| "api_handler sv unesc now p (BrowseNote v path) = answering (\<lambda>x. (200, Browsing x)) (reading (browse_note unesc sv v path))"

text \<open>\<open>ServerError\<close> is an exception for which the application has no handler.\<close>

datatype response = Success int body | Problem int pystr | ServerError

definition principal_of :: "strategy \<Rightarrow> headers \<Rightarrow> api_request \<Rightarrow> principal res" where
  "principal_of auth hs rq = (if rq = Health then Inr anonymous else require_principal auth hs)"

definition api_serve :: "('x, 't) svc \<Rightarrow> (pystr \<Rightarrow> pystr) \<Rightarrow> strategy \<Rightarrow> instant \<Rightarrow> headers \<Rightarrow> api_request \<Rightarrow>
    ('x, 't) svc_hub \<Rightarrow> response \<times> ('x, 't) svc_hub" where
  "api_serve sv unesc auth now hs rq h =
    (case bindA (liftR (principal_of auth hs rq)) (\<lambda>p. api_handler sv unesc now p rq) h of
       (Inr (status, x), h') \<Rightarrow> (Success status x, h')
     | (Inl e, h') \<Rightarrow> (case respond (en_ucd (sv_pipe sv)) e of Some (status, t) \<Rightarrow> Problem status t | None \<Rightarrow> ServerError, h'))"

section \<open>The MCP server\<close>

datatype tool_request =
    ToolQuery pystr pystr | ToolIngest pystr pystr "pystr option" | ToolJobStatus pystr | ToolListVaults
  | ToolListNotes pystr "pystr option" "pystr option" | ToolReadNote pystr pystr | ToolGetSchema pystr
  | ToolUpdateSchema pystr pystr pystr

fun mcp_tool :: "('x, 't) svc \<Rightarrow> tool_request \<Rightarrow> (('x, 't) svc_hub, body) act" where
  "mcp_tool sv (ToolQuery v question) = answering Json (mcp_query sv v question)"
| "mcp_tool sv (ToolIngest v t label) = answering Queued (mcp_ingest sv v t label)"
| "mcp_tool sv (ToolJobStatus j) = answering Job (reading (mcp_job_status (en_ucd (sv_pipe sv)) j))"
| "mcp_tool sv ToolListVaults = answering Json (reading mcp_list_vaults)"
| "mcp_tool sv (ToolListNotes v pre tag) = answering Json (reading (mcp_list_notes sv v pre tag))"
| "mcp_tool sv (ToolReadNote v path) = answering Json (reading (mcp_read_note sv v path))"
| "mcp_tool sv (ToolGetSchema v) = answering Json (reading (mcp_get_schema sv v))"
| "mcp_tool sv (ToolUpdateSchema v markdown rationale) = answering Json (mcp_update_schema sv v markdown rationale)"

text \<open>The middleware, in front of the application: what it sends itself, or what the tool gives.\<close>

datatype mcp_reply = Sent "asgi_event list" | Returned body | Raised exn

definition mcp_serve :: "('x, 't) svc \<Rightarrow> strategy \<Rightarrow> headers \<Rightarrow> tool_request \<Rightarrow> ('x, 't) svc_hub \<Rightarrow> mcp_reply \<times> ('x, 't) svc_hub" where
  "mcp_serve sv auth hs c h =
    (case middleware auth True hs of
       Inl e \<Rightarrow> (Raised e, h)
     | Inr evs \<Rightarrow> if evs \<noteq> [Forward] then (Sent evs, h)
         else case mcp_tool sv c h of (Inr x, h') \<Rightarrow> (Returned x, h') | (Inl e, h') \<Rightarrow> (Raised e, h'))"

section \<open>A request is a step of the server\<close>

definition at_most_a_step :: "('x, 't) svc \<Rightarrow> int \<Rightarrow> ('x, 't) svc_hub \<Rightarrow> ('x, 't) svc_hub \<Rightarrow> bool" where
  "at_most_a_step sv base h h' \<longleftrightarrow> h' = h \<or> (\<exists>ev. sstep sv base h ev h')"

definition stepping :: "('x, 't) svc \<Rightarrow> int \<Rightarrow> (('x, 't) svc_hub, 'a) act \<Rightarrow> bool" where
  "stepping sv base m \<longleftrightarrow> (\<forall>h. at_most_a_step sv base h (snd (m h)))"

named_theorems stepping_intros \<open>handlers that take at most one step\<close>

lemma steppingI: "(\<And>h r h'. m h = (r, h') \<Longrightarrow> \<exists>ev. sstep sv base h ev h') \<Longrightarrow> stepping sv base m"
  unfolding stepping_def at_most_a_step_def by (metis prod.collapse)

lemma stepping_reading [stepping_intros]: "stepping sv base (reading f)"
  by (simp add: stepping_def reading_def at_most_a_step_def)

text \<open>What follows a step may look, not touch.\<close>

lemma stepping_then:
  assumes "stepping sv base m" and "\<And>x h. snd (k x h) = h"
  shows "stepping sv base (bindA m k)"
  unfolding stepping_def
proof
  fix h
  obtain r h1 where m: "m h = (r, h1)" by (cases "m h")
  have "at_most_a_step sv base h h1" using assms(1) m unfolding stepping_def by (metis snd_conv)
  with assms(2) m show "at_most_a_step sv base h (snd (bindA m k h))" by (cases r) (simp_all add: bindA_def)
qed

lemma stepping_answering [stepping_intros]: "stepping sv base m \<Longrightarrow> stepping sv base (answering g m)"
  unfolding answering_def by (rule stepping_then) simp_all

lemma stepping_ops [stepping_intros]:
  "stepping sv base (retA x)" "stepping sv base (submit_ingest sv name t label)" "stepping sv base (svc_query sv name question)"
  "stepping sv base (svc_update_schema sv name markdown rationale)" "stepping sv base (adopt sv rq)"
  "stepping sv base (deregister_endpoint name)"
proof -
  show "stepping sv base (retA x)" by (simp add: stepping_def at_most_a_step_def)
  show "stepping sv base (submit_ingest sv name t label)"
  proof (rule steppingI)
    fix h r h'
    assume s: "submit_ingest sv name t label h = (r, h')"
    show "\<exists>ev. sstep sv base h ev h'" using sstep.Accept sstep.Refuse s by (cases r) blast+
  qed
qed (rule steppingI, blast intro: sstep.Ask sstep.WriteSchema sstep.Adopt sstep.Deregister)+

lemma stepping_endpoints [stepping_intros]:
  "stepping sv base (ingest_endpoint sv rq)" "stepping sv base (query_endpoint sv v question)"
  "stepping sv base (web_submit sv v t)" "stepping sv base (web_query sv v question)"
  "stepping sv base (mcp_query sv v question)" "stepping sv base (mcp_ingest sv v t l)"
  "stepping sv base (mcp_update_schema sv v markdown rationale)"
  unfolding ingest_endpoint_def query_endpoint_def web_submit_def web_query_def mcp_query_def mcp_ingest_def mcp_update_schema_def
  by ((rule stepping_then)?, rule stepping_intros, simp?)+

lemma handler_stepping: "stepping sv base (api_handler sv unesc now p rq)"
  by (cases rq) (simp_all only: api_handler.simps stepping_intros)

lemma tool_stepping: "stepping sv base (mcp_tool sv c)"
  by (cases c) (simp_all only: mcp_tool.simps stepping_intros)

section \<open>Properties\<close>

lemma api_serve_step: "at_most_a_step sv base h (snd (api_serve sv unesc auth now hs rq h))"
proof (cases "principal_of auth hs rq")
  case (Inl e)
  then show ?thesis by (simp add: api_serve_def bindA_def liftR_def at_most_a_step_def)
next
  case (Inr p)
  obtain r h' where a: "api_handler sv unesc now p rq h = (r, h')" by (cases "api_handler sv unesc now p rq h")
  with handler_stepping [of sv base unesc now p rq] have "at_most_a_step sv base h h'"
    unfolding stepping_def by (metis snd_conv)
  with a Inr show ?thesis by (cases r) (auto simp: api_serve_def bindA_def liftR_def split: prod.split)
qed

lemma mcp_serve_step: "at_most_a_step sv base h (snd (mcp_serve sv auth hs c h))"
proof -
  obtain r h' where a: "mcp_tool sv c h = (r, h')" by (cases "mcp_tool sv c h")
  with tool_stepping [of sv base c] have "at_most_a_step sv base h h'"
    unfolding stepping_def by (metis snd_conv)
  with a show ?thesis
    by (cases r) (auto simp: mcp_serve_def at_most_a_step_def split: sum.split)
qed

lemma unresolved:
  assumes "\<not> api_admits auth hs"
  obtains e where "require_principal auth hs = Inl e"
    "respond u e = Some (401, lit ''authentication required'') \<or> respond u e = None"
proof -
  from assms obtain e where e: "require_principal auth hs = Inl e" by (cases "require_principal auth hs") (auto simp: api_admits_def isOk_iff)
  then have "e = authentication_required \<or> (\<exists>c. authenticate auth c = Inl e)"
    by (cases "authenticate auth (map_of hs authorization)")
      (auto simp: require_principal_def api_credential_def split: option.splits)
  then show ?thesis
  proof
    assume "e = authentication_required"
    then show ?thesis using e that by (simp add: respond_def authentication_required_def render_def)
  next
    assume "\<exists>c. authenticate auth c = Inl e"
    then have "ecls e = UnicodeError"
      by (cases auth) (auto simp: Let_def utf8_encode_def guardR_def split: option.splits if_splits)
    then have "respond u e = None" by (simp add: respond_def isinstance_def numeral_eq_Suc)
    then show ?thesis using e that by blast
  qed
qed

lemma served_health: "api_serve sv unesc auth now hs Health h = (Success 200 (Json health), h)"
  by (simp add: api_serve_def principal_of_def bindA_def liftR_def del: lit_Cons)

lemma refused_by_api:
  assumes "\<not> api_admits auth hs" and "rq \<noteq> Health" and "api_serve sv unesc auth now hs rq h = (resp, h')"
  shows "h' = h \<and> (resp = Problem 401 (lit ''authentication required'') \<or> resp = ServerError)"
proof -
  obtain e where e: "require_principal auth hs = Inl e"
    and r: "respond (en_ucd (sv_pipe sv)) e = Some (401, lit ''authentication required'') \<or> respond (en_ucd (sv_pipe sv)) e = None"
    by (rule unresolved [OF assms(1)])
  from r e assms(2,3) show ?thesis
    by (elim disjE) (simp_all add: api_serve_def principal_of_def bindA_def liftR_def del: lit_Cons)
qed

lemma refused_by_mcp:
  assumes "\<not> mcp_admits auth hs" and "mcp_serve sv auth hs c h = (reply, h')"
  shows "h' = h \<and> (reply = Sent reject_events \<or> (\<exists>e. reply = Raised e))"
  using assms by (auto simp: mcp_serve_def mcp_admits_def middleware_def split: sum.splits if_splits)

text \<open>
  C18. Whatever a client sends. Any request to the HTTP application, routed to any handler with any headers,
  and any call of an MCP tool, is at most one step of the server: there is no other way from the network
  to the registry, the queue, the jobs, the index or a repository, so that all that is shown of server runs
  holds under any traffic. A request that is not admitted, on either surface, leaves the state as it was
  and gets no result: the API answers 401, the middleware sends its rejection, or the check of the
  credential itself has raised. Of the routes of the program only the health check needs no credential.
\<close>

theorem requests_are_steps:
  "(case api_serve sv unesc auth now hs rq h of (resp, h') \<Rightarrow>
      at_most_a_step sv base h h'
      \<and> (if rq = Health then h' = h \<and> resp = Success 200 (Json health)
         else api_admits auth hs
           \<or> h' = h \<and> (resp = Problem 401 (lit ''authentication required'') \<or> resp = ServerError)))
   \<and> (case mcp_serve sv auth hs c h of (reply, h') \<Rightarrow>
      at_most_a_step sv base h h'
      \<and> (mcp_admits auth hs \<or> h' = h \<and> (reply = Sent reject_events \<or> (\<exists>e. reply = Raised e))))"
proof -
  obtain resp h1 where a: "api_serve sv unesc auth now hs rq h = (resp, h1)" by (cases "api_serve sv unesc auth now hs rq h")
  obtain reply h2 where m: "mcp_serve sv auth hs c h = (reply, h2)" by (cases "mcp_serve sv auth hs c h")
  have "at_most_a_step sv base h h1" using api_serve_step [of sv base h unesc auth now hs rq] a by (simp only: snd_conv)
  moreover have "at_most_a_step sv base h h2" using mcp_serve_step [of sv base h auth hs c] m by (simp only: snd_conv)
  moreover have "if rq = Health then h1 = h \<and> resp = Success 200 (Json health)
      else api_admits auth hs \<or> h1 = h \<and> (resp = Problem 401 (lit ''authentication required'') \<or> resp = ServerError)"
    using served_health [of sv unesc auth now hs h] refused_by_api [OF _ _ a] a by (cases "rq = Health"; cases "api_admits auth hs") (simp_all del: lit_Cons)
  moreover have "mcp_admits auth hs \<or> h2 = h \<and> (reply = Sent reject_events \<or> (\<exists>e. reply = Raised e))"
    using refused_by_mcp [OF _ m] by blast
  ultimately show ?thesis unfolding a m prod.case by blast
qed

end
