(* ===== verification/Wheelhouse.thy ===== *)
theory Wheelhouse
  imports Json Sha256 Errors
begin

text \<open>
  The dependency fetcher (\<^verbatim>\<open>scripts/fetch-deps.py\<close>): which artifacts of the lock file are wanted, and the
  download of each, checked against the digest of the lock before it is kept. The wheelhouse is a
  directory of files of bytes. \<open>urllib.request.urlopen\<close> is a function on a state of any type that gives
  the body, a \<open>URLError\<close> or another exception; \<open>tomllib\<close> gives the lock as a value. Printing is not
  modelled.

  Shown: whatever the proxy answers, a file that the run has changed has the digest that the lock gives
  for an artifact of that name, and after a run without failures every wanted artifact is there.
\<close>

section \<open>The wanted artifacts\<close>

record 's fetch_env =
  fe_ucd :: ucd
  fe_py_tag :: pystr
  fe_arch :: pystr
  fe_proxy :: pystr
  fe_open :: "pystr \<Rightarrow> 's \<Rightarrow> (exn option + bytes) \<times> 's"   \<comment> \<open>\<open>Inl None\<close> is a \<open>URLError\<close>\<close>

definition wanted_wheel :: "'s fetch_env \<Rightarrow> pystr \<Rightarrow> bool" where
  "wanted_wheel env filename =
    (let parts = split_on 45 (take (length filename - 4) filename); n = length parts in
     if n < 3 then False
     else let py_tag = parts ! (n - 3); abi_tag = parts ! (n - 2); platform_tag = parts ! (n - 1) in
       if platform_tag = lit ''any'' then True
       else if \<not> contains_sub platform_tag (fe_arch env) \<or> \<not> contains_sub platform_tag (lit ''linux'') then False
       else if list_ex (\<lambda>t. t \<in> {fe_py_tag env, lit ''py3'', lit ''py2''}) (split_on 46 py_tag) then True
       else abi_tag = lit ''abi3'')"

text \<open>\<open>s in j\<close>, \<open>j.startswith\<close> and \<open>j.rsplit("/", 1)[-1]\<close> on a value of the lock.\<close>

fun within :: "pystr \<Rightarrow> json \<Rightarrow> bool res" where
  "within s (JStr t) = Inr (contains_sub t s)"
| "within s (JArr xs) = Inr (JStr s \<in> set xs)"
| "within s (JObj d) = Inr (s \<in> fst ` set d)"
| "within s _ = Inl (exc TypeError [Lit ''argument is not iterable''])"

fun as_text :: "json \<Rightarrow> pystr res" where
  "as_text (JStr s) = Inr s"
| "as_text _ = Inl (exc AttributeError [Lit ''object has no such attribute''])"

record artifact =
  af_name :: json
  af_version :: json
  af_filename :: pystr
  af_sha256 :: pystr

definition entry_artifact :: "'s fetch_env \<Rightarrow> json \<Rightarrow> json \<Rightarrow> json \<Rightarrow> artifact list res" where
  "entry_artifact env name version e =
    bindR (get_key (lit ''url'') (JStr []) e) (\<lambda>url.
    bindR (get_key (lit ''hash'') (JStr []) e) (\<lambda>digest.
    bindR (within (lit ''files.pythonhosted.org'') url) (\<lambda>hosted.
    if \<not> hosted then Inr []
    else bindR (as_text digest) (\<lambda>dg.
      if \<not> starts_with dg (lit ''sha256:'') then Inr []
      else bindR (as_text url) (\<lambda>u.
        let filename = last_field 47 u in
        if ends_with filename (lit ''.whl'') \<and> \<not> wanted_wheel env filename then Inr []
        else Inr [\<lparr>af_name = name, af_version = version, af_filename = filename,
                   af_sha256 = drop (length (lit ''sha256:'')) dg\<rparr>])))))"

definition package_artifacts :: "'s fetch_env \<Rightarrow> json \<Rightarrow> artifact list res" where
  "package_artifacts env pkg =
    bindR (get_key (lit ''name'') JNull pkg) (\<lambda>name.
    bindR (get_key (lit ''version'') JNull pkg) (\<lambda>version.
    if \<not> truthy name \<or> \<not> truthy version then Inr []
    else bindR (get_key (lit ''sdist'') JNull pkg) (\<lambda>sdist.
      bindR (get_key (lit ''wheels'') (JArr []) pkg) (\<lambda>ws.
      bindR (elements (or_else ws (JArr []))) (\<lambda>wheels.
      bindR (mapR (entry_artifact env name version)
        ((case sdist of JObj _ \<Rightarrow> [sdist] | _ \<Rightarrow> []) @ wheels)) (\<lambda>xs. Inr (concat xs)))))))"

definition artifacts :: "'s fetch_env \<Rightarrow> json \<Rightarrow> artifact list res" where
  "artifacts env lock =
    bindR (get_key (lit ''package'') (JArr []) lock) (\<lambda>ps.
    bindR (elements ps) (\<lambda>pkgs.
    bindR (mapR (package_artifacts env) pkgs) (\<lambda>xs. Inr (concat xs))))"

section \<open>Fetching\<close>

datatype house_entry = HFile bytes | HDir

type_synonym wheelhouse = "(pystr \<times> house_entry) list"

definition house_get :: "wheelhouse \<Rightarrow> pystr \<Rightarrow> house_entry option" where
  "house_get d fn = (if fn \<in> {[], lit ''.'', lit ''..''} then Some HDir else map_of d fn)"

definition artifact_url :: "'s fetch_env \<Rightarrow> artifact \<Rightarrow> pystr" where
  "artifact_url env a = fe_proxy env @ lit ''/files/'' @ py_str (fe_ucd env) (af_name a) @ lit ''/''
     @ py_str (fe_ucd env) (af_version a) @ lit ''/'' @ af_filename a"

definition cached :: "wheelhouse \<Rightarrow> artifact \<Rightarrow> bool" where
  "cached d a = (case house_get d (af_filename a) of
     Some (HFile bs) \<Rightarrow> sha256_hex bs = af_sha256 a | _ \<Rightarrow> False)"

text \<open>What ends a fetch: \<open>Inl None\<close> is a \<open>URLError\<close>, which is not one of the classes of theory \<open>Errors\<close>.\<close>

definition fetch :: "'s fetch_env \<Rightarrow> artifact \<Rightarrow> wheelhouse \<times> 's \<Rightarrow> (exn option + unit) \<times> (wheelhouse \<times> 's)" where
  "fetch env a st =
    (case st of (d, s) \<Rightarrow>
     if cached d a then (Inr (), (d, s))
     else case fe_open env (artifact_url env a) s of
       (Inl e, s') \<Rightarrow> (Inl e, (d, s'))
     | (Inr body, s') \<Rightarrow>
         if sha256_hex body \<noteq> af_sha256 a
         then (Inl (Some (exc ValueError [Txt (af_filename a), Lit '': sha256 mismatch (lock '',
                Txt (take 12 (af_sha256 a)), Txt [8230], Lit '', got '', Txt (take 12 (sha256_hex body)), Txt [8230], Lit '')''])),
               (d, s'))
         else if house_get d (af_filename a) = Some HDir
         then (Inl (Some (exc OSError [Lit ''Is a directory''])), (d, s'))
         else (Inr (), (dict_set (af_filename a) (HFile body) d, s')))"

definition tolerated :: "exn option \<Rightarrow> bool" where
  "tolerated e = (case e of None \<Rightarrow> True | Some x \<Rightarrow> isinstance x ValueError \<or> isinstance x TimeoutError)"

fun fetch_all :: "'s fetch_env \<Rightarrow> artifact list \<Rightarrow> (wheelhouse \<times> 's, pystr list) act" where
  "fetch_all env [] st = (Inr [], st)"
| "fetch_all env (a # as) st =
    (case fetch env a st of
       (Inl e, st') \<Rightarrow>
         (if tolerated e then bindA (fetch_all env as) (\<lambda>fs. retA (af_filename a # fs)) st'
          else (Inl (the e), st'))
     | (Inr _, st') \<Rightarrow> fetch_all env as st')"

definition exit_status :: "pystr list \<Rightarrow> int" where
  "exit_status failures = (if failures \<noteq> [] then 1 else 0)"

definition fetch_main :: "'s fetch_env \<Rightarrow> json \<Rightarrow> (wheelhouse \<times> 's, int) act" where
  "fetch_main env lock =
    bindA (\<lambda>st. (artifacts env lock, st)) (\<lambda>items.
    bindA (fetch_all env items) (\<lambda>failures. retA (exit_status failures)))"

section \<open>Every kept file is verified\<close>

definition verified :: "artifact list \<Rightarrow> wheelhouse \<Rightarrow> pystr \<Rightarrow> bool" where
  "verified items d fn = (case map_of d fn of
     Some (HFile bs) \<Rightarrow> list_ex (\<lambda>a. af_filename a = fn \<and> sha256_hex bs = af_sha256 a) items | _ \<Rightarrow> False)"

lemma verified_more: "verified xs d fn \<Longrightarrow> verified (a # xs) d fn"
  by (auto simp: verified_def split: option.splits house_entry.splits)

lemma verified_one: "verified [a] d fn \<Longrightarrow> verified (a # xs) d fn"
  by (auto simp: verified_def split: option.splits house_entry.splits)

lemma fetch_step:
  assumes "fetch env a (d, s) = (r, (d', s'))"
  shows "(\<forall>fn. map_of d' fn = map_of d fn \<or> verified [a] d' fn) \<and> (r = Inr k \<longrightarrow> verified [a] d' (af_filename a))"
proof (cases "cached d a")
  case True
  then show ?thesis using assms
    by (auto simp: fetch_def cached_def house_get_def verified_def split: option.splits house_entry.splits if_splits)
next
  case False
  obtain x s1 where o': "fe_open env (artifact_url env a) s = (x, s1)" by (cases "fe_open env (artifact_url env a) s")
  show ?thesis
  proof (cases x)
    case (Inl e)
    with assms False o' show ?thesis by (auto simp: fetch_def)
  next
    case (Inr body)
    with assms False o' show ?thesis
      by (auto simp: fetch_def verified_def store_simps split: if_splits)
  qed
qed

lemma wheelhouse_verified:
  "fetch_all env items (d, s) = (r, (d', s')) \<Longrightarrow>
    (\<forall>fn. map_of d' fn = map_of d fn \<or> verified items d' fn)
    \<and> (\<forall>fs. r = Inr fs \<longrightarrow> list_all (\<lambda>a. af_filename a \<in> set fs \<or> verified items d' (af_filename a)) items)"
proof (induction items arbitrary: d s r)
  case Nil
  then show ?case by simp
next
  case (Cons a xs)
  obtain x d1 s1 where f: "fetch env a (d, s) = (x, (d1, s1))" by (metis prod_cases3)
  have step: "map_of d1 fn = map_of d fn \<or> verified [a] d1 fn" "x = Inr () \<Longrightarrow> verified [a] d1 (af_filename a)" for fn
    using fetch_step [OF f] by blast+
  have keep: "verified [a] d1 fn \<Longrightarrow> map_of d' fn = map_of d1 fn \<or> verified xs d' fn \<Longrightarrow> verified (a # xs) d' fn" for fn
    by (auto simp: verified_def split: option.splits house_entry.splits)
  have go: "(\<forall>fn. map_of d' fn = map_of d fn \<or> verified (a # xs) d' fn)
      \<and> (\<forall>fs. q = Inr fs \<longrightarrow> list_all (\<lambda>b. af_filename b \<in> set fs \<or> verified (a # xs) d' (af_filename b)) xs)
      \<and> (x = Inr () \<longrightarrow> verified (a # xs) d' (af_filename a))"
    if rest: "fetch_all env xs (d1, s1) = (q, (d', s'))" for q
  proof -
    have each: "map_of d' fn = map_of d1 fn \<or> verified xs d' fn" for fn
      using Cons.IH [OF rest] by blast
    have a: "map_of d' fn = map_of d fn \<or> verified (a # xs) d' fn" for fn
    proof (cases "map_of d1 fn = map_of d fn")
      case True
      with each [of fn] verified_more [of xs d' fn a] show ?thesis by auto
    next
      case False
      with step(1) [of fn] keep [OF _ each] show ?thesis by blast
    qed
    have b: "list_all (\<lambda>b. af_filename b \<in> set fs \<or> verified (a # xs) d' (af_filename b)) xs" if "q = Inr fs" for fs
      using Cons.IH [OF rest] that by (auto simp: list_all_iff dest: verified_more)
    have c: "verified (a # xs) d' (af_filename a)" if "x = Inr ()"
      by (rule keep [OF step(2) [OF that] each])
    from a b c show ?thesis by blast
  qed
  show ?case
  proof (cases x)
    case (Inr k)
    then have "fetch_all env xs (d1, s1) = (r, (d', s'))" using Cons.prems f by simp
    from go [OF this] Inr show ?thesis by simp
  next
    case (Inl e)
    show ?thesis
    proof (cases "tolerated e")
      case True
      obtain q st where q: "fetch_all env xs (d1, s1) = (q, st)" by (cases "fetch_all env xs (d1, s1)")
      then have st: "st = (d', s')" "r = (case q of Inl e \<Rightarrow> Inl e | Inr fs \<Rightarrow> Inr (af_filename a # fs))"
        using Cons.prems f Inl True by (auto simp: bindA_def retA_def split: sum.splits)
      from go [OF q [unfolded st(1)]] st(2) show ?thesis
        by (cases q) (auto simp: list_all_iff)
    next
      case False
      with Cons.prems f Inl have "d' = d1" "r = Inl (the e)" by simp_all
      moreover have "map_of d1 fn = map_of d fn \<or> verified (a # xs) d1 fn" for fn
        using step(1) [of fn] verified_one by blast
      ultimately show ?thesis by auto
    qed
  qed
qed

end
