(* ===== verification/Spec2Isabelle.thy ===== *)
theory Spec2Isabelle
  imports Surface Wheelhouse
begin

text \<open>
  A verification library for groundtruth, a server that turns submitted text into a vault of linked
  Markdown notes under git, by a language model, and answers questions from those notes. File names
  below are under \<^verbatim>\<open>src/groundtruth/\<close> of the repository.

  \<^bold>\<open>How the program works and where it is modelled\<close>

  A request enters through the HTTP API (\<^verbatim>\<open>api/\<close>), the MCP tools (\<^verbatim>\<open>mcp/\<close>) or the web pages
  (\<^verbatim>\<open>web/\<close>); all three call the service layer (\<^verbatim>\<open>api/services.py\<close>). An ingest becomes a job record and a
  place in the queue of its vault; one worker thread per vault runs the pipeline, which retrieves related
  notes by an agent with read-only tools, lets a second agent draft notes into a buffer, validates the
  batch, tags it, and only then writes, archives, commits and pushes, rolling the repository back on a
  failure. A query runs the read-only agent and passes its text through the grounding check.

  \<^item> Foundations. \<open>Prelude\<close>: text, messages, exceptions, results, state-passing actions. \<open>Text\<close>, \<open>Utf8\<close>,
    \<open>Regex\<close>, \<open>Json\<close>, \<open>Sha256\<close>, \<open>Fs\<close>: what the code uses of Python's \<open>str\<close>, \<open>re\<close>, \<open>json\<close>, \<open>hashlib\<close> and
    \<open>pathlib\<close>. \<open>Errors\<close> (\<^verbatim>\<open>errors.py\<close>), \<open>Redaction\<close> (\<^verbatim>\<open>redaction.py\<close>), \<open>Models\<close> (\<^verbatim>\<open>models/\<close>).
  \<^item> Jobs. \<open>Lifecycle\<close>: the interface \<open>job_table\<close> of a job store and the lemmas every client of it
    shares. \<open>JobStore\<close> (\<^verbatim>\<open>storage/job_store.py\<close>) provides it. \<open>Retry\<close> (\<^verbatim>\<open>jobs/retry.py\<close>), \<open>Queue\<close>
    (\<^verbatim>\<open>jobs/queue.py\<close>, a step relation of worker threads), \<open>JobRecovery\<close> (\<^verbatim>\<open>jobs/recovery.py\<close>).
  \<^item> Storage. \<open>Paths\<close>, \<open>Frontmatter\<close>, \<open>Notes\<close>, \<open>Git\<close> (with scaffolding), \<open>KvStores\<close> (source index, registry,
    deduplication; the interface \<open>keyed_store\<close>): \<^verbatim>\<open>storage/\<close> and \<^verbatim>\<open>ingest/dedup.py\<close>.
  \<^item> Model and agents. \<open>Llm\<close> (\<^verbatim>\<open>llm/client.py\<close>), \<open>Budget\<close>, \<open>Tools\<close>, \<open>Agent\<close> (\<^verbatim>\<open>retrieval/\<close>).
  \<^item> Ingest. \<open>Links\<close>, \<open>SchemaMd\<close>, \<open>WriteTools\<close>, \<open>Validator\<close>, \<open>Vocabulary\<close>, \<open>Prompts\<close>, \<open>CommitMessage\<close>,
    \<open>Archive\<close>: the modules of \<^verbatim>\<open>ingest/\<close>; \<open>Stages\<close> and \<open>Pipeline\<close>: \<^verbatim>\<open>ingest/pipeline.py\<close>.
  \<^item> Recovery of answers. \<open>Answers\<close>: \<^verbatim>\<open>recovery/\<close>.
  \<^item> Configuration and surfaces. \<open>Config\<close> (\<^verbatim>\<open>config/\<close>), \<open>Auth\<close> (\<^verbatim>\<open>auth/\<close> and the interface \<open>gate\<close> of the
    two surfaces), \<open>Observability\<close> (\<^verbatim>\<open>observability.py\<close>), \<open>Web\<close> (\<^verbatim>\<open>web/render.py\<close>), \<open>Services\<close>
    (\<^verbatim>\<open>api/services.py\<close>), \<open>Api\<close> (the rest of \<^verbatim>\<open>api/\<close> and \<^verbatim>\<open>mcp/tools.py\<close>), \<open>Views\<close> (\<^verbatim>\<open>web/views.py\<close> and
    \<^verbatim>\<open>web/browse.py\<close>), \<open>Startup\<close> (\<^verbatim>\<open>main.py\<close>).
  \<^item> The whole. \<open>Frames\<close>: the interface \<open>frame\<close> of what a step may change, for the pipeline. \<open>JobFrame\<close>: the
    run of a job writes the record of that job only. \<open>QueueJobs\<close>: how queue and job store agree. \<open>Server\<close>: the
    operations of the services and the worker threads interleaved on one state, as a step relation.
    \<open>Surface\<close>: every route of the API and every MCP tool behind its check, and that each is a step of it.
  \<^item> \<open>Wheelhouse\<close>: the build helper \<^verbatim>\<open>scripts/fetch-deps.py\<close> of the repository.

  \<^bold>\<open>Conventions\<close>

  A Python string is the list of its code points, an exception a record of its class and its message, a
  raising function a sum whose left side is the exception, and a stateful operation a function from a
  state to its result and the new state, also where it raises. Classes and named tuples are records,
  enumerations and unions data types, dictionaries association lists in insertion order where the order can
  be seen. Instants and durations are integers of the clock's resolution, dates are ordinals. A definition
  has the name of what it models, with a suffix or prefix where the name is taken.

  The state of a run (\<open>world\<close>) is the repository with its file system, the job directory, the index, the
  vocabulary caches, the outside world and the accumulator; that of the server (\<open>hub\<close>) adds the registry,
  the pending requests and the queue. What the code calls outside the repository is an argument, most of
  them fields of the records \<open>env\<close>, \<open>git_env\<close>, \<open>note_env\<close>, \<open>config_env\<close>, \<open>llm_client\<close> and \<open>svc\<close>: the Unicode
  database, the clock, the git binary, PyYAML, pydantic's validation of a whole document, the HTTP
  transport, the model and the pattern compiler of a user's \<open>grep\<close>. Where a theorem needs something of them it is a named
  hypothesis (\<open>git_behaves\<close>, \<open>yaml_reads_back\<close>, \<open>always_answers\<close>) with a concrete instance in the witness.

  \<^bold>\<open>What is shown\<close>

  \<^item> A run of the pipeline: which failure leaves the tree, which rolls it back and what is recorded;
    nothing is written before a batch is accepted; what an accepted batch satisfies; a run that returns
    has stored a terminal record, and after a success the text is recognised when it comes again.
  \<^item> Around the run: one job per vault at a time, first in first out, and the queue drains; a job's
    state only moves forward; recovery after a restart; the retry policy; and, across theories, that a
    request meets the pipeline once and that a restart loses the queued requests.
  \<^item> The running server, from a startup on and through any interleaving: its queue goes through steps of the
    queue model only; a waiting job is stored as queued and waits once; what is run is what was
    submitted; no id is accepted or run twice; a blocking submission answers with the final record; while no
    worker dies, every accepted job ends with a stored terminal record. Two
    vaults of one repository are not kept apart (\<open>shared_repository\<close>).
  \<^item> Storage: accepted paths stay inside the vault, a write changes one file and keeps what it must, a
    rendered note is read back exactly under a stated condition, a rollback restores the tree, the index
    refines a map.
  \<^item> Agents: budgets are respected, tools stay inside, an organize run ends, a completion is its
    first final attempt.
  \<^item> Answers and surfaces: no answer without a citation that resolves; rendering injects nothing; both
    surfaces admit the same requests; the responses to errors; adoption of vaults; the schema gate;
    precedence of the configuration and its scan for secrets; logging is transparent.

  \<^bold>\<open>Bounds and fuel\<close>

  Loops of the code are structural recursion or recursion with a measure. Fuel occurs where a length bounds
  the iterations and is proved to be enough: the repetition of a pattern starts with the length of the rest
  (\<open>mt_iff\<close>), the chain of exception classes has depth four (\<open>ancestors_enough\<close>). The agent loop has the
  code's own limit of \<open>2 * max_tool_calls + 10\<close> rounds. At most 40 symbolic links are followed, as the
  kernel does. \<open>Word\<close> is used for SHA-256 only; the program computes with unbounded integers elsewhere,
  and the one decimal of a printed duration goes through the nearest double (\<open>Views\<close>).

  \<^bold>\<open>Not modelled\<close>

  The wiring of FastAPI, FastMCP and uvicorn, the parsing of requests, the HTML templates, the
  prompt files (data beside their module, read through an argument), log lines, the locks that serialise
  whole operations (each such operation is one step). In \<open>Server\<close> the run of a job and the recovery on startup
  are single steps too: runs of different vaults overlap in time, and a worker that recovery wakes may
  start before recovery is through. The wait of a submission is the moment it ends.
  A relative path given by an operator is taken relative to the process's directory at once.
\<close>

end
